(* ===== verification/Prelude.thy ===== *)
theory Prelude
  imports Main "HOL-Library.Sublist" "HOL-Library.Code_Target_Nat"
begin

text \<open>
  Shared vocabulary of the development: results that may fail, Go strings as
  byte lists with the operations of the packages \<^verbatim>\<open>strings\<close>,
  \<^verbatim>\<open>strconv\<close> and \<^verbatim>\<open>unicode/utf8\<close> that the mail server uses, 64-bit
  wrap-around, and the generic interface of a component whose operations keep
  an invariant.

  A Go \<^verbatim>\<open>string\<close> is a list of bytes, as in HOL a \<^typ>\<open>string\<close> is a list of
  \<^typ>\<open>char\<close> (8 bits each). \<open>to_lower\<close>, \<open>to_upper\<close> and \<open>equal_fold\<close> change ASCII
  letters only: they agree with \<^verbatim>\<open>strings.ToLower\<close>, \<^verbatim>\<open>strings.ToUpper\<close> and \<^verbatim>\<open>strings.EqualFold\<close> on
  ASCII text, and leave the bytes of other characters alone. Everything that
  looks at characters (\<^verbatim>\<open>utf8.DecodeRuneInString\<close>, \<^verbatim>\<open>strings.Fields\<close>, ...)
  decodes UTF-8 as the Go library does, invalid sequences included.
\<close>

named_theorems go_defs \<open>definitions of the Go string library, for evaluation\<close>
named_theorems res_simps \<open>rules for results that may fail\<close>

section \<open>Results\<close>

text \<open>A Go function returning \<open>(value, error)\<close> is a sum: \<open>Inl\<close> the error.\<close>

definition res_bind :: "'e + 'a \<Rightarrow> ('a \<Rightarrow> 'e + 'b) \<Rightarrow> 'e + 'b" where
  "res_bind m f = (case m of Inl e \<Rightarrow> Inl e | Inr x \<Rightarrow> f x)"

lemma res_bind_simps [simp]:
  "res_bind (Inl e) f = Inl e"
  "res_bind (Inr x) f = f x"
  by (simp_all add: res_bind_def)

lemma res_bind_eq_Inr [res_simps]:
  "res_bind m f = Inr y \<longleftrightarrow> (\<exists>x. m = Inr x \<and> f x = Inr y)"
  by (cases m) auto

lemma res_bind_eq_Inl [res_simps]:
  "res_bind m f = Inl e \<longleftrightarrow> m = Inl e \<or> (\<exists>x. m = Inr x \<and> f x = Inl e)"
  by (cases m) auto

lemma res_bind_cong [fundef_cong]:
  "m = m' \<Longrightarrow> (\<And>x. m' = Inr x \<Longrightarrow> f x = f' x) \<Longrightarrow> res_bind m f = res_bind m' f'"
  by (cases m') auto

definition res_ok :: "'e + 'a \<Rightarrow> bool" where
  "res_ok r = (case r of Inl _ \<Rightarrow> False | Inr _ \<Rightarrow> True)"

lemma res_ok_simps [simp]: "res_ok (Inl e) = False" "res_ok (Inr x) = True"
  by (simp_all add: res_ok_def)

text \<open>\<open>guard_res b e\<close> is the early return \<^verbatim>\<open>if b { return err }\<close>.\<close>

definition guard_res :: "bool \<Rightarrow> 'e \<Rightarrow> 'e + unit" where
  "guard_res b e = (if b then Inl e else Inr ())"

lemma guard_res_eq [res_simps]:
  "guard_res b e = Inr u \<longleftrightarrow> \<not> b"
  "guard_res b e = Inl e' \<longleftrightarrow> b \<and> e' = e"
  by (auto simp: guard_res_def)

text \<open>The two sides of a conditional, for assumptions.\<close>

lemma if_eqE:
  "(if P then x else y) = z \<Longrightarrow> (P \<Longrightarrow> x = z \<Longrightarrow> R) \<Longrightarrow> (\<not> P \<Longrightarrow> y = z \<Longrightarrow> R) \<Longrightarrow> R"
  by (simp split: if_splits)

text \<open>The loop \<^verbatim>\<open>for _, x := range xs { if err := f(x); err != nil { return err } }\<close>.\<close>

fun each_res :: "('a \<Rightarrow> 'e + unit) \<Rightarrow> 'a list \<Rightarrow> 'e + unit" where
  "each_res f [] = Inr ()"
| "each_res f (x # xs) = (case f x of Inl e \<Rightarrow> Inl e | Inr _ \<Rightarrow> each_res f xs)"

lemma each_res_ok [res_simps]:
  "each_res f xs = Inr u \<longleftrightarrow> (\<forall>x \<in> set xs. f x = Inr ())"
  by (induction xs) (auto split: sum.splits)

lemma each_res_err:
  "each_res f xs = Inl e \<Longrightarrow> \<exists>x \<in> set xs. f x = Inl e"
  by (induction xs) (auto split: sum.splits)

text \<open>
  \<open>sat E Q m\<close>: the computation \<open>m\<close> fails only with an error in \<open>E\<close>, and what it
  returns satisfies \<open>Q\<close>.
\<close>

definition sat :: "('e \<Rightarrow> bool) \<Rightarrow> ('a \<Rightarrow> bool) \<Rightarrow> 'e + 'a \<Rightarrow> bool" where
  "sat E Q m = (case m of Inl e \<Rightarrow> E e | Inr x \<Rightarrow> Q x)"

lemma sat_simps [simp]: "sat E Q (Inl e) = E e" "sat E Q (Inr x) = Q x"
  by (simp_all add: sat_def)

lemma sat_bind:
  "sat E R m \<Longrightarrow> (\<And>x. m = Inr x \<Longrightarrow> R x \<Longrightarrow> sat E Q (f x)) \<Longrightarrow> sat E Q (res_bind m f)"
  by (cases m) auto

lemma sat_mono:
  "sat E R m \<Longrightarrow> (\<And>e. E e \<Longrightarrow> E' e) \<Longrightarrow> (\<And>x. m = Inr x \<Longrightarrow> R x \<Longrightarrow> Q x) \<Longrightarrow> sat E' Q m"
  by (cases m) auto

lemma sat_if: "(b \<Longrightarrow> sat E Q m) \<Longrightarrow> (\<not> b \<Longrightarrow> sat E Q m') \<Longrightarrow> sat E Q (if b then m else m')"
  by simp

lemma sat_conj: "sat E Q m \<Longrightarrow> sat E' R m \<Longrightarrow> sat (\<lambda>e. E e \<and> E' e) (\<lambda>x. Q x \<and> R x) m"
  by (cases m) auto

lemma sat_guard: "(b \<Longrightarrow> E e) \<Longrightarrow> (\<not> b \<Longrightarrow> Q ()) \<Longrightarrow> sat E Q (guard_res b e)"
  by (simp add: guard_res_def)

lemma sat_each:
  "(\<And>x. x \<in> set xs \<Longrightarrow> sat E (\<lambda>_. R x) (f x)) \<Longrightarrow> sat E (\<lambda>_. \<forall>x \<in> set xs. R x) (each_res f xs)"
proof (induction xs)
  case (Cons a xs)
  have "sat E (\<lambda>_. R a) (f a)" using Cons.prems by simp
  then show ?case using Cons by (cases "f a"; cases "each_res f xs") auto
qed simp

lemma satD: "sat E Q m \<Longrightarrow> m = Inr x \<Longrightarrow> Q x"
  by simp

lemma satE: "sat E Q m \<Longrightarrow> m = Inl e \<Longrightarrow> E e"
  by simp

section \<open>Bytes and strings\<close>

abbreviation byte :: "char \<Rightarrow> nat" where
  "byte c \<equiv> of_char c"

abbreviation HT :: char where "HT \<equiv> CHR 0x09"
abbreviation LF :: char where "LF \<equiv> CHR 0x0A"
abbreviation CR :: char where "CR \<equiv> CHR 0x0D"
abbreviation SP :: char where "SP \<equiv> CHR 0x20"
abbreviation DQUOTE :: char where "DQUOTE \<equiv> CHR 0x22"
abbreviation BSLASH :: char where "BSLASH \<equiv> CHR 0x5C"

definition lower_byte :: "char \<Rightarrow> char" where [go_defs]:
  "lower_byte c = (if 65 \<le> byte c \<and> byte c \<le> 90 then char_of (byte c + 32) else c)"

definition to_lower :: "string \<Rightarrow> string" where [go_defs]:
  "to_lower s = map lower_byte s"

definition upper_byte :: "char \<Rightarrow> char" where [go_defs]:
  "upper_byte c = (if 97 \<le> byte c \<and> byte c \<le> 122 then char_of (byte c - 32) else c)"

definition to_upper :: "string \<Rightarrow> string" where [go_defs]:
  "to_upper s = map upper_byte s"

definition equal_fold :: "string \<Rightarrow> string \<Rightarrow> bool" where [go_defs]:
  "equal_fold a b = (to_lower a = to_lower b)"

definition has_prefix :: "string \<Rightarrow> string \<Rightarrow> bool" where [go_defs]:
  "has_prefix s p = (take (length p) s = p)"

definition trim_prefix :: "string \<Rightarrow> string \<Rightarrow> string" where [go_defs]:
  "trim_prefix s p = (if has_prefix s p then drop (length p) s else s)"

definition has_suffix :: "string \<Rightarrow> string \<Rightarrow> bool" where [go_defs]:
  "has_suffix s p = (length p \<le> length s \<and> drop (length s - length p) s = p)"

definition trim_suffix :: "string \<Rightarrow> string \<Rightarrow> string" where [go_defs]:
  "trim_suffix s p = (if has_suffix s p then take (length s - length p) s else s)"

text \<open>\<^verbatim>\<open>strings.Index\<close>: the offset of the first occurrence.\<close>

fun str_index :: "string \<Rightarrow> string \<Rightarrow> nat option" where
  "str_index [] p = (if p = [] then Some 0 else None)"
| "str_index (c # s) p =
     (if has_prefix (c # s) p then Some 0 else map_option Suc (str_index s p))"

definition str_contains :: "string \<Rightarrow> string \<Rightarrow> bool" where [go_defs]:
  "str_contains s p = (str_index s p \<noteq> None)"

text \<open>\<^verbatim>\<open>strings.Compare\<close>: byte-wise lexicographic, -1, 0 or 1.\<close>

fun str_compare :: "string \<Rightarrow> string \<Rightarrow> int" where
  "str_compare [] [] = 0"
| "str_compare [] (b # bs) = -1"
| "str_compare (a # as) [] = 1"
| "str_compare (a # as) (b # bs) =
     (if byte a < byte b then -1 else if byte b < byte a then 1 else str_compare as bs)"

text \<open>\<^verbatim>\<open>strings.TrimLeft\<close> and \<^verbatim>\<open>strings.TrimRight\<close> with a set of bytes.\<close>

definition trim_left :: "string \<Rightarrow> char set \<Rightarrow> string" where [go_defs]:
  "trim_left s cs = dropWhile (\<lambda>c. c \<in> cs) s"

definition trim_right :: "string \<Rightarrow> char set \<Rightarrow> string" where [go_defs]:
  "trim_right s cs = rev (dropWhile (\<lambda>c. c \<in> cs) (rev s))"

text \<open>\<^verbatim>\<open>strings.Join\<close>.\<close>

fun str_join :: "string list \<Rightarrow> string \<Rightarrow> string" where
  "str_join [] sep = []"
| "str_join [x] sep = x"
| "str_join (x # y # xs) sep = x @ sep @ str_join (y # xs) sep"

text \<open>\<^verbatim>\<open>strings.Split\<close> at a byte, and the part before its first occurrence, as
  \<^verbatim>\<open>strings.Cut\<close> gives it.\<close>

fun split_byte :: "char \<Rightarrow> string \<Rightarrow> string list" where
  "split_byte c [] = [[]]"
| "split_byte c (a # s) =
     (if a = c then [] # split_byte c s
      else (a # hd (split_byte c s)) # tl (split_byte c s))"

definition cut_byte :: "char \<Rightarrow> string \<Rightarrow> string option" where [go_defs]:
  "cut_byte c s = (if c \<in> set s then Some (takeWhile (\<lambda>a. a \<noteq> c) s) else None)"

text \<open>\<^verbatim>\<open>strings.LastIndexByte\<close>.\<close>

fun last_index_byte :: "string \<Rightarrow> char \<Rightarrow> nat option" where
  "last_index_byte [] c = None"
| "last_index_byte (a # s) c =
     (case last_index_byte s c of
        Some i \<Rightarrow> Some (Suc i)
      | None \<Rightarrow> if a = c then Some 0 else None)"

subsection \<open>Laws of the string operations\<close>

lemma lower_byte_idem [simp]: "lower_byte (lower_byte c) = lower_byte c"
  by (auto simp: lower_byte_def)

lemma to_lower_idem [simp]: "to_lower (to_lower s) = to_lower s"
  by (simp add: to_lower_def)

lemma length_to_lower [simp]: "length (to_lower s) = length s"
  by (simp add: to_lower_def)

lemma to_lower_Nil [simp]: "to_lower [] = []"
  by (simp add: to_lower_def)

lemma to_lower_Cons [simp]: "to_lower (c # s) = lower_byte c # to_lower s"
  by (simp add: to_lower_def)

lemma to_lower_append [simp]: "to_lower (s @ t) = to_lower s @ to_lower t"
  by (simp add: to_lower_def)

lemma to_lower_eq_Nil [simp]: "to_lower s = [] \<longleftrightarrow> s = []"
  by (simp add: to_lower_def)

lemma equal_fold_refl [simp, intro]: "equal_fold s s"
  by (simp add: equal_fold_def)

lemma equal_fold_sym: "equal_fold s t \<Longrightarrow> equal_fold t s"
  by (simp add: equal_fold_def)

lemma equal_fold_trans: "equal_fold s t \<Longrightarrow> equal_fold t u \<Longrightarrow> equal_fold s u"
  by (simp add: equal_fold_def)

lemma has_prefix_iff: "has_prefix s p \<longleftrightarrow> prefix p s"
  unfolding has_prefix_def prefix_def
  by (metis append_eq_conv_conj append_take_drop_id)

lemma has_prefix_append [simp]: "has_prefix (p @ s) p"
  by (simp add: has_prefix_iff)

lemma str_index_Some:
  "str_index s p = Some i \<Longrightarrow> prefix p (drop i s)"
proof (induction s arbitrary: i)
  case Nil
  then show ?case by (simp split: if_splits)
next
  case (Cons c s)
  then show ?case
    by (cases i) (simp_all add: has_prefix_iff split: if_splits)
qed

lemma str_index_least:
  "str_index s p = Some i \<Longrightarrow> j < i \<Longrightarrow> \<not> prefix p (drop j s)"
proof (induction s arbitrary: i j)
  case Nil
  then show ?case by (simp split: if_splits)
next
  case (Cons c s)
  then show ?case
    by (cases i; cases j) (simp_all add: has_prefix_iff split: if_splits)
qed

lemma str_index_None:
  "str_index s p = None \<Longrightarrow> \<not> prefix p (drop j s)"
proof (induction s arbitrary: j)
  case Nil
  then show ?case by (simp split: if_splits)
next
  case (Cons c s)
  then show ?case
    by (cases j) (simp_all add: has_prefix_iff split: if_splits)
qed

lemma str_index_bound: "str_index s p = Some i \<Longrightarrow> i + length p \<le> length s"
proof (induction s arbitrary: i)
  case Nil
  then show ?case by (simp split: if_splits)
next
  case (Cons c s)
  then show ?case
    using prefix_length_le [of p "c # s"]
    by (cases i) (simp_all add: has_prefix_iff split: if_splits)
qed

text \<open>\<^verbatim>\<open>strings.Contains\<close> is the sublist relation.\<close>

lemma str_contains_iff: "str_contains s p \<longleftrightarrow> sublist p s"
proof
  assume "str_contains s p"
  then obtain i where "str_index s p = Some i"
    by (auto simp: str_contains_def)
  then have "prefix p (drop i s)" by (rule str_index_Some)
  then show "sublist p s"
    by (metis append_take_drop_id prefix_def sublist_def)
next
  assume "sublist p s"
  then obtain u v where s: "s = u @ p @ v" by (auto simp: sublist_def)
  then have "prefix p (drop (length u) s)" by simp
  then show "str_contains s p"
    using str_index_None [of s p "length u"] by (auto simp: str_contains_def)
qed

lemma str_compare_eq_0 [simp]: "str_compare a b = 0 \<longleftrightarrow> a = b"
  by (induction a b rule: str_compare.induct) auto

lemma str_compare_swap: "str_compare b a = - str_compare a b"
  by (induction a b rule: str_compare.induct) auto

lemma str_compare_le_Cons:
  "str_compare (a # as) (b # bs) \<le> 0 \<longleftrightarrow>
     byte a < byte b \<or> byte a = byte b \<and> str_compare as bs \<le> 0"
  by auto

lemma str_compare_trans:
  "str_compare a b \<le> 0 \<Longrightarrow> str_compare b c \<le> 0 \<Longrightarrow> str_compare a c \<le> 0"
proof (induction a arbitrary: b c)
  case Nil
  then show ?case by (cases c) simp_all
next
  case (Cons x a)
  from Cons.prems(1) obtain y b' where b: "b = y # b'" by (cases b) auto
  from Cons.prems(2) b obtain z c' where c: "c = z # c'" by (cases c) auto
  have 1: "byte x < byte y \<or> byte x = byte y \<and> str_compare a b' \<le> 0"
    using Cons.prems(1) unfolding b str_compare_le_Cons .
  have 2: "byte y < byte z \<or> byte y = byte z \<and> str_compare b' c' \<le> 0"
    using Cons.prems(2) unfolding b c str_compare_le_Cons .
  have "byte x < byte z \<or> byte x = byte z \<and> str_compare a c' \<le> 0"
    using 1 2 Cons.IH [of b' c'] order_less_trans [of "byte x" "byte y" "byte z"] by metis
  then show ?case unfolding c str_compare_le_Cons .
qed

section \<open>UTF-8\<close>

text \<open>
  \<^verbatim>\<open>utf8.DecodeRuneInString\<close>: the code point and the number of bytes it
  takes; an invalid sequence is U+FFFD of width 1, the empty string width 0.
\<close>

definition utf8_need :: "nat \<Rightarrow> nat" where [go_defs]:
  "utf8_need b = (if b < 224 then 2 else if b < 240 then 3 else 4)"

definition utf8_accept :: "nat \<Rightarrow> nat \<times> nat" where [go_defs]:
  "utf8_accept b =
     (if b = 224 then (160, 191) else if b = 237 then (128, 159)
      else if b = 240 then (144, 191) else if b = 244 then (128, 143)
      else (128, 191))"

definition utf8_cont :: "char \<Rightarrow> bool" where [go_defs]:
  "utf8_cont c = (128 \<le> byte c \<and> byte c \<le> 191)"

definition decode_rune :: "string \<Rightarrow> nat \<times> nat" where [go_defs]:
  "decode_rune s =
     (case s of
        [] \<Rightarrow> (65533, 0)
      | c # t \<Rightarrow>
          (let b = byte c in
           if b < 128 then (b, 1)
           else if b < 194 \<or> 244 < b then (65533, 1)
           else
             (let n = utf8_need b; cs = take (n - 1) t in
              if length cs < n - 1 \<or>
                 \<not> (fst (utf8_accept b) \<le> byte (hd cs) \<and> byte (hd cs) \<le> snd (utf8_accept b)) \<or>
                 \<not> list_all utf8_cont (tl cs)
              then (65533, 1)
              else (fold (\<lambda>d r. r * 64 + (byte d - 128)) cs
                      (b - (if n = 2 then 192 else if n = 3 then 224 else 240)), n))))"

definition rune_size :: "string \<Rightarrow> nat" where [go_defs]:
  "rune_size s = snd (decode_rune s)"

lemma decode_rune_size: "s \<noteq> [] \<Longrightarrow> 1 \<le> rune_size s \<and> rune_size s \<le> length s"
  by (cases s) (auto simp: rune_size_def decode_rune_def utf8_need_def Let_def Suc_le_eq)

lemma decode_rune_ascii [simp]:
  "byte c < 128 \<Longrightarrow> decode_rune (c # s) = (byte c, 1)"
  by (simp add: decode_rune_def)

text \<open>\<^verbatim>\<open>utf8.RuneStart\<close> and \<^verbatim>\<open>utf8.DecodeLastRuneInString\<close> (the width only).\<close>

definition rune_start :: "char \<Rightarrow> bool" where [go_defs]:
  "rune_start c = (\<not> utf8_cont c)"

fun last_start :: "nat \<Rightarrow> string \<Rightarrow> nat" where
  \<comment> \<open>\<open>last_start n (rev s)\<close>: how many bytes before the last one the search
      for a start byte stops, looking at most \<open>n\<close> bytes back\<close>
  "last_start 0 r = 0"
| "last_start (Suc n) r =
     (case r of [] \<Rightarrow> 0 | c # r' \<Rightarrow> if rune_start c then 1 else Suc (last_start n r'))"

definition last_rune_size :: "string \<Rightarrow> nat" where [go_defs]:
  "last_rune_size s =
     (if s = [] then 0
      else if byte (last s) < 128 then 1
      else
        (let k = min (length s - 1) (last_start 3 (tl (rev s)));
             start = length s - 1 - k;
             size = rune_size (drop start s)
         in if start + size \<noteq> length s then 1 else size))"

text \<open>The runes of a string, as \<^verbatim>\<open>for _, r := range s\<close> visits them.\<close>

function runes :: "string \<Rightarrow> nat list" where
  "runes s = (if s = [] then [] else fst (decode_rune s) # runes (drop (rune_size s) s))"
  by pat_completeness auto
termination
proof (relation "measure length", goal_cases)
  case (2 s)
  then show ?case using decode_rune_size [of s] by auto
qed simp

declare runes.simps [simp del]

text \<open>\<^verbatim>\<open>utf8.ValidString\<close>: every character is a complete sequence.\<close>

function valid_utf8 :: "string \<Rightarrow> bool" where
  "valid_utf8 s =
     (if s = [] then True
      else (byte (hd s) < 128 \<or> 1 < rune_size s) \<and> valid_utf8 (drop (rune_size s) s))"
  by pat_completeness auto
termination
proof (relation "measure length", goal_cases)
  case (2 s)
  then show ?case using decode_rune_size [of s] by auto
qed simp

declare valid_utf8.simps [simp del]

text \<open>
  \<^verbatim>\<open>strings.FieldsFunc\<close>: the maximal non-empty runs of characters that are
  not separators. \<^verbatim>\<open>strings.Fields\<close> separates at Unicode white space.
\<close>

function fields_acc :: "(nat \<Rightarrow> bool) \<Rightarrow> string \<Rightarrow> string \<Rightarrow> string list" where
  "fields_acc sep cur s =
     (if s = [] then (if cur = [] then [] else [cur])
      else if sep (fst (decode_rune s))
      then (if cur = [] then [] else [cur]) @ fields_acc sep [] (drop (rune_size s) s)
      else fields_acc sep (cur @ take (rune_size s) s) (drop (rune_size s) s))"
  by pat_completeness auto
termination
proof (relation "measure (\<lambda>(_, _, s). length s)", goal_cases)
  case (2 sep cur s)
  then show ?case using decode_rune_size [of s] by auto
next
  case (3 sep cur s)
  then show ?case using decode_rune_size [of s] by auto
qed simp

declare fields_acc.simps [simp del]

definition fields_func :: "(nat \<Rightarrow> bool) \<Rightarrow> string \<Rightarrow> string list" where [go_defs]:
  "fields_func sep s = fields_acc sep [] s"

definition is_space_rune :: "nat \<Rightarrow> bool" where [go_defs]:
  "is_space_rune r =
     (r \<in> {9, 10, 11, 12, 13, 32, 133, 160, 5760, 8232, 8233, 8239, 8287, 12288} \<or>
      8192 \<le> r \<and> r \<le> 8202)"

definition str_fields :: "string \<Rightarrow> string list" where [go_defs]:
  "str_fields s = fields_func is_space_rune s"

text \<open>\<^verbatim>\<open>strings.TrimSpace\<close>: Unicode white space off both ends.\<close>

function trim_space_left :: "string \<Rightarrow> string" where
  "trim_space_left s =
     (if s \<noteq> [] \<and> is_space_rune (fst (decode_rune s))
      then trim_space_left (drop (rune_size s) s) else s)"
  by pat_completeness auto
termination
proof (relation "measure length", goal_cases)
  case (2 s)
  then show ?case using decode_rune_size [of s] by auto
qed simp

declare trim_space_left.simps [simp del]

lemma last_rune_size_pos:
  assumes "s \<noteq> []"
  shows "0 < last_rune_size s"
proof -
  have "0 < rune_size (drop (length s - 1 - k) s)" for k
  proof -
    have "length s - 1 - k < length s" using assms by (cases s) auto
    then show ?thesis using decode_rune_size [of "drop (length s - 1 - k) s"] by auto
  qed
  then show ?thesis using assms by (simp add: last_rune_size_def Let_def)
qed

function trim_space_right :: "string \<Rightarrow> string" where
  "trim_space_right s =
     (if s \<noteq> [] \<and> is_space_rune (fst (decode_rune (drop (length s - last_rune_size s) s)))
      then trim_space_right (take (length s - last_rune_size s) s) else s)"
  by pat_completeness auto
termination
proof (relation "measure length", goal_cases)
  case (2 s)
  then show ?case using last_rune_size_pos [of s] by auto
qed simp

declare trim_space_right.simps [simp del]

definition trim_space :: "string \<Rightarrow> string" where [go_defs]:
  "trim_space s = trim_space_right (trim_space_left s)"

lemma fields_acc_nonempty: "f \<in> set (fields_acc sep cur s) \<Longrightarrow> f \<noteq> []"
proof (induction sep cur s rule: fields_acc.induct)
  case (1 sep cur s)
  then show ?case
    by (subst (asm) (2) fields_acc.simps) (auto split: if_splits)
qed

section \<open>Machine integers\<close>

text \<open>A Go \<^verbatim>\<open>int64\<close> (and \<^verbatim>\<open>int\<close> on 64-bit platforms) is an \<^typ>\<open>int\<close> in range;
  \<open>wrap64\<close> is what an overflowing operation leaves.\<close>

definition int64_min :: int where [go_defs]: "int64_min = - (2 ^ 63)"
definition int64_max :: int where [go_defs]: "int64_max = 2 ^ 63 - 1"

definition in_int64 :: "int \<Rightarrow> bool" where [go_defs]:
  "in_int64 n = (int64_min \<le> n \<and> n \<le> int64_max)"

definition wrap64 :: "int \<Rightarrow> int" where [go_defs]:
  "wrap64 n = signed_take_bit 63 n"

lemma wrap64_in_range: "in_int64 (wrap64 n)"
  using signed_take_bit_int_greater_eq_minus_exp [of 63 n]
    signed_take_bit_int_less_exp [of 63 n]
  by (simp add: wrap64_def in_int64_def int64_min_def int64_max_def)

lemma wrap64_id [simp]: "in_int64 n \<Longrightarrow> wrap64 n = n"
  by (simp add: wrap64_def in_int64_def int64_min_def int64_max_def
      signed_take_bit_int_eq_self)

text \<open>The value of a string of decimal digits.\<close>

definition is_digit :: "char \<Rightarrow> bool" where [go_defs]:
  "is_digit c = (48 \<le> byte c \<and> byte c \<le> 57)"

definition digits_val :: "string \<Rightarrow> nat" where [go_defs]:
  "digits_val s = foldl (\<lambda>n c. 10 * n + (byte c - 48)) 0 s"

text \<open>\<^verbatim>\<open>strconv.ParseInt(s, 10, 64)\<close>; \<open>None\<close> for a syntax or range error.\<close>

definition parse_int64 :: "string \<Rightarrow> int option" where [go_defs]:
  "parse_int64 s =
     (let neg = (s \<noteq> [] \<and> hd s = CHR ''-'');
          ds = (if s \<noteq> [] \<and> (hd s = CHR ''-'' \<or> hd s = CHR ''+'') then tl s else s)
      in if ds = [] \<or> \<not> list_all is_digit ds then None
         else
           (let n = (if neg then - int (digits_val ds) else int (digits_val ds))
            in if in_int64 n then Some n else None))"

lemma parse_int64_range: "parse_int64 s = Some n \<Longrightarrow> in_int64 n"
  by (auto simp: parse_int64_def Let_def split: if_splits)

text \<open>\<^verbatim>\<open>strconv.Itoa\<close> of a number that is not negative.\<close>

function itoa :: "nat \<Rightarrow> string" where
  "itoa n = (if n < 10 then [char_of (48 + n)] else itoa (n div 10) @ [char_of (48 + n mod 10)])"
  by pat_completeness auto
termination
  by (relation "measure id") auto

declare itoa.simps [simp del]

section \<open>Base64\<close>

text \<open>\<^verbatim>\<open>base64.StdEncoding.DecodeString\<close> on input without line breaks.\<close>

definition b64_val :: "char \<Rightarrow> nat option" where [go_defs]:
  "b64_val c =
     (let b = byte c in
      if 65 \<le> b \<and> b \<le> 90 then Some (b - 65)
      else if 97 \<le> b \<and> b \<le> 122 then Some (b - 71)
      else if 48 \<le> b \<and> b \<le> 57 then Some (b + 4)
      else if c = CHR ''+'' then Some 62
      else if c = CHR ''/'' then Some 63
      else None)"

fun b64_decode :: "string \<Rightarrow> string option" where
  "b64_decode [] = Some []"
| "b64_decode (a # b # c # d # s) =
     (case (b64_val a, b64_val b) of
        (Some x, Some y) \<Rightarrow>
          (let o1 = char_of (x * 4 + y div 16) in
           if c = CHR ''='' then (if d = CHR ''='' \<and> s = [] then Some [o1] else None)
           else
             (case b64_val c of
                None \<Rightarrow> None
              | Some z \<Rightarrow>
                  (let o2 = char_of (y mod 16 * 16 + z div 4) in
                   if d = CHR ''='' then (if s = [] then Some [o1, o2] else None)
                   else
                     (case b64_val d of
                        None \<Rightarrow> None
                      | Some w \<Rightarrow>
                          map_option (\<lambda>r. o1 # o2 # char_of (z mod 4 * 64 + w) # r) (b64_decode s)))))
      | _ \<Rightarrow> None)"
| "b64_decode _ = None"

section \<open>Components with an invariant\<close>

text \<open>
  The contract a stateful component offers: every operation keeps its
  invariant. What follows for any sequence of operations is proved once here.
\<close>

locale invariant_system =
  fixes step :: "'op \<Rightarrow> 's \<Rightarrow> 's"
    and inv :: "'s \<Rightarrow> bool"
  assumes step_inv: "inv s \<Longrightarrow> inv (step op s)"
begin

lemma run_inv: "inv s \<Longrightarrow> inv (fold step ops s)"
  by (induction ops arbitrary: s) (auto intro: step_inv)

lemma run_prefix_inv: "inv s \<Longrightarrow> inv (fold step (take n ops) s)"
  by (rule run_inv)

end

end
