(* ===== verification/Sieve_Parser.thy ===== *)
theory Sieve_Parser
  imports Prelude
begin

text \<open>
  The Sieve parser (\<^verbatim>\<open>src/internal/sieve/parser.go\<close>): the syntax tree, the
  lexical helpers and the recursive-descent parser.

  The parser's cursor \<^verbatim>\<open>p.pos\<close> is modelled by the input that is left,
  \<open>p_rest\<close> = \<^verbatim>\<open>p.input[p.pos:]\<close>, so \<^verbatim>\<open>p.pos >= p.length\<close> is \<open>p_rest = []\<close>.
  Error texts are constructors; the positions they print are left out.
  \<open>peek\<close> is the index expression \<^verbatim>\<open>p.input[p.pos]\<close>: past the end of the input it
  panics, which is the separate error \<open>IndexOutOfRange\<close>. That it is never reached is
  a theorem. Where the code tests \<^verbatim>\<open>p.pos < p.length\<close> and the character in one
  condition, the model tests \<open>p_rest\<close> in the same way.
  \<^verbatim>\<open>parseCommand\<close>, \<^verbatim>\<open>parseBlock\<close>, \<^verbatim>\<open>parseArgument\<close> and \<^verbatim>\<open>parseTestList\<close> call
  one another through loops whose progress depends on what the callee consumed;
  they take fuel, running out of it is the separate error \<open>OutOfFuel\<close> that no Go
  code returns, and \<open>Parse\<close> supplies an amount that always suffices (proved
  below), so that the model has a result exactly when the Go loop ends.
\<close>

section \<open>Syntax tree\<close>

datatype sieve_value =
    StringValue (sv_value: string) (sv_literal: bool) (sv_quoted: bool) (sv_bare: bool)
  | NumberValue (nv_value: int)
  | TagValue (tv_value: string)
  | ListValue (lv_values: "string list")
  | TestListValue (tl_tests: "sieve_value list list")

datatype command =
  Command (cmd_name: string) (cmd_tag: string) (cmd_args: "sieve_value list")
    (cmd_block: "command list option")

text \<open>\<^verbatim>\<open>MaxNesting\<close>.\<close>

definition max_nesting :: nat where "max_nesting = 32"

datatype parse_error =
    ExpectedIdentifier
  | ExpectedTagName
  | ExpectedColon
  | UnexpectedIdentifier string string
  | ExpectedSemicolon string
  | ExpectedLeftBrace
  | BlocksTooDeep
  | UnclosedBlock
  | UnexpectedCharacter char
  | TestsTooDeep
  | UnclosedTestList
  | EmptyTest
  | ExpectedTestName
  | UnexpectedInTestList char
  | ExpectedQuote
  | UnterminatedQuoted
  | ExpectedEndOfLine
  | UnterminatedMultiline
  | ExpectedLeftBracket
  | UnclosedStringList
  | InvalidNumber string
  | NumberOutOfRange string char
  | UnterminatedComment
  | IndexOutOfRange
  | OutOfFuel

record parser =
  p_rest :: string
  p_depth :: nat
  p_unterminated :: bool

type_synonym 'a presult = "parse_error + ('a \<times> parser)"

definition new_parser :: "string \<Rightarrow> parser" where
  "new_parser script = \<lparr>p_rest = script, p_depth = 0, p_unterminated = False\<rparr>"

definition peek :: "parser \<Rightarrow> parse_error + char" where
  \<comment> \<open>\<^verbatim>\<open>p.input[p.pos]\<close>\<close>
  "peek p = (case p_rest p of [] \<Rightarrow> Inl IndexOutOfRange | c # _ \<Rightarrow> Inr c)"

section \<open>Characters\<close>

definition is_alpha :: "char \<Rightarrow> bool" where
  "is_alpha ch = (97 \<le> byte ch \<and> byte ch \<le> 122 \<or> 65 \<le> byte ch \<and> byte ch \<le> 90)"

definition is_alnum :: "char \<Rightarrow> bool" where
  "is_alnum ch = (is_alpha ch \<or> is_digit ch)"

definition is_alnum_underscore :: "char \<Rightarrow> bool" where
  "is_alnum_underscore ch = (is_alnum ch \<or> ch = CHR ''_'')"

definition is_whitespace :: "char \<Rightarrow> bool" where
  "is_whitespace ch = (ch = SP \<or> ch = HT \<or> ch = CR \<or> ch = LF)"

section \<open>White space and comments\<close>

fun skip_line :: "string \<Rightarrow> string" where
  "skip_line [] = []"
| "skip_line (c # s) = (if c = LF then c # s else skip_line s)"

text \<open>The inside of a bracketed comment; \<open>None\<close> when it is not closed.\<close>

fun skip_bracket_comment :: "string \<Rightarrow> string option" where
  "skip_bracket_comment (a # b # s) =
     (if a = CHR ''*'' \<and> b = CHR ''/'' then Some s else skip_bracket_comment (b # s))"
| "skip_bracket_comment _ = None"

lemma skip_line_length: "length (skip_line s) \<le> length s"
  by (induction s) auto

lemma skip_bracket_comment_length:
  "skip_bracket_comment s = Some t \<Longrightarrow> length t < length s"
  by (induction s rule: skip_bracket_comment.induct) (auto split: if_splits)

function skip_space :: "string \<Rightarrow> string \<times> bool" where
  "skip_space s =
     (case s of
        [] \<Rightarrow> ([], False)
      | c # t \<Rightarrow>
          if is_whitespace c then skip_space t
          else if c = CHR ''#'' then skip_space (skip_line t)
          else if c = CHR ''/'' \<and> t \<noteq> [] \<and> hd t = CHR ''*''
          then (case skip_bracket_comment (tl t) of
                  None \<Rightarrow> ([], True)
                | Some u \<Rightarrow> skip_space u)
          else (c # t, False))"
  by pat_completeness auto
termination
proof (relation "measure length", goal_cases)
  case (3 s c t)
  then show ?case using skip_line_length [of t] by simp
next
  case (4 s c t u)
  then show ?case using skip_bracket_comment_length [of "tl t" u]
    by (cases t) auto
qed simp_all

declare skip_space.simps [simp del]

lemma skip_space_simps [simp]:
  "skip_space [] = ([], False)"
  "is_whitespace c \<Longrightarrow> skip_space (c # t) = skip_space t"
  "skip_space (CHR ''#'' # t) = skip_space (skip_line t)"
  "skip_bracket_comment t = None \<Longrightarrow> skip_space (CHR ''/'' # CHR ''*'' # t) = ([], True)"
  "skip_bracket_comment t = Some v \<Longrightarrow> skip_space (CHR ''/'' # CHR ''*'' # t) = skip_space v"
  "\<not> is_whitespace c \<Longrightarrow> c \<noteq> CHR ''#'' \<Longrightarrow> \<not> (c = CHR ''/'' \<and> t \<noteq> [] \<and> hd t = CHR ''*'') \<Longrightarrow>
     skip_space (c # t) = (c # t, False)"
  by (subst skip_space.simps, force simp: is_whitespace_def)+

lemma skip_space_induct [case_names Nil space hash unclosed closed other]:
  assumes "P []"
    and "\<And>c t. is_whitespace c \<Longrightarrow> P t \<Longrightarrow> P (c # t)"
    and "\<And>t. P (skip_line t) \<Longrightarrow> P (CHR ''#'' # t)"
    and "\<And>t. skip_bracket_comment t = None \<Longrightarrow> P (CHR ''/'' # CHR ''*'' # t)"
    and "\<And>t v. skip_bracket_comment t = Some v \<Longrightarrow> P v \<Longrightarrow> P (CHR ''/'' # CHR ''*'' # t)"
    and "\<And>c t. \<not> is_whitespace c \<Longrightarrow> c \<noteq> CHR ''#'' \<Longrightarrow>
           \<not> (c = CHR ''/'' \<and> t \<noteq> [] \<and> hd t = CHR ''*'') \<Longrightarrow> P (c # t)"
  shows "P s"
proof (induction s rule: length_induct)
  case (1 s)
  then have IH: "P t" if "length t < length s" for t using that by blast
  show ?case
  proof (cases s)
    case (Cons c t)
    consider "is_whitespace c" | "c = CHR ''#''"
      | u where "c = CHR ''/''" "t = CHR ''*'' # u"
      | "\<not> is_whitespace c" "c \<noteq> CHR ''#''" "\<not> (c = CHR ''/'' \<and> t \<noteq> [] \<and> hd t = CHR ''*'')"
      by (metis list.collapse)
    then show ?thesis
    proof cases
      case 1
      then show ?thesis using assms(2) IH Cons by simp
    next
      case 2
      then show ?thesis using assms(3) IH [of "skip_line t"] skip_line_length [of t] Cons by simp
    next
      case (3 u)
      then show ?thesis
        using assms(4,5) IH skip_bracket_comment_length [of u] Cons
        by (cases "skip_bracket_comment u") force+
    next
      case 4
      then show ?thesis using assms(6) Cons by simp
    qed
  qed (use assms(1) in simp)
qed

definition skipWhitespaceAndComments :: "parser \<Rightarrow> parser" where
  "skipWhitespaceAndComments p =
     (case skip_space (p_rest p) of
        (r, u) \<Rightarrow> p\<lparr>p_rest := r, p_unterminated := p_unterminated p \<or> u\<rparr>)"

section \<open>Tokens\<close>

definition parseIdentifier :: "parser \<Rightarrow> string presult" where
  "parseIdentifier p =
     (let w = takeWhile is_alnum_underscore (p_rest p) in
      if w = [] then Inl ExpectedIdentifier
      else Inr (w, p\<lparr>p_rest := drop (length w) (p_rest p)\<rparr>))"

definition parseTag :: "parser \<Rightarrow> string presult" where
  "parseTag p =
     (case p_rest p of
        [] \<Rightarrow> Inl ExpectedColon
      | c # s \<Rightarrow>
          if c \<noteq> CHR '':'' then Inl ExpectedColon
          else
            (let w = takeWhile is_alnum_underscore s in
             if w = [] then Inl ExpectedTagName
             else Inr (w, p\<lparr>p_rest := drop (length w) s\<rparr>)))"

text \<open>The characters of a quoted string up to the closing quote, unescaped.\<close>

fun quoted_body :: "string \<Rightarrow> (string \<times> string) option" where
  "quoted_body [] = None"
| "quoted_body (c # s) =
     (if c = BSLASH \<and> s \<noteq> [] then
        map_option (\<lambda>(v, r). (hd s # v, r)) (quoted_body (tl s))
      else if c = DQUOTE then Some ([], s)
      else map_option (\<lambda>(v, r). (c # v, r)) (quoted_body s))"

definition parseString :: "parser \<Rightarrow> sieve_value presult" where
  "parseString p =
     (case p_rest p of
        [] \<Rightarrow> Inl ExpectedQuote
      | c # s \<Rightarrow>
          if c \<noteq> DQUOTE then Inl ExpectedQuote
          else (case quoted_body s of
                  None \<Rightarrow> Inl UnterminatedQuoted
                | Some (v, r) \<Rightarrow> Inr (StringValue v False True False, p\<lparr>p_rest := r\<rparr>)))"

text \<open>
  \<^verbatim>\<open>parseMultiline\<close>: \<open>line_end\<close> skips the rest of the \<^verbatim>\<open>text:\<close> line,
  \<open>multiline_body\<close> reads lines up to the one holding only a dot.
\<close>

fun split_line :: "string \<Rightarrow> (string \<times> string) option" where
  "split_line [] = None"
| "split_line (c # s) =
     (if c = LF then Some ([LF], s) else map_option (\<lambda>(l, r). (c # l, r)) (split_line s))"

lemma split_line_append: "split_line s = Some (l, r) \<Longrightarrow> s = l @ r \<and> l \<noteq> []"
  by (induction s arbitrary: l) (auto split: if_splits)

lemma split_line_length: "split_line s = Some (l, r) \<Longrightarrow> length r < length s"
  using split_line_append [of s l r] by (cases l) auto

function multiline_body :: "string \<Rightarrow> (string \<times> string) option" where
  "multiline_body s =
     (case split_line s of
        None \<Rightarrow> None
      | Some (line, r) \<Rightarrow>
          if trim_right line {CR, LF} = ''.'' then Some ([], r)
          else map_option
            (\<lambda>(v, r'). ((if has_prefix line ''..'' then tl line else line) @ v, r'))
            (multiline_body r))"
  by pat_completeness auto
termination
  by (relation "measure length") (auto dest: split_line_length)

declare multiline_body.simps [simp del]

definition line_end :: "string \<Rightarrow> string option" where
  "line_end s =
     (let s1 = dropWhile (\<lambda>c. c = SP \<or> c = HT) s;
          s2 = (if s1 \<noteq> [] \<and> hd s1 = CHR ''#'' then skip_line s1
                else if s1 \<noteq> [] \<and> hd s1 = CR then tl s1 else s1)
      in if s2 = [] \<or> hd s2 \<noteq> LF then None else Some (tl s2))"

definition parseMultiline :: "parser \<Rightarrow> sieve_value presult" where
  \<comment> \<open>\<open>p_rest\<close> starts at the colon after \<^verbatim>\<open>text\<close>\<close>
  "parseMultiline p =
     (case line_end (tl (p_rest p)) of
        None \<Rightarrow> Inl ExpectedEndOfLine
      | Some s \<Rightarrow>
          (case multiline_body s of
             None \<Rightarrow> Inl UnterminatedMultiline
           | Some (v, r) \<Rightarrow> Inr (StringValue v True False False, p\<lparr>p_rest := r\<rparr>)))"

text \<open>
  \<^verbatim>\<open>parseStringList\<close>: the loop over the elements. Every round consumes a
  character or stands at the closing bracket.
\<close>

definition list_word_char :: "char \<Rightarrow> bool" where
  "list_word_char c = (\<not> is_whitespace c \<and> c \<noteq> CHR '','' \<and> c \<noteq> CHR '']'')"

lemma quoted_body_length: "quoted_body s = Some (v, r) \<Longrightarrow> length r < length s"
proof (induction s arbitrary: v rule: quoted_body.induct)
  case 1
  then show ?case by simp
next
  case (2 c s)
  show ?case
  proof (cases "c = BSLASH \<and> s \<noteq> []")
    case True
    with 2 obtain v' where "quoted_body (tl s) = Some (v', r)" by auto
    with 2 True have "length r < length (tl s)" by blast
    then show ?thesis by simp
  next
    case False
    with 2 show ?thesis by (fastforce split: if_splits)
  qed
qed

lemma skip_space_length: "length (fst (skip_space s)) \<le> length s"
proof (induction s rule: skip_space_induct)
  case (hash t)
  then show ?case using skip_line_length [of t] by simp
next
  case (closed t v)
  then show ?case using skip_bracket_comment_length [of t v] by simp
qed simp_all

definition string_list_element :: "string \<Rightarrow> parse_error + (string \<times> string)" where
  \<comment> \<open>one element, standing at a character that is not white space\<close>
  "string_list_element s =
     (if s = [] then Inl IndexOutOfRange
      else if hd s = DQUOTE
      then (case quoted_body (tl s) of
              None \<Rightarrow> Inl UnterminatedQuoted
            | Some (v, r) \<Rightarrow> Inr (v, r))
      else Inr (takeWhile list_word_char s, dropWhile list_word_char s))"

definition skip_comma :: "string \<Rightarrow> string" where
  "skip_comma s = (if s \<noteq> [] \<and> hd s = CHR '','' then tl s else s)"

lemma skip_space_hd: "skip_space s = (r, u) \<Longrightarrow> r \<noteq> [] \<Longrightarrow> \<not> is_whitespace (hd r)"
  by (induction s rule: skip_space_induct) auto

lemma skip_space_eq_length: "skip_space s = (r, u) \<Longrightarrow> length r \<le> length s"
  using skip_space_length [of s] by simp

lemma skip_space_same:
  "skip_space s = (r, u) \<Longrightarrow> length r = length s \<Longrightarrow> r = s"
proof (induction s rule: skip_space_induct)
  case (space c t)
  then show ?case using skip_space_eq_length [of t r u] by simp
next
  case (hash t)
  then show ?case
    using skip_space_eq_length [of "skip_line t" r u] skip_line_length [of t] by simp
next
  case (closed t v)
  then show ?case
    using skip_space_eq_length [of v r u] skip_bracket_comment_length [of t v] by simp
qed auto

lemma string_list_element_length:
  assumes "string_list_element s = Inr (v, r)" and "s \<noteq> []"
  shows "length r \<le> length s"
    and "list_word_char (hd s) \<Longrightarrow> length r < length s"
    and "\<not> list_word_char (hd s) \<Longrightarrow> r = s"
proof -
  obtain c t where s: "s = c # t" using assms(2) by (cases s) auto
  have DQ: "list_word_char DQUOTE" by (simp add: list_word_char_def is_whitespace_def)
  show "length r \<le> length s"
    using assms(1) s quoted_body_length [of t v r] length_dropWhile_le [of list_word_char s]
    by (auto simp: string_list_element_def split: if_splits option.splits)
  show "length r < length s" if "list_word_char (hd s)"
    using assms(1) s that quoted_body_length [of t v r] length_dropWhile_le [of list_word_char t]
    by (auto simp: string_list_element_def split: if_splits option.splits)
  show "r = s" if "\<not> list_word_char (hd s)"
    using assms(1) s that DQ
    by (auto simp: string_list_element_def split: if_splits option.splits)
qed

text \<open>One round of the loop consumes at least one character.\<close>

lemma string_list_round:
  assumes s: "s \<noteq> []" "hd s \<noteq> CHR '']''"
    and s1: "skip_space s = (s1, u1)" "s1 \<noteq> []"
    and s2: "string_list_element s1 = Inr (v, s2)"
    and s3: "skip_space s2 = (s3, u3)"
  shows "length (skip_comma s3) < length s"
proof -
  have l1: "length s1 \<le> length s" using skip_space_eq_length s1(1) by blast
  have l3: "length s3 \<le> length s2" using skip_space_eq_length s3 by blast
  have lc: "length (skip_comma s3) \<le> length s3" by (simp add: skip_comma_def)
  show ?thesis
  proof (cases "list_word_char (hd s1)")
    case True
    then show ?thesis using string_list_element_length(2) [OF s2 s1(2)] l1 l3 lc by linarith
  next
    case False
    then have eq: "s2 = s1" using string_list_element_length(3) [OF s2 s1(2)] by simp
    show ?thesis
    proof (cases "length s1 = length s")
      case same: True
      then have "s1 = s" using skip_space_same s1(1) by blast
      with False s skip_space_hd [OF s1] have c: "hd s = CHR '',''"
        by (simp add: list_word_char_def)
      obtain t where st: "s = CHR '','' # t" using s(1) c by (cases s) auto
      have "skip_space s2 = (CHR '','' # t, False)"
        using eq \<open>s1 = s\<close> st by (simp add: is_whitespace_def)
      then have "s3 = CHR '','' # t" using s3 by simp
      then show ?thesis using st by (simp add: skip_comma_def)
    next
      case False
      with l1 have "length s1 < length s" by linarith
      with l3 lc eq show ?thesis by simp
    qed
  qed
qed

function string_list_loop ::
  "string \<Rightarrow> string list \<Rightarrow> bool \<Rightarrow> parse_error + (string list \<times> string \<times> bool)" where
  "string_list_loop s acc u =
     (if s = [] then Inr (acc, s, u)
      else if hd s = CHR '']'' then Inr (acc, s, u)
      else
        (case skip_space s of
           (s1, u1) \<Rightarrow>
             if s1 = [] then Inr (acc, s1, u \<or> u1)
             else
               (case string_list_element s1 of
                  Inl e \<Rightarrow> Inl e
                | Inr (v, s2) \<Rightarrow>
                    (case skip_space s2 of
                       (s3, u3) \<Rightarrow>
                         string_list_loop (skip_comma s3) (acc @ [v]) (u \<or> u1 \<or> u3)))))"
  by pat_completeness auto
termination
  by (relation "measure (\<lambda>(s, _, _). length s)") (auto intro: string_list_round [OF _ _ sym _ _ sym])

declare string_list_loop.simps [simp del]

definition parseStringList :: "parser \<Rightarrow> sieve_value presult" where
  "parseStringList p =
     (case p_rest p of
        [] \<Rightarrow> Inl ExpectedLeftBracket
      | c # s \<Rightarrow>
          if c \<noteq> CHR ''['' then Inl ExpectedLeftBracket
          else (case string_list_loop s [] (p_unterminated p) of
                  Inl e \<Rightarrow> Inl e
                | Inr (vs, r, u) \<Rightarrow>
                    if r = [] then Inl UnclosedStringList
                    else Inr (ListValue vs, p\<lparr>p_rest := tl r, p_unterminated := u\<rparr>)))"

text \<open>
  \<^verbatim>\<open>parseNumber\<close>: sign and digits through \<^verbatim>\<open>strconv.ParseInt\<close>, then the
  quantifier K, M or G unless it is the start of a longer word. The shift is an
  \<^verbatim>\<open>int64\<close> shift (\<open>wrap64\<close>), guarded as in the code;
  \<^verbatim>\<open>math.MaxInt64>>shift\<close> and \<^verbatim>\<open>math.MinInt64>>shift\<close> are exact divisions
  rounding down.
\<close>

definition quantifier_shift :: "char \<Rightarrow> nat" where
  "quantifier_shift c =
     (if c = CHR ''K'' \<or> c = CHR ''k'' then 10
      else if c = CHR ''M'' \<or> c = CHR ''m'' then 20
      else if c = CHR ''G'' \<or> c = CHR ''g'' then 30
      else 0)"

definition parseNumber :: "parser \<Rightarrow> sieve_value presult" where
  "parseNumber p =
     (let s = p_rest p;
          sign = (if s \<noteq> [] \<and> hd s = CHR ''-'' then [CHR ''-''] else []);
          ds = takeWhile is_digit (drop (length sign) s);
          v = sign @ ds;
          r = drop (length v) s
      in case parse_int64 v of
           None \<Rightarrow> Inl (InvalidNumber v)
         | Some n \<Rightarrow>
             (let shift = (if r = [] then 0 else quantifier_shift (hd r)) in
              if shift \<noteq> 0 \<and> (tl r = [] \<or> \<not> is_alnum_underscore (hd (tl r)))
              then
                (if n > int64_max div 2 ^ shift \<or> n < int64_min div 2 ^ shift
                 then Inl (NumberOutOfRange v (hd r))
                 else Inr (NumberValue (wrap64 (n * 2 ^ shift)), p\<lparr>p_rest := tl r\<rparr>))
              else Inr (NumberValue n, p\<lparr>p_rest := r\<rparr>)))"

section \<open>Arguments and test lists\<close>

text \<open>The end of \<^verbatim>\<open>parseArgument\<close>: an identifier, or a multi-line string.\<close>

definition parseWord :: "parser \<Rightarrow> sieve_value presult" where
  "parseWord p =
     (let w = takeWhile is_alnum_underscore (p_rest p);
          r = drop (length w) (p_rest p)
      in if w = [] then Inl (UnexpectedCharacter (hd (p_rest p)))
         else if equal_fold w ''text'' \<and> r \<noteq> [] \<and> hd r = CHR '':''
         then parseMultiline (p\<lparr>p_rest := r\<rparr>)
         else Inr (StringValue w False False True, p\<lparr>p_rest := r\<rparr>))"

definition map_presult :: "('a \<Rightarrow> 'b) \<Rightarrow> 'a presult \<Rightarrow> 'b presult" where
  "map_presult f r = map_sum id (\<lambda>(x, p). (f x, p)) r"

fun parseArgument :: "nat \<Rightarrow> parser \<Rightarrow> sieve_value option presult"
  and parseTestList :: "nat \<Rightarrow> parser \<Rightarrow> sieve_value presult"
  and testListLoop ::
    "nat \<Rightarrow> parser \<Rightarrow> sieve_value list list \<Rightarrow> bool \<Rightarrow> sieve_value list list presult"
  and testArgsLoop :: "nat \<Rightarrow> parser \<Rightarrow> sieve_value list \<Rightarrow> sieve_value list presult"
where
  "parseArgument 0 p = Inl OutOfFuel"
| "parseArgument (Suc n) p =
     (let p1 = skipWhitespaceAndComments p; s = tl (p_rest p1) in
      if p_rest p1 = [] then Inr (None, p1)
      else
        res_bind (peek p1) (\<lambda>ch.
          if ch = CHR '':'' then map_presult (\<lambda>t. Some (TagValue t)) (parseTag p1)
          else if ch = DQUOTE then map_presult Some (parseString p1)
          else if ch = CHR ''('' then map_presult Some (parseTestList n p1)
          else if ch = CHR ''['' then map_presult Some (parseStringList p1)
          else if is_digit ch \<or> (ch = CHR ''-'' \<and> s \<noteq> [] \<and> is_digit (hd s))
          then map_presult Some (parseNumber p1)
          else map_presult Some (parseWord p1)))"
| "parseTestList 0 p = Inl OutOfFuel"
| "parseTestList (Suc n) p =
     (if p_depth p \<ge> max_nesting then Inl TestsTooDeep
      else
        res_bind (testListLoop n (p\<lparr>p_depth := Suc (p_depth p), p_rest := tl (p_rest p)\<rparr>) [] False)
          (\<lambda>(tests, p1). Inr (TestListValue tests, p1\<lparr>p_depth := p_depth p\<rparr>)))"
| "testListLoop 0 p tests afterComma = Inl OutOfFuel"
| "testListLoop (Suc n) p tests afterComma =
     (let p1 = skipWhitespaceAndComments p in
      if p_rest p1 = [] then Inl UnclosedTestList
      else
        res_bind (peek p1) (\<lambda>c.
          if c = CHR '')'' then
            (if tests = [] \<or> afterComma then Inl EmptyTest
             else Inr (tests, p1\<lparr>p_rest := tl (p_rest p1)\<rparr>))
          else if \<not> is_alpha c then Inl ExpectedTestName
          else
            res_bind (testArgsLoop n p1 []) (\<lambda>(test, p2).
            res_bind (peek p2) (\<lambda>c2.
              if c2 = CHR '',''
              then testListLoop n (p2\<lparr>p_rest := tl (p_rest p2)\<rparr>) (tests @ [test]) True
              else testListLoop n p2 (tests @ [test]) False))))"
| "testArgsLoop 0 p test = Inl OutOfFuel"
| "testArgsLoop (Suc n) p test =
     (let p1 = skipWhitespaceAndComments p in
      if p_rest p1 = [] then Inl UnclosedTestList
      else
        res_bind (peek p1) (\<lambda>ch.
          if ch = CHR '','' \<or> ch = CHR '')'' then Inr (test, p1)
          else if ch = CHR '';'' \<or> ch = CHR ''{'' \<or> ch = CHR ''}''
          then Inl (UnexpectedInTestList ch)
          else
            res_bind (parseArgument n p1) (\<lambda>(arg, p2).
              testArgsLoop n p2 (test @ (case arg of None \<Rightarrow> [] | Some a \<Rightarrow> [a])))))"

section \<open>Commands, blocks and scripts\<close>

definition is_bare_word :: "sieve_value option \<Rightarrow> bool" where
  \<comment> \<open>\<^verbatim>\<open>arg.(*StringValue)\<close> succeeds and the value is not a multi-line literal\<close>
  "is_bare_word arg =
     (case arg of Some (StringValue v lit q b) \<Rightarrow> \<not> lit | _ \<Rightarrow> False)"

definition bare_value :: "sieve_value option \<Rightarrow> string" where
  "bare_value arg = (case arg of Some (StringValue v lit q b) \<Rightarrow> v | _ \<Rightarrow> [])"

definition isCommandTerminator :: "parser \<Rightarrow> parse_error + bool" where
  "isCommandTerminator p = res_bind (peek p) (\<lambda>ch. Inr (ch = CHR '';'' \<or> ch = CHR ''{''))"

fun argsLoop :: "nat \<Rightarrow> parser \<Rightarrow> string \<Rightarrow> sieve_value list \<Rightarrow> sieve_value list presult" where
  "argsLoop 0 p name args = Inl OutOfFuel"
| "argsLoop (Suc n) p name args =
     (if p_rest p = [] then Inr (args, p)
      else
        res_bind (isCommandTerminator p) (\<lambda>stop.
          if stop then Inr (args, p)
          else
            res_bind (peek p) (\<lambda>ch.
            res_bind (parseArgument n p) (\<lambda>(arg, p1).
              if is_bare_word arg \<and> is_alpha ch \<and> name \<noteq> ''if'' \<and> name \<noteq> ''elsif''
              then Inl (UnexpectedIdentifier (bare_value arg) name)
              else argsLoop n (skipWhitespaceAndComments p1) name
                     (args @ (case arg of None \<Rightarrow> [] | Some a \<Rightarrow> [a]))))))"

definition optionalTag :: "parser \<Rightarrow> string presult" where
  "optionalTag p =
     (case p_rest p of
        c # s \<Rightarrow>
          if c = CHR '':''
          then res_bind (parseTag p) (\<lambda>(tag, p1). Inr (tag, skipWhitespaceAndComments p1))
          else Inr ([], p)
      | [] \<Rightarrow> Inr ([], p))"

definition endCommand :: "command \<Rightarrow> parser \<Rightarrow> command option presult" where
  \<comment> \<open>the semicolon, which only a block makes optional\<close>
  "endCommand cmd p =
     (if p_rest p \<noteq> [] \<and> hd (p_rest p) = CHR '';''
      then Inr (Some cmd, p\<lparr>p_rest := tl (p_rest p)\<rparr>)
      else if cmd_block cmd = None then Inl (ExpectedSemicolon (cmd_name cmd))
      else Inr (Some cmd, p))"

fun parseCommand :: "nat \<Rightarrow> parser \<Rightarrow> command option presult"
  and parseBlock :: "nat \<Rightarrow> parser \<Rightarrow> command list presult"
  and blockLoop :: "nat \<Rightarrow> parser \<Rightarrow> command list \<Rightarrow> command list presult"
where
  "parseCommand 0 p = Inl OutOfFuel"
| "parseCommand (Suc n) p =
     (let p1 = skipWhitespaceAndComments p in
      if p_rest p1 = [] then Inr (None, p1)
      else
        res_bind (peek p1) (\<lambda>ch.
        if \<not> is_alpha ch then Inl ExpectedIdentifier
        else
        res_bind (parseIdentifier p1) (\<lambda>(ident, p2).
        let name = to_lower ident in
        res_bind (optionalTag (skipWhitespaceAndComments p2)) (\<lambda>(tag, p3).
        res_bind (argsLoop n p3 name []) (\<lambda>(args, p4).
        res_bind (if p_rest p4 \<noteq> [] \<and> hd (p_rest p4) = CHR ''{''
                  then map_presult Some (parseBlock n p4) else Inr (None, p4)) (\<lambda>(block, p5).
        endCommand (Command name tag args block) p5))))))"
| "parseBlock 0 p = Inl OutOfFuel"
| "parseBlock (Suc n) p =
     (if p_rest p = [] \<or> hd (p_rest p) \<noteq> CHR ''{'' then Inl ExpectedLeftBrace
      else if p_depth p \<ge> max_nesting then Inl BlocksTooDeep
      else
        res_bind (blockLoop n (p\<lparr>p_depth := Suc (p_depth p), p_rest := tl (p_rest p)\<rparr>) [])
          (\<lambda>(cmds, p1).
             if p_rest p1 = [] then Inl UnclosedBlock
             else Inr (cmds, p1\<lparr>p_depth := p_depth p, p_rest := tl (p_rest p1)\<rparr>)))"
| "blockLoop 0 p cmds = Inl OutOfFuel"
| "blockLoop (Suc n) p cmds =
     (if p_rest p = [] \<or> hd (p_rest p) = CHR ''}'' then Inr (cmds, p)
      else
        (let p1 = skipWhitespaceAndComments p in
         if p_rest p1 = [] \<or> hd (p_rest p1) = CHR ''}'' then Inr (cmds, p1)
         else
           res_bind (parseCommand n p1) (\<lambda>(cmd, p2).
             blockLoop n p2 (cmds @ (case cmd of None \<Rightarrow> [] | Some c \<Rightarrow> [c])))))"

fun parseLoop :: "nat \<Rightarrow> parser \<Rightarrow> command list \<Rightarrow> command list presult" where
  "parseLoop 0 p cmds = Inl OutOfFuel"
| "parseLoop (Suc n) p cmds =
     (if p_rest p = [] then Inr (cmds, p)
      else
        (let p1 = skipWhitespaceAndComments p in
         if p_rest p1 = [] then Inr (cmds, p1)
         else
           res_bind (parseCommand n p1) (\<lambda>(cmd, p2).
             parseLoop n p2 (cmds @ (case cmd of None \<Rightarrow> [] | Some c \<Rightarrow> [c])))))"

definition parse_fuel :: "string \<Rightarrow> nat" where
  "parse_fuel script = 4 * length script + 2"

definition Parse :: "string \<Rightarrow> parse_error + command list" where
  "Parse script =
     res_bind (parseLoop (parse_fuel script) (new_parser script) []) (\<lambda>(cmds, p).
       if p_unterminated p then Inl UnterminatedComment else Inr cmds)"

end
