(* ===== verification/Sieve_Parser_Facts.thy ===== *)
theory Sieve_Parser_Facts
  imports Sieve_Parser
begin

text \<open>
  What the Sieve parser guarantees: it ends on every input, and every syntax
  tree it returns is well formed (bounded nesting, 64-bit numbers, proper
  names). A parser's behaviour is stated as \<open>psat Q\<close>: it neither runs out of fuel
  nor reads past the end of its input, and what it returns satisfies \<open>Q\<close>.
\<close>

section \<open>Reasoning about parser results\<close>

definition crash :: "parse_error \<Rightarrow> bool" where
  "crash e = (e = OutOfFuel \<or> e = IndexOutOfRange)"

lemma crash_simps [simp]:
  "crash OutOfFuel" "crash IndexOutOfRange" "\<not> crash ExpectedIdentifier" "\<not> crash ExpectedTagName"
  "\<not> crash ExpectedColon" "\<not> crash (UnexpectedIdentifier v n)" "\<not> crash (ExpectedSemicolon n)"
  "\<not> crash ExpectedLeftBrace" "\<not> crash BlocksTooDeep" "\<not> crash UnclosedBlock"
  "\<not> crash (UnexpectedCharacter c)" "\<not> crash TestsTooDeep" "\<not> crash UnclosedTestList"
  "\<not> crash EmptyTest" "\<not> crash ExpectedTestName" "\<not> crash (UnexpectedInTestList c)"
  "\<not> crash ExpectedQuote" "\<not> crash UnterminatedQuoted" "\<not> crash ExpectedEndOfLine"
  "\<not> crash UnterminatedMultiline" "\<not> crash ExpectedLeftBracket" "\<not> crash UnclosedStringList"
  "\<not> crash (InvalidNumber v)" "\<not> crash (NumberOutOfRange v c)" "\<not> crash UnterminatedComment"
  by (simp_all add: crash_def)

definition psat :: "('a \<Rightarrow> parser \<Rightarrow> bool) \<Rightarrow> 'a presult \<Rightarrow> bool" where
  "psat Q m = (case m of Inl e \<Rightarrow> \<not> crash e | Inr (x, p) \<Rightarrow> Q x p)"

lemma psat_Inr [intro!]: "Q x p \<Longrightarrow> psat Q (Inr (x, p))"
  by (simp add: psat_def)

lemma psat_Inl [intro!]: "\<not> crash e \<Longrightarrow> psat Q (Inl e)"
  by (simp add: psat_def)

lemma psat_if [intro!]: "(b \<Longrightarrow> psat Q m) \<Longrightarrow> (\<not> b \<Longrightarrow> psat Q m') \<Longrightarrow> psat Q (if b then m else m')"
  by simp

lemma psat_bind:
  "psat R m \<Longrightarrow> (\<And>x p. m = Inr (x, p) \<Longrightarrow> R x p \<Longrightarrow> psat Q (f (x, p))) \<Longrightarrow>
     psat Q (res_bind m f)"
  by (cases m) (auto simp: psat_def)

lemma psat_map: "psat (\<lambda>x. Q (f x)) m \<Longrightarrow> psat Q (map_presult f m)"
  by (cases m) (auto simp: psat_def map_presult_def)

lemma psat_mono: "psat R m \<Longrightarrow> (\<And>x p. R x p \<Longrightarrow> Q x p) \<Longrightarrow> psat Q m"
  by (cases m) (auto simp: psat_def)

lemma psat_conj: "psat Q m \<Longrightarrow> psat R m \<Longrightarrow> psat (\<lambda>x p. Q x p \<and> R x p) m"
  by (cases m) (auto simp: psat_def)

lemma psatD: "psat Q m \<Longrightarrow> m = Inr (x, p) \<Longrightarrow> Q x p"
  by (simp add: psat_def)

lemma psat_total: "psat Q m \<Longrightarrow> m = Inl e \<Longrightarrow> \<not> crash e"
  by (simp add: psat_def)

lemma peek_Cons [simp]: "p_rest p = c # s \<Longrightarrow> peek p = Inr c"
  by (simp add: peek_def)

section \<open>Well-formed syntax trees\<close>

definition ident :: "string \<Rightarrow> bool" where
  "ident w = (w \<noteq> [] \<and> list_all is_alnum_underscore w)"

text \<open>\<open>value_ok d\<close>: a value with at most \<open>d\<close> levels of test lists.\<close>

fun value_ok :: "nat \<Rightarrow> sieve_value \<Rightarrow> bool" where
  "value_ok d (StringValue v lit quoted bare) =
     (if bare then \<not> lit \<and> \<not> quoted \<and> ident v else lit \<noteq> quoted)"
| "value_ok d (NumberValue n) = in_int64 n"
| "value_ok d (TagValue t) = ident t"
| "value_ok d (ListValue vs) = True"
| "value_ok 0 (TestListValue ts) = False"
| "value_ok (Suc d) (TestListValue ts) =
     (ts \<noteq> [] \<and> (\<forall>t \<in> set ts. t \<noteq> [] \<and> (\<forall>v \<in> set t. value_ok d v)))"

definition no_stray_word :: "string \<Rightarrow> sieve_value list \<Rightarrow> bool" where
  \<comment> \<open>only \<^verbatim>\<open>if\<close> and \<^verbatim>\<open>elsif\<close> take a test, so only they have identifier arguments\<close>
  "no_stray_word name args =
     (name \<in> {''if'', ''elsif''} \<or>
      (\<forall>v \<in> set args. \<forall>w. v = StringValue w False False True \<longrightarrow> \<not> is_alpha (hd w)))"

text \<open>\<open>command_ok d\<close>: a command with at most \<open>d\<close> levels of blocks and test lists.\<close>

fun command_ok :: "nat \<Rightarrow> command \<Rightarrow> bool" where
  "command_ok d (Command name tag args block) =
     (ident name \<and> to_lower name = name \<and> (tag = [] \<or> ident tag) \<and>
      (\<forall>v \<in> set args. value_ok d v) \<and> no_stray_word name args \<and>
      (case block of
         None \<Rightarrow> True
       | Some cmds \<Rightarrow>
           (case d of 0 \<Rightarrow> False | Suc d' \<Rightarrow> \<forall>c \<in> set cmds. command_ok d' c)))"

text \<open>An identifier value starts with the character it was read at.\<close>

definition bare_at :: "char \<Rightarrow> sieve_value \<Rightarrow> bool" where
  "bare_at c v = (case v of StringValue w lit q bare \<Rightarrow> bare \<longrightarrow> hd w = c | _ \<Rightarrow> True)"

definition arg_ok :: "nat \<Rightarrow> char \<Rightarrow> sieve_value \<Rightarrow> bool" where
  "arg_ok d c v = (value_ok d v \<and> bare_at c v)"

lemma arg_ok_simps [simp]:
  "arg_ok d c (StringValue v lit q bare) =
     ((if bare then \<not> lit \<and> \<not> q \<and> ident v else lit \<noteq> q) \<and> (bare \<longrightarrow> hd v = c))"
  "arg_ok d c (NumberValue n) = in_int64 n"
  "arg_ok d c (TagValue t) = ident t"
  "arg_ok d c (ListValue vs) = True"
  "arg_ok d c (TestListValue ts) = value_ok d (TestListValue ts)"
  by (auto simp: arg_ok_def bare_at_def)

section \<open>The contract of a token parser\<close>

text \<open>
  \<^verbatim>\<open>parseArgument\<close> relies on its token parsers for progress: a token parser
  ends, and on success it has consumed input, left the nesting depth alone and
  returned a value of its kind.
\<close>

definition consumed :: "parser \<Rightarrow> parser \<Rightarrow> bool" where
  "consumed p p' = (length (p_rest p') < length (p_rest p) \<and> p_depth p' = p_depth p)"

locale token_parser =
  fixes parse :: "parser \<Rightarrow> 'a presult" and ok :: "'a \<Rightarrow> bool"
  assumes spec: "psat (\<lambda>x p'. consumed p p' \<and> ok x) (parse p)"
begin

lemma map_spec:
  "(\<And>x. ok x \<Longrightarrow> Q (f x)) \<Longrightarrow> psat (\<lambda>x p'. consumed p p' \<and> Q x) (map_presult f (parse p))"
  by (rule psat_map, rule psat_mono [OF spec]) blast

end

lemma takeWhile_nonempty_drop:
  "takeWhile P s \<noteq> [] \<Longrightarrow> length s - length (takeWhile P s) < length s"
  by (cases s) (auto split: if_splits)

lemma ident_takeWhile: "takeWhile is_alnum_underscore s \<noteq> [] \<Longrightarrow> ident (takeWhile is_alnum_underscore s)"
  by (simp add: ident_def list_all_iff) (meson set_takeWhileD)

interpretation ident: token_parser parseIdentifier ident
proof
  fix p :: parser
  show "psat (\<lambda>x p'. consumed p p' \<and> ident x) (parseIdentifier p)"
    unfolding parseIdentifier_def Let_def
    by (rule psat_if) (auto simp: consumed_def ident_takeWhile takeWhile_nonempty_drop)
qed

interpretation tag: token_parser parseTag ident
proof
  fix p :: parser
  show "psat (\<lambda>x p'. consumed p p' \<and> ident x) (parseTag p)"
    by (cases "p_rest p") (auto simp: parseTag_def Let_def consumed_def ident_takeWhile)
qed

interpretation quoted: token_parser parseString "arg_ok d c" for d c
proof
  fix p :: parser
  show "psat (\<lambda>x p'. consumed p p' \<and> arg_ok d c x) (parseString p)"
    by (cases "p_rest p")
      (auto simp: parseString_def consumed_def dest!: quoted_body_length split: option.split)
qed

lemma line_end_length: "line_end s = Some t \<Longrightarrow> length t < length s"
proof -
  assume a: "line_end s = Some t"
  define s1 where "s1 = dropWhile (\<lambda>c. c = SP \<or> c = HT) s"
  define s2 where "s2 = (if s1 \<noteq> [] \<and> hd s1 = CHR ''#'' then skip_line s1
                else if s1 \<noteq> [] \<and> hd s1 = CR then tl s1 else s1)"
  have "length s1 \<le> length s" unfolding s1_def by (rule length_dropWhile_le)
  moreover have "length s2 \<le> length s1" unfolding s2_def using skip_line_length [of s1] by simp
  moreover have "s2 \<noteq> [] \<and> t = tl s2"
    using a unfolding line_end_def Let_def s1_def [symmetric] s2_def [symmetric]
    by (simp split: if_splits)
  ultimately show ?thesis by (cases s2) auto
qed

lemma multiline_body_length: "multiline_body s = Some (v, r) \<Longrightarrow> length r < length s"
proof (induction s arbitrary: v rule: multiline_body.induct)
  case (1 s)
  then obtain l t where lt: "split_line s = Some (l, t)"
    by (subst (asm) (2) multiline_body.simps) (auto split: option.splits)
  then have len: "length t < length s" by (rule split_line_length)
  show ?case
  proof (cases "trim_right l {CR, LF} = ''.''")
    case True
    with 1(2) lt len show ?thesis by (subst (asm) multiline_body.simps) simp
  next
    case False
    with 1(2) lt obtain v' where "multiline_body t = Some (v', r)"
      by (subst (asm) multiline_body.simps) auto
    from 1(1) [OF lt refl False this] len show ?thesis by simp
  qed
qed

interpretation multiline: token_parser parseMultiline "arg_ok d c" for d c
proof
  fix p :: parser
  show "psat (\<lambda>x p'. consumed p p' \<and> arg_ok d c x) (parseMultiline p)"
    by (auto simp: parseMultiline_def consumed_def dest!: line_end_length multiline_body_length
        split: option.split)
qed

lemma string_list_loop_spec:
  "case string_list_loop s acc u of
     Inl e \<Rightarrow> \<not> crash e
   | Inr (vs, r, u') \<Rightarrow> length r \<le> length s"
proof (induction s acc u rule: string_list_loop.induct)
  case (1 s acc u)
  show ?case
  proof (cases "s = [] \<or> hd s = CHR '']''")
    case True
    then show ?thesis by (subst string_list_loop.simps) auto
  next
    case False
    obtain s1 u1 where s1: "skip_space s = (s1, u1)" by force
    have l1: "length s1 \<le> length s" using s1 by (rule skip_space_eq_length)
    show ?thesis
    proof (cases "s1 = [] \<or> (\<exists>e. string_list_element s1 = Inl e)")
      case True
      then show ?thesis
        using False s1 by (subst string_list_loop.simps)
          (auto simp: string_list_element_def split: option.splits if_splits)
    next
      case ne: False
      then obtain v s2 where s2: "string_list_element s1 = Inr (v, s2)"
        by (metis old.sum.exhaust surj_pair)
      obtain s3 u3 where s3: "skip_space s2 = (s3, u3)" by force
      have "length (skip_comma s3) < length s"
        using string_list_round [OF _ _ s1 _ s2 s3] False ne by blast
      moreover have "string_list_loop s acc u =
          string_list_loop (skip_comma s3) (acc @ [v]) (u \<or> u1 \<or> u3)"
        using False s1 ne s2 s3 by (subst string_list_loop.simps) simp
      moreover have "case string_list_loop (skip_comma s3) (acc @ [v]) (u \<or> u1 \<or> u3) of
          Inl e \<Rightarrow> \<not> crash e | Inr (vs, r, u') \<Rightarrow> length r \<le> length (skip_comma s3)"
        using 1 False s1 ne s2 s3 by auto
      ultimately show ?thesis by (fastforce split: sum.splits)
    qed
  qed
qed

interpretation strlist: token_parser parseStringList "arg_ok d c" for d c
proof
  fix p :: parser
  show "psat (\<lambda>x p'. consumed p p' \<and> arg_ok d c x) (parseStringList p)"
  proof (cases "p_rest p")
    case (Cons c s)
    then show ?thesis
      using string_list_loop_spec [of s "[]" "p_unterminated p"]
      by (auto simp: parseStringList_def consumed_def neq_Nil_conv split: sum.splits)
  qed (auto simp: parseStringList_def)
qed

lemma parse_int64_nonempty: "parse_int64 v = Some n \<Longrightarrow> v \<noteq> []"
  by (auto simp: parse_int64_def)

interpretation number: token_parser parseNumber "arg_ok d c" for d c
proof
  fix p :: parser
  define s where "s = p_rest p"
  define sign where "sign = (if s \<noteq> [] \<and> hd s = CHR ''-'' then [CHR ''-''] else [])"
  define v where "v = sign @ takeWhile is_digit (drop (length sign) s)"
  define r where "r = drop (length v) s"
  have lv: "length v \<le> length s"
    unfolding v_def sign_def using length_takeWhile_le [of is_digit "tl s"]
      length_takeWhile_le [of is_digit s] by (cases s) (auto simp: drop_Suc)
  show "psat (\<lambda>x p'. consumed p p' \<and> arg_ok d c x) (parseNumber p)"
  proof (cases "parse_int64 v")
    case None
    then show ?thesis
      unfolding parseNumber_def Let_def s_def [symmetric] sign_def [symmetric] v_def [symmetric]
      by auto
  next
    case (Some n)
    then have "v \<noteq> []" and n: "in_int64 n"
      using parse_int64_nonempty parse_int64_range by blast+
    then have lr: "length r < length s" using lv by (cases v) (auto simp: r_def)
    then have "length (tl r) < length s" by simp
    with lr n Some show ?thesis
      unfolding parseNumber_def Let_def s_def [symmetric] sign_def [symmetric] v_def [symmetric]
        r_def [symmetric]
      by (simp only: option.case) (intro psat_if psat_Inr psat_Inl;
          simp add: consumed_def s_def [symmetric] wrap64_in_range)
  qed
qed

lemma parseWord_spec:
  "psat (\<lambda>x p'. consumed p p' \<and> arg_ok d (hd (p_rest p)) x) (parseWord p)"
proof -
  define w where "w = takeWhile is_alnum_underscore (p_rest p)"
  have w: "w \<noteq> [] \<Longrightarrow> length (p_rest p) - length w < length (p_rest p)"
    and i: "w \<noteq> [] \<Longrightarrow> ident w" and h: "w \<noteq> [] \<Longrightarrow> hd w = hd (p_rest p)"
    unfolding w_def using takeWhile_nonempty_drop ident_takeWhile
    by (blast, blast, cases "p_rest p") (auto split: if_splits)
  show ?thesis
    unfolding parseWord_def Let_def w_def [symmetric]
  proof (intro psat_if)
    assume "w \<noteq> []"
    show "psat (\<lambda>x p'. consumed p p' \<and> arg_ok d (hd (p_rest p)) x)
       (parseMultiline (p\<lparr>p_rest := drop (length w) (p_rest p)\<rparr>))"
      by (rule psat_mono [OF multiline.spec])
        (use w [OF \<open>w \<noteq> []\<close>] in \<open>auto simp: consumed_def\<close>)
  qed (use w i h in \<open>auto simp: consumed_def\<close>)
qed

section \<open>Skipping white space\<close>

lemma skip_ws_rest:
  "length (p_rest (skipWhitespaceAndComments p)) \<le> length (p_rest p)"
  using skip_space_length [of "p_rest p"]
  by (simp add: skipWhitespaceAndComments_def case_prod_beta)

lemma skip_ws_depth [simp]: "p_depth (skipWhitespaceAndComments p) = p_depth p"
  by (simp add: skipWhitespaceAndComments_def case_prod_beta)

lemma skip_space_idem: "skip_space s = (r, u) \<Longrightarrow> skip_space r = (r, False)"
  by (induction s rule: skip_space_induct) auto

lemma skip_ws_idem:
  "p_rest (skipWhitespaceAndComments (skipWhitespaceAndComments p)) =
     p_rest (skipWhitespaceAndComments p)"
  by (simp add: skipWhitespaceAndComments_def case_prod_beta skip_space_idem [OF surjective_pairing])

lemma is_alpha_not_delim:
  "is_alpha c \<Longrightarrow> c \<noteq> CHR '','' \<and> c \<noteq> CHR '')''"
  by (auto simp: is_alpha_def)

section \<open>Arguments and test lists\<close>

text \<open>
  \<open>room p\<close> is the nesting that is still allowed at \<open>p\<close>. With fuel for four
  calls per remaining character no parser of the group runs out, each consumes
  input, and the values it returns fit into the room.
\<close>

abbreviation room :: "parser \<Rightarrow> nat" where
  "room p \<equiv> max_nesting - p_depth p"

definition arg_post :: "parser \<Rightarrow> sieve_value option \<Rightarrow> parser \<Rightarrow> bool" where
  "arg_post p x p' =
     (p_depth p' = p_depth p \<and>
      (case x of
         None \<Rightarrow> p_rest p' = []
       | Some v \<Rightarrow> length (p_rest p') < length (p_rest p) \<and>
           arg_ok (room p) (hd (p_rest (skipWhitespaceAndComments p))) v))"

definition test_ok :: "nat \<Rightarrow> sieve_value list \<Rightarrow> bool" where
  "test_ok d t = (t \<noteq> [] \<and> (\<forall>v \<in> set t. value_ok d v))"

definition test_args_post ::
  "parser \<Rightarrow> sieve_value list \<Rightarrow> sieve_value list \<Rightarrow> parser \<Rightarrow> bool" where
  "test_args_post p test t p' =
     (p_depth p' = p_depth p \<and> p_rest p' \<noteq> [] \<and> hd (p_rest p') \<in> {CHR '','', CHR '')''} \<and>
      (t = test \<and> p_rest p' = p_rest (skipWhitespaceAndComments p) \<or>
       test_ok (room p) t \<and> length (p_rest p') < length (p_rest p)))"

lemma consumed_skip:
  "p1 = skipWhitespaceAndComments p \<Longrightarrow> consumed p1 p' \<Longrightarrow> consumed p p'"
  using skip_ws_rest [of p] by (auto simp: consumed_def)

lemma arg_post_token:
  "p1 = skipWhitespaceAndComments p \<Longrightarrow>
     psat (\<lambda>v p'. consumed p1 p' \<and> arg_ok (room p) (hd (p_rest p1)) (f v)) m \<Longrightarrow>
     psat (arg_post p) (map_presult (\<lambda>v. Some (f v)) m)"
  using skip_ws_rest [of p]
  by (intro psat_map, elim psat_mono) (auto simp: arg_post_def consumed_def)

lemma arg_post_tag:
  "p1 = skipWhitespaceAndComments p \<Longrightarrow>
     psat (arg_post p) (map_presult (\<lambda>t. Some (TagValue t)) (parseTag p1))"
  using tag.spec [of p1] by (simp add: arg_post_token)

lemma argument_group_spec:
  "4 * length (p_rest p) + 1 \<le> n \<Longrightarrow> psat (arg_post p) (parseArgument n p)"
  "p_rest p \<noteq> [] \<Longrightarrow> 4 * length (p_rest p) \<le> n \<Longrightarrow>
     psat (\<lambda>v p'. consumed p p' \<and> arg_ok (room p) c v) (parseTestList n p)"
  "4 * length (p_rest p) + 3 \<le> n \<Longrightarrow> \<forall>t \<in> set tests. test_ok (room p) t \<Longrightarrow>
     psat (\<lambda>ts p'. consumed p p' \<and> ts \<noteq> [] \<and> (\<forall>t \<in> set ts. test_ok (room p) t))
       (testListLoop n p tests ac)"
  "4 * length (p_rest p) + 2 \<le> n \<Longrightarrow> \<forall>v \<in> set test. value_ok (room p) v \<Longrightarrow>
     psat (test_args_post p test) (testArgsLoop n p test)"
proof (induction n p and n p and n p tests ac and n p test
    arbitrary: and c and and
    rule: parseArgument_parseTestList_testListLoop_testArgsLoop.induct)
  case (2 n p)
  define p1 where "p1 = skipWhitespaceAndComments p"
  have len: "length (p_rest p1) \<le> length (p_rest p)" and dep: "p_depth p1 = p_depth p"
    by (simp_all add: p1_def skip_ws_rest)
  show ?case
  proof (cases "p_rest p1")
    case Nil
    then show ?thesis by (auto simp: p1_def arg_post_def)
  next
    case (Cons ch s)
    then have at: "p_rest p1 \<noteq> []" "peek p1 = Inr ch" by simp_all
    have tl: "psat (\<lambda>v p'. consumed p1 p' \<and> arg_ok (room p1) (hd (p_rest p1)) v)
        (parseTestList n p1)"
      if "ch = CHR ''(''"
      using "2.IH" [OF p1_def refl at] that "2.prems" Cons len by simp
    show ?thesis
      unfolding parseArgument.simps Let_def p1_def [symmetric] if_not_P [OF at(1)] at(2) res_bind_simps
      using tl [unfolded dep]
      by (intro psat_if arg_post_token [OF p1_def] arg_post_tag [OF p1_def])
        (rule quoted.spec strlist.spec number.spec parseWord_spec | assumption)+
  qed
next
  case (4 n p)
  define q where "q = p\<lparr>p_depth := Suc (p_depth p), p_rest := tl (p_rest p)\<rparr>"
  have len: "Suc (length (p_rest q)) = length (p_rest p)" using "4.prems" by (simp add: q_def)
  show ?case unfolding parseTestList.simps q_def [symmetric]
  proof (intro psat_if)
    assume d: "\<not> max_nesting \<le> p_depth p"
    then have rm: "room p = Suc (room q)" by (simp add: q_def)
    have "psat (\<lambda>ts p'. consumed q p' \<and> ts \<noteq> [] \<and> (\<forall>t \<in> set ts. test_ok (room q) t))
       (testListLoop n q [] False)"
      using "4.IH" [OF d, folded q_def] "4.prems" len by simp
    then show "psat (\<lambda>v p'. consumed p p' \<and> arg_ok (room p) c v)
       (res_bind (testListLoop n q [] False)
          (\<lambda>(tests, p1). Inr (TestListValue tests, p1\<lparr>p_depth := p_depth p\<rparr>)))"
      unfolding rm using len by (elim psat_bind) (auto simp: consumed_def test_ok_def)
  qed auto
next
  case (6 n p tests ac)
  define p1 where "p1 = skipWhitespaceAndComments p"
  have len: "length (p_rest p1) \<le> length (p_rest p)" and dep: "p_depth p1 = p_depth p"
    by (simp_all add: p1_def skip_ws_rest)
  show ?case
  proof (cases "p_rest p1")
    case Nil
    then show ?thesis by (auto simp: p1_def)
  next
    case (Cons c s)
    then have at: "p_rest p1 \<noteq> []" "peek p1 = Inr c" by simp_all
    have args: "psat (test_args_post p1 []) (testArgsLoop n p1 [])"
      if "c \<noteq> CHR '')''" "is_alpha c"
      using "6.IH"(1) [OF p1_def at] that "6.prems" len by simp
    have more: "psat (\<lambda>ts p'. consumed p p' \<and> ts \<noteq> [] \<and> (\<forall>t \<in> set ts. test_ok (room p) t))
        (res_bind (peek p2) (\<lambda>c2.
           if c2 = CHR '',''
           then testListLoop n (p2\<lparr>p_rest := tl (p_rest p2)\<rparr>) (tests @ [test]) True
           else testListLoop n p2 (tests @ [test]) False))"
      if eq: "testArgsLoop n p1 [] = Inr (test, p2)" and post: "test_args_post p1 [] test p2"
        and c: "c \<noteq> CHR '')''" "is_alpha c" for test p2
    proof -
      have p2: "p_depth p2 = p_depth p1" "length (p_rest p2) < length (p_rest p1)"
        "test_ok (room p1) test"
        using post is_alpha_not_delim [OF c(2)] Cons
        by (auto simp: test_args_post_def p1_def skip_ws_idem)
      have ts: "\<forall>t \<in> set (tests @ [test]). test_ok (room p) t"
        using "6.prems" p2 dep by auto
      have nn: "\<not> \<not> is_alpha c" using c by simp
      obtain c2 where c2: "peek p2 = Inr c2" using post by (cases "p_rest p2") (auto simp: test_args_post_def)
      show ?thesis
        unfolding c2 res_bind_simps
      proof (intro psat_if)
        let ?q = "p2\<lparr>p_rest := tl (p_rest p2)\<rparr>"
        assume comma: "c2 = CHR '',''"
        show "psat (\<lambda>ts p'. consumed p p' \<and> ts \<noteq> [] \<and> (\<forall>t \<in> set ts. test_ok (room p) t))
          (testListLoop n ?q (tests @ [test]) True)"
          by (rule psat_mono [OF "6.IH"(2) [OF p1_def at c(1) nn eq refl c2 comma]])
            (use ts p2 dep len "6.prems" in \<open>auto simp: consumed_def\<close>)
      next
        assume nc: "c2 \<noteq> CHR '',''"
        show "psat (\<lambda>ts p'. consumed p p' \<and> ts \<noteq> [] \<and> (\<forall>t \<in> set ts. test_ok (room p) t))
          (testListLoop n p2 (tests @ [test]) False)"
          by (rule psat_mono [OF "6.IH"(3) [OF p1_def at c(1) nn eq refl c2 nc]])
            (use ts p2 dep len "6.prems" in \<open>auto simp: consumed_def\<close>)
      qed
    qed
    show ?thesis
      unfolding testListLoop.simps Let_def p1_def [symmetric] if_not_P [OF at(1)] at(2) res_bind_simps
      by (intro psat_if psat_Inr psat_Inl psat_bind [OF args]; (simp only: prod.case not_not, rule more, assumption+)?)
        (use "6.prems" len dep in \<open>auto simp: consumed_def Cons\<close>)
  qed
next
  case (8 n p test)
  define p1 where "p1 = skipWhitespaceAndComments p"
  have len: "length (p_rest p1) \<le> length (p_rest p)" and dep: "p_depth p1 = p_depth p"
    by (simp_all add: p1_def skip_ws_rest)
  show ?case
  proof (cases "p_rest p1")
    case Nil
    then show ?thesis by (auto simp: p1_def)
  next
    case (Cons c s)
    then have at: "p_rest p1 \<noteq> []" "peek p1 = Inr c" by simp_all
    have arg: "psat (arg_post p1) (parseArgument n p1)"
      if "\<not> (c = CHR '','' \<or> c = CHR '')'')" "\<not> (c = CHR '';'' \<or> c = CHR ''{'' \<or> c = CHR ''}'')"
      using "8.IH"(1) [OF p1_def at that] "8.prems" len by simp
    have more: "psat (test_args_post p test)
        (testArgsLoop n p2 (test @ (case a of None \<Rightarrow> [] | Some a \<Rightarrow> [a])))"
      if eq: "parseArgument n p1 = Inr (a, p2)" and post: "arg_post p1 a p2"
        and c: "\<not> (c = CHR '','' \<or> c = CHR '')'')" "\<not> (c = CHR '';'' \<or> c = CHR ''{'' \<or> c = CHR ''}'')"
      for a p2
    proof (cases a)
      case None
      then have "p_rest p2 = []" and "n \<noteq> 0" using post "8.prems" by (auto simp: arg_post_def)
      then have "testArgsLoop n p2 (test @ []) = Inl UnclosedTestList"
        by (cases n) (simp_all add: skipWhitespaceAndComments_def)
      then show ?thesis using None by auto
    next
      case (Some v)
      have p2: "p_depth p2 = p_depth p" "length (p_rest p2) < length (p_rest p)"
        "value_ok (room p) v"
        using post Some len dep by (auto simp: arg_post_def arg_ok_def)
      have "psat (test_args_post p2 (test @ [v])) (testArgsLoop n p2 (test @ [v]))"
        using "8.IH"(2) [OF p1_def at c eq refl] Some p2 "8.prems" by auto
      then show ?thesis
        using Some p2 "8.prems" skip_ws_rest [of p2]
        by (auto simp: test_args_post_def test_ok_def elim!: psat_mono)
    qed
    show ?thesis
      unfolding testArgsLoop.simps Let_def p1_def [symmetric] if_not_P [OF at(1)] at(2) res_bind_simps
      by (intro psat_if psat_Inr psat_Inl psat_bind [OF arg]; (simp only: prod.case, rule more, assumption+)?)
        (use dep Cons in \<open>auto simp: test_args_post_def p1_def\<close>)
  qed
qed (simp_all)

section \<open>Commands, blocks and scripts\<close>

lemma optionalTag_spec:
  "psat (\<lambda>t p'. length (p_rest p') \<le> length (p_rest p) \<and> p_depth p' = p_depth p \<and>
     (t = [] \<or> ident t)) (optionalTag p)"
proof (cases "p_rest p")
  case (Cons c s)
  have "psat (\<lambda>t p'. length (p_rest p') \<le> length (p_rest p) \<and> p_depth p' = p_depth p \<and>
     (t = [] \<or> ident t))
     (res_bind (parseTag p) (\<lambda>(tag, p1). Inr (tag, skipWhitespaceAndComments p1)))"
  proof (rule psat_bind [OF tag.spec])
    fix t p1 assume "consumed p p1 \<and> ident t"
    then show "psat (\<lambda>t p'. length (p_rest p') \<le> length (p_rest p) \<and> p_depth p' = p_depth p \<and>
        (t = [] \<or> ident t)) (case (t, p1) of (tag, p1) \<Rightarrow> Inr (tag, skipWhitespaceAndComments p1))"
      using skip_ws_rest [of p1] by (auto simp: consumed_def)
  qed
  then show ?thesis using Cons by (auto simp: optionalTag_def)
qed (auto simp: optionalTag_def)

definition args_post :: "parser \<Rightarrow> string \<Rightarrow> sieve_value list \<Rightarrow> parser \<Rightarrow> bool" where
  "args_post p name args p' =
     (length (p_rest p') \<le> length (p_rest p) \<and> p_depth p' = p_depth p \<and>
      (\<forall>v \<in> set args. value_ok (room p) v) \<and> no_stray_word name args)"

lemma argsLoop_spec:
  "4 * length (p_rest p) + 2 \<le> n \<Longrightarrow> p_rest (skipWhitespaceAndComments p) = p_rest p \<Longrightarrow>
     \<forall>v \<in> set args. value_ok (room p) v \<Longrightarrow> no_stray_word name args \<Longrightarrow>
     psat (args_post p name) (argsLoop n p name args)"
proof (induction n p name args rule: argsLoop.induct)
  case (2 n p name args)
  show ?case
  proof (cases "p_rest p")
    case Nil
    then show ?thesis using "2.prems" by (auto simp: args_post_def)
  next
    case (Cons ch s)
    then have at: "p_rest p \<noteq> []" "isCommandTerminator p = Inr (ch = CHR '';'' \<or> ch = CHR ''{'')" "peek p = Inr ch"
      by (simp_all add: isCommandTerminator_def)
    have arg: "psat (arg_post p) (parseArgument n p)"
      using argument_group_spec(1) "2.prems"(1) by simp
    have more: "psat (args_post p name)
        (if is_bare_word a \<and> is_alpha ch \<and> name \<noteq> ''if'' \<and> name \<noteq> ''elsif''
         then Inl (UnexpectedIdentifier (bare_value a) name)
         else argsLoop n (skipWhitespaceAndComments p1) name
                (args @ (case a of None \<Rightarrow> [] | Some a \<Rightarrow> [a])))"
      if eq: "parseArgument n p = Inr (a, p1)" and post: "arg_post p a p1"
        and c: "\<not> (ch = CHR '';'' \<or> ch = CHR ''{'')" for a p1
    proof (intro psat_if)
      let ?q = "skipWhitespaceAndComments p1"
      let ?args = "args @ (case a of None \<Rightarrow> [] | Some a \<Rightarrow> [a])"
      assume nb: "\<not> (is_bare_word a \<and> is_alpha ch \<and> name \<noteq> ''if'' \<and> name \<noteq> ''elsif'')"
      have q: "length (p_rest ?q) < length (p_rest p)" "p_depth ?q = p_depth p"
        using post Cons skip_ws_rest [of p1] by (auto simp: arg_post_def split: option.splits)
      have args: "\<forall>v \<in> set ?args. value_ok (room p) v"
        using post "2.prems"(3) by (auto simp: arg_post_def arg_ok_def split: option.splits)
      have stray: "no_stray_word name ?args"
        using nb post "2.prems"(2,4) Cons
        by (cases a) (fastforce simp: no_stray_word_def arg_post_def is_bare_word_def)+
      show "psat (args_post p name) (argsLoop n ?q name ?args)"
        by (rule psat_mono [OF "2.IH" [OF at(1,2) c at(3) eq refl nb _ skip_ws_idem _ stray]])
          (use q args "2.prems"(1) in \<open>auto simp: args_post_def\<close>)
    qed auto
    show ?thesis
      unfolding argsLoop.simps if_not_P [OF at(1)] at(2,3) res_bind_simps
      by (intro psat_if psat_Inr psat_bind [OF arg]; (simp only: prod.case, rule more, assumption+)?)
        (use "2.prems" in \<open>auto simp: args_post_def\<close>)
  qed
qed simp

lemma is_alnum_underscore_lower:
  "is_alnum_underscore c \<Longrightarrow> is_alnum_underscore (lower_byte c)"
  by (auto simp: is_alnum_underscore_def is_alnum_def is_alpha_def is_digit_def lower_byte_def)

lemma ident_to_lower: "ident w \<Longrightarrow> ident (to_lower w)"
  by (auto simp: ident_def list_all_iff to_lower_def is_alnum_underscore_lower)

definition block_post :: "parser \<Rightarrow> command list option \<Rightarrow> parser \<Rightarrow> bool" where
  "block_post p block p' =
     (length (p_rest p') \<le> length (p_rest p) \<and> p_depth p' = p_depth p \<and>
      (case block of
         None \<Rightarrow> True
       | Some cmds \<Rightarrow> 0 < room p \<and> (\<forall>c \<in> set cmds. command_ok (room p - 1) c)))"

lemma command_ok_block:
  "command_ok d (Command name tag args block) \<longleftrightarrow>
     ident name \<and> to_lower name = name \<and> (tag = [] \<or> ident tag) \<and>
     (\<forall>v \<in> set args. value_ok d v) \<and> no_stray_word name args \<and>
     (\<forall>cmds. block = Some cmds \<longrightarrow> 0 < d \<and> (\<forall>c \<in> set cmds. command_ok (d - 1) c))"
  by (cases d; cases block) auto

definition command_post :: "parser \<Rightarrow> command option \<Rightarrow> parser \<Rightarrow> bool" where
  "command_post p x p' =
     (p_depth p' = p_depth p \<and>
      (case x of
         None \<Rightarrow> p_rest p' = []
       | Some c \<Rightarrow> length (p_rest p') < length (p_rest p) \<and> command_ok (room p) c))"

lemma commands_post_append:
  "command_post p x p' \<Longrightarrow> \<forall>c \<in> set cmds. command_ok (room p) c \<Longrightarrow>
     \<forall>c \<in> set (cmds @ (case x of None \<Rightarrow> [] | Some c \<Rightarrow> [c])). command_ok (room p) c"
  by (auto simp: command_post_def split: option.splits)

lemma endCommand_spec:
  "command_ok (room p) cmd \<Longrightarrow> p_depth p' = p_depth p \<Longrightarrow>
     length (p_rest p') < length (p_rest p) \<Longrightarrow> psat (command_post p) (endCommand cmd p')"
  by (auto simp: endCommand_def command_post_def simp del: command_ok.simps)

lemma optionalTag_skipped:
  assumes "optionalTag (skipWhitespaceAndComments p) = Inr (tag, p')"
  shows "p_rest (skipWhitespaceAndComments p') = p_rest p'"
  using assms
  by (cases "p_rest (skipWhitespaceAndComments p)")
    (auto simp: optionalTag_def res_bind_eq_Inr skip_ws_idem split: if_splits)

lemma command_group_spec:
  "4 * length (p_rest p) + 1 \<le> n \<Longrightarrow> psat (command_post p) (parseCommand n p)"
  "p_rest p \<noteq> [] \<Longrightarrow> 4 * length (p_rest p) \<le> n \<Longrightarrow>
     psat (\<lambda>cmds p'. block_post p (Some cmds) p') (parseBlock n p)"
  "4 * length (p_rest p) + 2 \<le> n \<Longrightarrow> \<forall>c \<in> set cmds. command_ok (room p) c \<Longrightarrow>
     psat (\<lambda>cs p'. length (p_rest p') \<le> length (p_rest p) \<and> p_depth p' = p_depth p \<and>
       (\<forall>c \<in> set cs. command_ok (room p) c)) (blockLoop n p cmds)"
proof (induction n p and n p and n p cmds rule: parseCommand_parseBlock_blockLoop.induct)
  case (2 n p)
  define p1 where "p1 = skipWhitespaceAndComments p"
  have len: "length (p_rest p1) \<le> length (p_rest p)" and dep: "p_depth p1 = p_depth p"
    by (simp_all add: p1_def skip_ws_rest)
  show ?case
  proof (cases "p_rest p1")
    case Nil
    then show ?thesis by (auto simp: p1_def [symmetric] command_post_def dep)
  next
    case (Cons ch s)
    then have ne: "p_rest p1 \<noteq> []" and at: "peek p1 = Inr ch" by simp_all
    show ?thesis
      unfolding parseCommand.simps p1_def [symmetric] Let_def if_not_P [OF ne] at res_bind_simps
    proof (intro psat_if psat_Inl)
      assume al: "\<not> \<not> is_alpha ch"
      show "psat (command_post p)
       (res_bind (parseIdentifier p1) (\<lambda>(idt, p2).
          res_bind (optionalTag (skipWhitespaceAndComments p2)) (\<lambda>(tag, p3).
          res_bind (argsLoop n p3 (to_lower idt) []) (\<lambda>(args, p4).
          res_bind (if p_rest p4 \<noteq> [] \<and> hd (p_rest p4) = CHR ''{''
                    then map_presult Some (parseBlock n p4) else Inr (None, p4)) (\<lambda>(block, p5).
          endCommand (Command (to_lower idt) tag args block) p5)))))"
      proof (rule psat_bind [OF ident.spec], unfold prod.case,
          rule psat_bind [OF optionalTag_spec], unfold prod.case)
        fix idt p2 tag p3
        let ?p2 = "skipWhitespaceAndComments p2" and ?name = "to_lower idt"
        assume e2: "parseIdentifier p1 = Inr (idt, p2)" and c2: "consumed p1 p2 \<and> ident idt"
          and e3: "optionalTag ?p2 = Inr (tag, p3)"
          and c3: "length (p_rest p3) \<le> length (p_rest ?p2) \<and> p_depth p3 = p_depth ?p2 \<and>
            (tag = [] \<or> ident tag)"
        have l3: "length (p_rest p3) < length (p_rest p1)" "p_depth p3 = p_depth p"
          using c2 c3 dep skip_ws_rest [of p2] by (auto simp: consumed_def)
        have args: "psat (args_post p3 ?name) (argsLoop n p3 ?name [])"
          using "2.prems" len l3 optionalTag_skipped [OF e3]
          by (intro argsLoop_spec) (auto simp: no_stray_word_def)
        show "psat (command_post p)
         (res_bind (argsLoop n p3 ?name []) (\<lambda>(args, p4).
          res_bind (if p_rest p4 \<noteq> [] \<and> hd (p_rest p4) = CHR ''{''
                    then map_presult Some (parseBlock n p4) else Inr (None, p4)) (\<lambda>(block, p5).
          endCommand (Command ?name tag args block) p5)))"
        proof (rule psat_bind [OF args], unfold prod.case)
          fix args p4
          assume e4: "argsLoop n p3 ?name [] = Inr (args, p4)" and c4: "args_post p3 ?name args p4"
          have block: "psat (block_post p4) (if p_rest p4 \<noteq> [] \<and> hd (p_rest p4) = CHR ''{''
              then map_presult Some (parseBlock n p4) else Inr (None, p4))"
          proof (intro psat_if psat_map psat_Inr)
            assume b: "p_rest p4 \<noteq> [] \<and> hd (p_rest p4) = CHR ''{''"
            show "psat (\<lambda>x. block_post p4 (Some x)) (parseBlock n p4)"
              using "2.IH" [OF p1_def ne at al e2 refl refl e3 refl e4 refl b] "2.prems" b len l3 c4
              by (simp add: args_post_def)
          qed (simp add: block_post_def)
          show "psat (command_post p) (res_bind (if p_rest p4 \<noteq> [] \<and> hd (p_rest p4) = CHR ''{''
              then map_presult Some (parseBlock n p4) else Inr (None, p4))
              (\<lambda>(block, p5). endCommand (Command ?name tag args block) p5))"
            by (rule psat_bind [OF block], unfold prod.case, rule endCommand_spec)
              (use len l3 c2 c3 c4 ident_to_lower
                in \<open>auto simp: args_post_def block_post_def command_ok_block
                  simp del: command_ok.simps split: option.splits\<close>)
        qed
      qed
    qed simp
  qed
next
  case (4 n p)
  define q where "q = p\<lparr>p_depth := Suc (p_depth p), p_rest := tl (p_rest p)\<rparr>"
  have len: "Suc (length (p_rest q)) = length (p_rest p)" using "4.prems" by (simp add: q_def)
  show ?case unfolding parseBlock.simps q_def [symmetric]
  proof (intro psat_if)
    assume b: "\<not> (p_rest p = [] \<or> hd (p_rest p) \<noteq> CHR ''{'')" and d: "\<not> max_nesting \<le> p_depth p"
    have rm: "room p = Suc (room q)" using d by (simp add: q_def)
    have "psat (\<lambda>cs p'. length (p_rest p') \<le> length (p_rest q) \<and> p_depth p' = p_depth q \<and>
       (\<forall>c \<in> set cs. command_ok (room q) c)) (blockLoop n q [])"
      using "4.IH" [OF b d, folded q_def] "4.prems" len by simp
    then show "psat (\<lambda>cmds p'. block_post p (Some cmds) p')
       (res_bind (blockLoop n q []) (\<lambda>(cmds, p1).
          if p_rest p1 = [] then Inl UnclosedBlock
          else Inr (cmds, p1\<lparr>p_depth := p_depth p, p_rest := tl (p_rest p1)\<rparr>)))"
      using len rm by (elim psat_bind) (auto simp: block_post_def)
  qed auto
next
  case (6 n p cmds)
  define p1 where "p1 = skipWhitespaceAndComments p"
  have len: "length (p_rest p1) \<le> length (p_rest p)" and dep: "p_depth p1 = p_depth p"
    by (simp_all add: p1_def skip_ws_rest)
  show ?case
    unfolding blockLoop.simps p1_def [symmetric] Let_def
  proof (intro psat_if psat_Inr)
    assume a: "\<not> (p_rest p = [] \<or> hd (p_rest p) = CHR ''}'')"
      and b: "\<not> (p_rest p1 = [] \<or> hd (p_rest p1) = CHR ''}'')"
    have c: "psat (command_post p1) (parseCommand n p1)"
      using "6.IH"(1) [OF a p1_def b] "6.prems" len by simp
    show "psat (\<lambda>cs p'. length (p_rest p') \<le> length (p_rest p) \<and> p_depth p' = p_depth p \<and>
       (\<forall>c \<in> set cs. command_ok (room p) c))
       (res_bind (parseCommand n p1) (\<lambda>(cmd, p2).
          blockLoop n p2 (cmds @ (case cmd of None \<Rightarrow> [] | Some c \<Rightarrow> [c]))))"
    proof (rule psat_bind [OF c], unfold prod.case)
      fix x p2
      assume eq: "parseCommand n p1 = Inr (x, p2)" and post: "command_post p1 x p2"
      have l2: "length (p_rest p2) < length (p_rest p)" "p_depth p2 = p_depth p"
        using post len b dep by (auto simp: command_post_def split: option.splits)
      show "psat (\<lambda>cs p'. length (p_rest p') \<le> length (p_rest p) \<and> p_depth p' = p_depth p \<and>
         (\<forall>c \<in> set cs. command_ok (room p) c))
         (blockLoop n p2 (cmds @ (case x of None \<Rightarrow> [] | Some c \<Rightarrow> [c])))"
        by (rule psat_mono [OF "6.IH"(2) [OF a p1_def b eq refl]])
          (use commands_post_append [OF post, of cmds] "6.prems" l2 dep in auto)
    qed
  qed (use "6.prems" len dep in auto)
qed simp_all

lemma parseLoop_spec:
  "4 * length (p_rest p) + 2 \<le> n \<Longrightarrow> \<forall>c \<in> set cmds. command_ok (room p) c \<Longrightarrow>
     psat (\<lambda>cs p'. \<forall>c \<in> set cs. command_ok (room p) c) (parseLoop n p cmds)"
proof (induction n p cmds rule: parseLoop.induct)
  case (2 n p cmds)
  define p1 where "p1 = skipWhitespaceAndComments p"
  have len: "length (p_rest p1) \<le> length (p_rest p)" and dep: "p_depth p1 = p_depth p"
    by (simp_all add: p1_def skip_ws_rest)
  show ?case
    unfolding parseLoop.simps p1_def [symmetric] Let_def
  proof (intro psat_if psat_Inr)
    assume a: "p_rest p \<noteq> []" and b: "p_rest p1 \<noteq> []"
    have c: "psat (command_post p1) (parseCommand n p1)"
      using command_group_spec(1) [of p1 n] "2.prems"(1) len by simp
    show "psat (\<lambda>cs p'. \<forall>c \<in> set cs. command_ok (room p) c)
       (res_bind (parseCommand n p1) (\<lambda>(cmd, p2).
          parseLoop n p2 (cmds @ (case cmd of None \<Rightarrow> [] | Some c \<Rightarrow> [c]))))"
    proof (rule psat_bind [OF c], unfold prod.case)
      fix x p2
      assume eq: "parseCommand n p1 = Inr (x, p2)" and post: "command_post p1 x p2"
      have l2: "length (p_rest p2) < length (p_rest p)" "p_depth p2 = p_depth p"
        using post len b dep by (auto simp: command_post_def split: option.splits)
      show "psat (\<lambda>cs p'. \<forall>c \<in> set cs. command_ok (room p) c)
         (parseLoop n p2 (cmds @ (case x of None \<Rightarrow> [] | Some c \<Rightarrow> [c])))"
        by (rule psat_mono [OF "2.IH" [OF a p1_def b eq refl]])
          (use commands_post_append [OF post, of cmds] "2.prems" l2 dep in auto)
    qed
  qed (use "2.prems" in auto)
qed simp

lemma Parse_psat:
  "case Parse script of
     Inl e \<Rightarrow> \<not> crash e
   | Inr cmds \<Rightarrow> \<forall>c \<in> set cmds. command_ok max_nesting c"
proof -
  have "psat (\<lambda>cs p'. \<forall>c \<in> set cs. command_ok (room (new_parser script)) c)
      (parseLoop (parse_fuel script) (new_parser script) [])"
    by (rule parseLoop_spec) (simp_all add: new_parser_def parse_fuel_def)
  then show ?thesis
    by (auto simp: Parse_def new_parser_def psat_def res_bind_def split: sum.splits)
qed

section \<open>Quoted strings\<close>

text \<open>How a quoted string is written (RFC 5228, 2.4.2).\<close>

fun quote_string :: "string \<Rightarrow> string" where
  "quote_string [] = []"
| "quote_string (c # s) =
     (if c = DQUOTE \<or> c = BSLASH then [BSLASH, c] else [c]) @ quote_string s"

lemma quoted_body_quote: "quoted_body (quote_string v @ DQUOTE # r) = Some (v, r)"
  by (induction v) auto

section \<open>Properties of the parser\<close>

text \<open>
  C11. Parsing ends on every input: the loops of \<^verbatim>\<open>Parse\<close>, \<^verbatim>\<open>parseCommand\<close>,
  \<^verbatim>\<open>parseBlock\<close>, \<^verbatim>\<open>parseArgument\<close> and \<^verbatim>\<open>parseTestList\<close> need at most
  \<open>4 * length script + 2\<close> nested iterations, so the result is always a script
  or one of the parser's own errors.
\<close>

theorem Parse_terminates:
  "(\<exists>cmds. Parse script = Inr cmds) \<or> (\<exists>e. Parse script = Inl e \<and> e \<noteq> OutOfFuel)"
  using Parse_psat [of script] by (cases "Parse script") auto

text \<open>
  C12. Every script the parser accepts is well formed: blocks and test lists are
  nested at most \<^verbatim>\<open>MaxNesting\<close> deep, command names are lower-case
  identifiers, tags are identifiers, numbers fit in an \<^verbatim>\<open>int64\<close>, test lists
  and the tests in them are not empty, and only \<^verbatim>\<open>if\<close> and \<^verbatim>\<open>elsif\<close> have an
  identifier as argument.
\<close>

theorem Parse_well_formed:
  "Parse script = Inr cmds \<Longrightarrow> c \<in> set cmds \<Longrightarrow> command_ok max_nesting c"
  using Parse_psat [of script] by simp

theorem Parse_well_formed_witness:
  "Parse ''if not true { keep; }'' =
     Inr [Command ''if'' [] [StringValue ''not'' False False True, StringValue ''true'' False False True]
       (Some [Command ''keep'' [] [] None])] \<and>
   command_ok max_nesting
     (Command ''if'' [] [StringValue ''not'' False False True, StringValue ''true'' False False True]
       (Some [Command ''keep'' [] [] None]))"
proof -
  have p: "Parse ''if not true { keep; }'' =
     Inr [Command ''if'' [] [StringValue ''not'' False False True, StringValue ''true'' False False True]
       (Some [Command ''keep'' [] [] None])]"
    by code_simp
  then show ?thesis using Parse_well_formed [OF p] by simp
qed

text \<open>
  C13. Quoting is faithful: writing any byte string between double quotes, with
  a backslash before each double quote and backslash, is read back by
  \<^verbatim>\<open>parseString\<close> as that string, and the input after the closing quote is left.
\<close>

theorem parseString_quote:
  "parseString (p\<lparr>p_rest := DQUOTE # quote_string v @ DQUOTE # rest\<rparr>) =
     Inr (StringValue v False True False, p\<lparr>p_rest := rest\<rparr>)"
  by (simp add: parseString_def quoted_body_quote)

end
