(* ===== verification/Utf8_Facts.thy ===== *)
theory Utf8_Facts
  imports Prelude
begin

text \<open>
  The characters of a byte string: \<open>chars s\<close> cuts \<open>s\<close> where a Go loop over its
  runes does, a byte of an invalid sequence counting as a character of its own.
  The facts below let byte-level code (\<^verbatim>\<open>HasPrefix\<close>, \<^verbatim>\<open>Index\<close>,
  \<^verbatim>\<open>DecodeLastRuneInString\<close>) be read at the level of characters.
\<close>

section \<open>Characters\<close>

function chars :: "string \<Rightarrow> string list" where
  "chars s = (if s = [] then [] else take (rune_size s) s # chars (drop (rune_size s) s))"
  by pat_completeness auto
termination
proof (relation "measure length", goal_cases)
  case (2 s)
  then show ?case using decode_rune_size [of s] by auto
qed simp

declare chars.simps [simp del]

lemma chars_Nil [simp]: "chars [] = []"
  by (simp add: chars.simps)

lemma chars_eq_Nil [simp]: "chars s = [] \<longleftrightarrow> s = []"
  by (subst chars.simps) simp

lemma chars_nonempty:
  "s \<noteq> [] \<Longrightarrow> chars s = take (rune_size s) s # chars (drop (rune_size s) s)"
  by (subst chars.simps) simp

lemma concat_chars [simp]: "concat (chars s) = s"
  by (induction s rule: chars.induct) (subst chars.simps, simp)

text \<open>A complete character: an ASCII byte or a whole multi-byte sequence.\<close>

definition rune_ok :: "string \<Rightarrow> bool" where
  "rune_ok c = (c \<noteq> [] \<and> rune_size c = length c \<and> (byte (hd c) < 128 \<or> 1 < length c))"

lemma rune_size_Cons:
  "rune_size (c # t) =
     (let n = utf8_need (byte c); cs = take (n - 1) t in
      if byte c < 128 \<or> byte c < 194 \<or> 244 < byte c \<or> length cs < n - 1 \<or>
         \<not> (fst (utf8_accept (byte c)) \<le> byte (hd cs) \<and> byte (hd cs) \<le> snd (utf8_accept (byte c))) \<or>
         \<not> list_all utf8_cont (tl cs)
      then 1 else n)"
  by (simp add: rune_size_def decode_rune_def Let_def)

lemma rune_size_cong:
  "take (utf8_need (byte c) - 1) t = take (utf8_need (byte c) - 1) t' \<Longrightarrow>
     rune_size (c # t) = rune_size (c # t')"
  by (simp only: rune_size_Cons Let_def)

lemma utf8_need_range: "2 \<le> utf8_need b \<and> utf8_need b \<le> 4"
  by (simp add: utf8_need_def)

lemma utf8_accept_cont: "fst (utf8_accept b) \<le> byte d \<Longrightarrow> byte d \<le> snd (utf8_accept b) \<Longrightarrow> utf8_cont d"
  by (auto simp: utf8_accept_def utf8_cont_def split: if_splits)

text \<open>What a multi-byte sequence looks like.\<close>

lemma rune_size_multi:
  assumes "1 < rune_size (c # t)"
  shows "rune_size (c # t) = utf8_need (byte c)" "194 \<le> byte c"
    "list_all utf8_cont (take (rune_size (c # t) - 1) t)"
    "length (take (rune_size (c # t) - 1) t) = rune_size (c # t) - 1"
proof -
  let ?n = "utf8_need (byte c)"
  let ?cs = "take (?n - 1) t"
  have g: "194 \<le> byte c" "\<not> length ?cs < ?n - 1"
      "fst (utf8_accept (byte c)) \<le> byte (hd ?cs) \<and> byte (hd ?cs) \<le> snd (utf8_accept (byte c))"
      "list_all utf8_cont (tl ?cs)" and n: "rune_size (c # t) = ?n"
    using assms unfolding rune_size_Cons Let_def by (auto split: if_splits)
  show "rune_size (c # t) = ?n" "194 \<le> byte c" by (fact n, fact g(1))
  obtain d ds where cs: "?cs = d # ds"
    using g(2) utf8_need_range [of "byte c"] by (cases ?cs) auto
  show "list_all utf8_cont (take (rune_size (c # t) - 1) t)"
    using g(3,4) utf8_accept_cont [of "byte c" d] unfolding n cs by simp
  show "length (take (rune_size (c # t) - 1) t) = rune_size (c # t) - 1"
    using g(2) unfolding n by auto
qed

lemma rune_size_append:
  assumes "1 < rune_size s"
  shows "rune_size (s @ t) = rune_size s"
proof (cases s)
  case Nil
  then show ?thesis using assms by (simp add: rune_size_def decode_rune_def)
next
  case (Cons c u)
  let ?n = "utf8_need (byte c)"
  have "rune_size s = ?n" and "length (take (?n - 1) u) = ?n - 1"
    using rune_size_multi [of c u] assms Cons by auto
  then have "take (?n - 1) (u @ t) = take (?n - 1) u" by auto
  then show ?thesis unfolding Cons append_Cons by (rule rune_size_cong)
qed

lemma rune_size_ascii: "s \<noteq> [] \<Longrightarrow> byte (hd s) < 128 \<Longrightarrow> rune_size s = 1"
  by (cases s) (auto simp: rune_size_def)

lemma rune_size_take:
  assumes "rune_size s \<le> k" "s \<noteq> []"
  shows "rune_size (take k s) = rune_size s"
proof (cases "1 < rune_size (take k s)")
  case True
  then show ?thesis using rune_size_append [of "take k s" "drop k s"] by simp
next
  case False
  have k: "take k s \<noteq> []" using assms decode_rune_size [of s] by auto
  then have one: "rune_size (take k s) = 1" using False decode_rune_size [of "take k s"] by auto
  show ?thesis
  proof (rule ccontr)
    assume "rune_size (take k s) \<noteq> rune_size s"
    then have big: "1 < rune_size s" using one decode_rune_size [of s] assms by auto
    obtain c t where s: "s = c # t" using assms by (cases s) auto
    let ?n = "utf8_need (byte c)"
    have n: "rune_size s = ?n" using rune_size_multi(1) [of c t] big s by simp
    have "take (?n - 1) (take (k - 1) t) = take (?n - 1) t" using assms n by simp
    moreover have "take k s = c # take (k - 1) t" using s k by (cases k) auto
    ultimately have "rune_size (take k s) = rune_size s" using s by (metis rune_size_cong)
    then show False using big one by simp
  qed
qed

lemma rune_ok_append: "rune_ok l \<Longrightarrow> rune_size (l @ t) = length l"
  using rune_size_append [of l t] rune_size_ascii [of "l @ t"] rune_size_ascii [of l]
  by (auto simp: rune_ok_def)

lemma rune_ok_chars: "rune_ok l \<Longrightarrow> chars (l @ t) = l # chars t"
  using rune_ok_append [of l t] by (subst chars.simps) (auto simp: rune_ok_def)

lemma rune_ok_prefix:
  assumes "rune_ok l"
  shows "prefix l s \<longleftrightarrow> s \<noteq> [] \<and> hd (chars s) = l"
proof
  assume "prefix l s"
  then obtain t where "s = l @ t" by (auto simp: prefix_def)
  then show "s \<noteq> [] \<and> hd (chars s) = l"
    using assms rune_ok_chars [OF assms, of t] by (simp add: rune_ok_def)
next
  assume "s \<noteq> [] \<and> hd (chars s) = l"
  then show "prefix l s" using chars_nonempty [of s] by (auto simp: take_is_prefix)
qed

text \<open>The first byte of a complete character starts a character, the others do not.\<close>

lemma rune_ok_bytes:
  assumes "rune_ok l"
  shows "rune_start (hd l)" "list_all utf8_cont (tl l)" "length l \<le> 4"
proof -
  obtain c t where l: "l = c # t" using assms by (cases l) (auto simp: rune_ok_def)
  have size: "rune_size (c # t) = Suc (length t)" using assms l by (simp add: rune_ok_def)
  have "byte c < 128 \<or> 194 \<le> byte c"
    using assms rune_size_multi(2) [of c t] l by (auto simp: rune_ok_def)
  then show "rune_start (hd l)" using l by (auto simp: rune_start_def utf8_cont_def)
  show "list_all utf8_cont (tl l)"
  proof (cases t)
    case (Cons d u)
    then show ?thesis using rune_size_multi(3) [of c t] size l by simp
  qed (simp add: l)
  show "length l \<le> 4"
    using rune_size_multi(1) [of c t] size l utf8_need_range [of "byte c"]
    by (cases "t = []") auto
qed

lemma chars_char:
  assumes "c \<in> set (chars s)"
  shows "c \<noteq> [] \<and> (length c = 1 \<or> rune_ok c)"
  using assms
proof (induction s rule: chars.induct)
  case (1 s)
  show ?case
  proof (cases "s = []")
    case False
    let ?n = "rune_size s"
    have n: "1 \<le> ?n" "?n \<le> length s" using False decode_rune_size [of s] by auto
    have "c = take ?n s \<or> c \<in> set (chars (drop ?n s))"
      using "1.prems" False by (subst (asm) chars.simps) auto
    moreover have "rune_ok (take ?n s)" if "?n \<noteq> 1"
      using that n False rune_size_take [of s ?n] by (auto simp: rune_ok_def)
    ultimately show ?thesis using "1.IH" False n by (cases "?n = 1") auto
  qed (use "1.prems" in simp)
qed

lemma length_concat_ge: "\<forall>x \<in> set xs. x \<noteq> [] \<Longrightarrow> length xs \<le> length (concat xs)"
proof (induction xs)
  case (Cons x xs)
  then show ?case by (cases x) auto
qed simp

lemma length_chars_le: "length (chars s) \<le> length s"
  using length_concat_ge [of "chars s"] chars_char by simp

section \<open>Boundaries\<close>

text \<open>The byte offset of the \<open>j\<close>-th character.\<close>

definition char_off :: "string \<Rightarrow> nat \<Rightarrow> nat" where
  "char_off s j = length (concat (take j (chars s)))"

lemma take_char_off: "take (char_off s j) s = concat (take j (chars s))"
proof -
  have "concat (take j (chars s)) @ concat (drop j (chars s)) = s"
    by (metis append_take_drop_id concat_append concat_chars)
  then show ?thesis unfolding char_off_def by (metis append_eq_conv_conj)
qed

lemma drop_char_off: "drop (char_off s j) s = concat (drop j (chars s))"
  by (metis append_take_drop_id concat_append concat_chars same_append_eq take_char_off)

lemma char_off_le: "char_off s j \<le> length s"
  by (metis char_off_def concat_chars append_take_drop_id concat_append le_add1 length_append)

lemma chars_drop_off: "chars (drop (char_off s j) s) = drop j (chars s)"
proof (induction s arbitrary: j rule: chars.induct)
  case (1 s)
  show ?case
  proof (cases "s = [] \<or> j = 0")
    case False
    then obtain i where j: "j = Suc i" by (cases j) auto
    let ?t = "drop (rune_size s) s"
    have c: "chars s = take (rune_size s) s # chars ?t" using False chars_nonempty by blast
    have "char_off s j = rune_size s + char_off ?t i"
      using j c False decode_rune_size [of s] by (simp add: char_off_def)
    then show ?thesis using 1 False j c by (simp add: add.commute)
  qed (auto simp: char_off_def)
qed

lemma chars_take_off: "chars (take (char_off s j) s) = take j (chars s)"
proof (induction s arbitrary: j rule: chars.induct)
  case (1 s)
  show ?case
  proof (cases "s = [] \<or> j = 0")
    case False
    then obtain i where j: "j = Suc i" by (cases j) auto
    let ?n = "rune_size s"
    let ?t = "drop ?n s"
    have n: "1 \<le> ?n" "?n \<le> length s" using False decode_rune_size [of s] by auto
    have c: "chars s = take ?n s # chars ?t" using False chars_nonempty by blast
    have off: "char_off s j = ?n + char_off ?t i" using j c n by (simp add: char_off_def)
    let ?k = "char_off s j"
    have "rune_size (take ?k s) = ?n" using off False by (intro rune_size_take) auto
    then have "chars (take ?k s) = take ?n (take ?k s) # chars (drop ?n (take ?k s))"
      using False off n by (subst chars_nonempty) auto
    moreover have "drop ?n (take ?k s) = take (char_off ?t i) ?t"
      using off by (simp add: take_drop add.commute)
    ultimately show ?thesis using 1 False j c off by (simp add: min_def)
  qed (auto simp: char_off_def)
qed

text \<open>A character that starts anywhere in the string starts at a boundary.\<close>

lemma start_at_boundary:
  assumes "s = u @ l" "l \<noteq> []" "rune_start (hd l)"
  shows "\<exists>j. u = concat (take j (chars s)) \<and> chars s = take j (chars s) @ chars l"
  using assms
proof (induction s arbitrary: u rule: chars.induct)
  case (1 s)
  show ?case
  proof (cases "u = []")
    case True
    then show ?thesis using "1.prems" by (intro exI [of _ 0]) simp
  next
    case False
    let ?n = "rune_size s"
    have s: "s \<noteq> []" using "1.prems" by auto
    have n: "1 \<le> ?n" "?n \<le> length s" using s decode_rune_size [of s] by auto
    have c: "chars s = take ?n s # chars (drop ?n s)" using s by (rule chars_nonempty)
    have "?n \<le> length u"
    proof (rule ccontr)
      assume a: "\<not> ?n \<le> length u"
      have u0: "0 < length u" using False by simp
      have lt: "length u - 1 < ?n - 1" using a u0 by linarith
      have "length (take ?n s) = ?n" using n by simp
      then have "length (take ?n s) \<noteq> 1" using a u0 by linarith
      moreover have "take ?n s \<in> set (chars s)" unfolding c by simp
      ultimately have ok: "rune_ok (take ?n s)" using chars_char by blast
      have "take ?n s ! length u = hd l" using a "1.prems" by (simp add: nth_append hd_conv_nth)
      moreover have "take ?n s ! length u = tl (take ?n s) ! (length u - 1)"
        using n u0 lt by (subst nth_tl) auto
      moreover have "tl (take ?n s) ! (length u - 1) \<in> set (tl (take ?n s))"
        using n lt by (intro nth_mem) simp
      ultimately have "utf8_cont (hd l)"
        using rune_ok_bytes(2) [OF ok] by (auto simp: list_all_iff)
      then show False using "1.prems" by (simp add: rune_start_def)
    qed
    then have d: "drop ?n s = drop ?n u @ l" and t: "take ?n s = take ?n u"
      using "1.prems" by simp_all
    obtain j where j: "drop ?n u = concat (take j (chars (drop ?n s)))"
        "chars (drop ?n s) = take j (chars (drop ?n s)) @ chars l"
      using "1.IH" [OF s d "1.prems"(2,3)] by auto
    have u: "u = take ?n s @ concat (take j (chars (drop ?n s)))"
      using j(1) t append_take_drop_id [of ?n u] by simp
    show ?thesis
      by (rule exI [of _ "Suc j"]) (use c u j(2) in simp)
  qed
qed

section \<open>Complete characters in a string\<close>

lemma chars_concat: "list_all rune_ok ls \<Longrightarrow> chars (concat ls @ t) = ls @ chars t"
  by (induction ls) (auto simp: rune_ok_chars)

lemma prefix_concat:
  assumes "list_all rune_ok ls"
  shows "prefix (concat ls) s \<longleftrightarrow> prefix ls (chars s)"
proof
  assume "prefix (concat ls) s"
  then show "prefix ls (chars s)"
    using chars_concat [OF assms] by (auto simp: prefix_def)
next
  assume "prefix ls (chars s)"
  then obtain cs where "chars s = ls @ cs" by (auto simp: prefix_def)
  then have "s = concat ls @ concat cs" by (metis concat_append concat_chars)
  then show "prefix (concat ls) s" by simp
qed

lemma char_off_mono: "i \<le> j \<Longrightarrow> char_off s i \<le> char_off s j"
  by (metis char_off_def le_iff_add length_append concat_append take_add le_add1)

lemma char_off_less:
  assumes "i < j" "j \<le> length (chars s)"
  shows "char_off s i < char_off s j"
proof -
  have i: "i < length (chars s)" using assms by simp
  have "take (Suc i) (chars s) = take i (chars s) @ [chars s ! i]" using i by (rule take_Suc_conv_app_nth)
  moreover have "chars s ! i \<noteq> []" using chars_char nth_mem [OF i] by blast
  ultimately have "char_off s i < char_off s (Suc i)" by (simp add: char_off_def)
  also have "\<dots> \<le> char_off s j" using assms by (intro char_off_mono) simp
  finally show ?thesis .
qed

lemma char_off_0 [simp]: "char_off s 0 = 0"
  by (simp add: char_off_def)

lemma char_off_length [simp]: "char_off s (length (chars s)) = length s"
  by (simp add: char_off_def)

lemma char_off_le_iff:
  assumes "i \<le> length (chars s)" "j \<le> length (chars s)"
  shows "char_off s i \<le> char_off s j \<longleftrightarrow> i \<le> j"
  using assms char_off_less [of j i s] char_off_mono [of i j s] by (meson not_le)

lemma char_off_less_iff:
  assumes "i \<le> length (chars s)" "j \<le> length (chars s)"
  shows "char_off s i < char_off s j \<longleftrightarrow> i < j"
  using assms char_off_le_iff [of j s i] by (simp add: not_le [symmetric])

lemma char_off_eq_iff:
  assumes "i \<le> length (chars s)" "j \<le> length (chars s)"
  shows "char_off s i = char_off s j \<longleftrightarrow> i = j"
  using assms char_off_le_iff by (metis order_antisym order_refl)

lemma char_off_Suc:
  assumes "j < length (chars s)"
  shows "char_off s (Suc j) = char_off s j + length (chars s ! j)"
  using assms by (simp add: char_off_def take_Suc_conv_app_nth)

text \<open>The first occurrence of a string of complete characters, in bytes and in characters.\<close>

lemma str_index_chars:
  assumes "list_all rune_ok ls" "ls \<noteq> []"
  shows "str_index s (concat ls) = Some i \<longleftrightarrow>
    (\<exists>j. i = char_off s j \<and> j \<le> length (chars s) \<and> prefix ls (drop j (chars s)) \<and>
       (\<forall>k<j. \<not> prefix ls (drop k (chars s))))" (is "_ \<longleftrightarrow> ?R i")
proof -
  have at: "prefix (concat ls) (drop (char_off s j) s) \<longleftrightarrow> prefix ls (drop j (chars s))" for j
    using prefix_concat [OF assms(1)] chars_drop_off by simp
  have ls0: "concat ls \<noteq> []" "rune_start (hd (concat ls))"
    using assms rune_ok_bytes(1) by (cases ls; auto simp: rune_ok_def)+
  have bd: "\<exists>j \<le> length (chars s). n = char_off s j" if p: "prefix (concat ls) (drop n s)" for n
  proof -
    obtain zs where "drop n s = concat ls @ zs" using p by (auto simp: prefix_def)
    then have "drop n s \<noteq> []" "rune_start (hd (drop n s))"
      using ls0 by (simp_all only: hd_append2 append_is_Nil_conv simp_thms)
    then obtain j where "take n s = concat (take j (chars s))"
      using start_at_boundary [of s "take n s" "drop n s"] by auto
    moreover have "n \<le> length s" using \<open>drop n s \<noteq> []\<close> by (cases "n \<le> length s") auto
    ultimately have "n = char_off s j" by (metis char_off_def length_take min.absorb2)
    then have "n = char_off s (min j (length (chars s)))" by (simp add: char_off_def min_def)
    then show ?thesis using min.cobounded2 by blast
  qed
  show ?thesis
  proof
    assume i: "str_index s (concat ls) = Some i"
    then obtain j where j: "j \<le> length (chars s)" "i = char_off s j"
      using bd [OF str_index_Some] by blast
    have "\<not> prefix ls (drop k (chars s))" if "k < j" for k
      using str_index_least [OF i, of "char_off s k"] char_off_less [OF that j(1)] j(2) at by simp
    then show "?R i" using str_index_Some [OF i] j at by auto
  next
    assume "?R i"
    then obtain j where j: "i = char_off s j" "j \<le> length (chars s)" "prefix ls (drop j (chars s))"
      "\<forall>k<j. \<not> prefix ls (drop k (chars s))" by blast
    then obtain i' where i': "str_index s (concat ls) = Some i'"
      using str_index_None [of s "concat ls" i] at by (cases "str_index s (concat ls)") auto
    obtain j' where j': "j' \<le> length (chars s)" "i' = char_off s j'"
      using bd [OF str_index_Some [OF i']] by blast
    have "prefix ls (drop j' (chars s))" using str_index_Some [OF i'] j' at by simp
    then have "\<not> j' < j" using j(4) by blast
    moreover have "\<not> j < j'"
      using str_index_least [OF i', of i] j j' at char_off_less [of j j' s] by auto
    ultimately show "str_index s (concat ls) = Some i" using i' j(1) j'(2) by simp
  qed
qed

lemma str_index_chars_None:
  assumes "list_all rune_ok ls" "ls \<noteq> []"
  shows "str_index s (concat ls) = None \<longleftrightarrow> (\<forall>k. \<not> prefix ls (drop k (chars s)))"
proof
  assume "str_index s (concat ls) = None"
  then show "\<forall>k. \<not> prefix ls (drop k (chars s))"
    using str_index_None [of s "concat ls"] prefix_concat [OF assms(1)] chars_drop_off by metis
next
  assume "\<forall>k. \<not> prefix ls (drop k (chars s))"
  then show "str_index s (concat ls) = None"
    using str_index_chars [OF assms, of s] by (cases "str_index s (concat ls)") auto
qed

section \<open>The last character\<close>

lemma last_start_found:
  "list_all utf8_cont cs \<Longrightarrow> rune_start c \<Longrightarrow> length cs < n \<Longrightarrow>
     last_start n (cs @ c # r) = Suc (length cs)"
proof (induction cs arbitrary: n)
  case Nil
  then show ?case by (cases n) auto
next
  case (Cons d cs)
  then show ?case by (cases n) (auto simp: rune_start_def)
qed

lemma last_rune_multi:
  assumes "rune_ok c" "1 < length c"
  shows "last_rune_size (u @ c) = length c"
proof -
  obtain a t d where c: "c = a # t @ [d]"
    using assms(2) by (cases c; cases "tl c" rule: rev_cases) auto
  have ok: "rune_start a" "list_all utf8_cont (t @ [d])" "length c \<le> 4"
    using rune_ok_bytes [OF assms(1)] c by simp_all
  have "tl (rev (u @ c)) = rev t @ a # rev u" using c by simp
  then have "last_start 3 (tl (rev (u @ c))) = Suc (length t)"
    using last_start_found [of "rev t" a 3 "rev u"] ok c by simp
  moreover have "\<not> byte d < 128" using ok(2) by (simp add: utf8_cont_def)
  moreover have "rune_size c = length c" using assms(1) by (simp add: rune_ok_def)
  ultimately show ?thesis
    unfolding last_rune_size_def using c by (simp add: Let_def min_def)
qed

lemma last_rune_single:
  assumes "s \<noteq> []" "length (last (chars s)) = 1"
  shows "last_rune_size s = 1"
proof (rule ccontr)
  assume a: "last_rune_size s \<noteq> 1"
  define k where "k = min (length s - 1) (last_start 3 (tl (rev s)))"
  define st where "st = length s - 1 - k"
  have st: "st < length s" using assms(1) by (cases s) (auto simp: st_def)
  then have pos: "1 \<le> rune_size (drop st s)" using decode_rune_size [of "drop st s"] by simp
  have "\<not> byte (last s) < 128" "st + rune_size (drop st s) = length s"
      and r: "last_rune_size s = rune_size (drop st s)"
    using a assms(1) unfolding last_rune_size_def Let_def k_def [symmetric] st_def [symmetric]
    by (auto split: if_splits)
  moreover have "rune_size (drop st s) \<noteq> 1" using r a by simp
  ultimately have len: "rune_size (drop st s) = length (drop st s)" "1 < length (drop st s)"
    using pos by auto
  then have ok: "rune_ok (drop st s)" using st by (simp add: rune_ok_def)
  then obtain j where "chars s = take j (chars s) @ chars (drop st s)"
    using start_at_boundary [of s "take st s" "drop st s"] rune_ok_bytes(1) [OF ok] st by auto
  moreover have "chars (drop st s) = [drop st s]" using rune_ok_chars [OF ok, of "[]"] by simp
  ultimately have "last (chars s) = drop st s" by (metis last_snoc)
  then show False using assms(2) len by simp
qed

lemma last_rune_size_chars:
  assumes "s \<noteq> []"
  shows "last_rune_size s = length (last (chars s))"
proof -
  have l: "last (chars s) \<in> set (chars s)" using assms by simp
  have "s = concat (butlast (chars s)) @ last (chars s)"
    by (metis append_butlast_last_id assms chars_eq_Nil concat_append concat_chars concat.simps(1,2)
        append_Nil2)
  then show ?thesis
    using chars_char [OF l] last_rune_multi last_rune_single [OF assms] by (metis One_nat_def
        length_0_conv less_one linorder_neqE_nat)
qed

lemma last_rune_off:
  assumes "0 < j" "j \<le> length (chars s)"
  shows "char_off s j - last_rune_size (take (char_off s j) s) = char_off s (j - 1)"
proof -
  obtain i where j: "j = Suc i" using assms by (cases j) auto
  have c: "chars (take (char_off s j) s) = take j (chars s)" by (rule chars_take_off)
  moreover have "take j (chars s) \<noteq> []" using assms by auto
  ultimately have "take (char_off s j) s \<noteq> []" by (metis chars_eq_Nil)
  then have "last_rune_size (take (char_off s j) s) = length (chars s ! i)"
    using last_rune_size_chars c j assms by (simp add: take_Suc_conv_app_nth)
  then show ?thesis using j assms char_off_Suc [of i s] by simp
qed

section \<open>Valid UTF-8\<close>

lemma valid_utf8_chars: "valid_utf8 s \<longleftrightarrow> list_all rune_ok (chars s)"
proof (induction s rule: chars.induct)
  case (1 s)
  show ?case
  proof (cases "s = []")
    case False
    let ?n = "rune_size s"
    have n: "1 \<le> ?n" "?n \<le> length s" using False decode_rune_size [of s] by auto
    have "rune_ok (take ?n s) \<longleftrightarrow> byte (hd s) < 128 \<or> 1 < ?n"
      using n False rune_size_take [of s ?n] by (auto simp: rune_ok_def)
    then show ?thesis
      using False 1 by (subst valid_utf8.simps, subst chars.simps) auto
  qed (simp add: valid_utf8.simps)
qed

end
