(* ===== verification/Sieve_Glob.thy ===== *)
theory Sieve_Glob
  imports Utf8_Facts "HOL-Library.Extended_Nat"
begin

text \<open>
  Comparing header values with keys: the numeric comparator and the relational
  operators (\<^verbatim>\<open>src/internal/sieve/match.go\<close>) and the \<^verbatim>\<open>:matches\<close> glob matcher
  (\<^verbatim>\<open>src/internal/sieve/interpreter.go\<close>), with a reference semantics for each.
\<close>

section \<open>Comparators\<close>

definition asciiLower :: "string \<Rightarrow> string" where
  "asciiLower s =
     map (\<lambda>c. if 65 \<le> byte c \<and> byte c \<le> 90 then char_of (byte c + (97 - 65)) else c) s"

definition leadingDigits :: "string \<Rightarrow> string" where
  "leadingDigits s = takeWhile is_digit s"

definition numericCompare :: "string \<Rightarrow> string \<Rightarrow> int" where
  "numericCompare a b =
     (let da = leadingDigits a; db = leadingDigits b in
      if da = [] \<and> db = [] then 0
      else if da = [] then 1
      else if db = [] then -1
      else
        (let da = trim_left da {CHR ''0''}; db = trim_left db {CHR ''0''} in
         if length da \<noteq> length db then (if length da < length db then -1 else 1)
         else str_compare da db))"

definition relationHolds :: "string \<Rightarrow> int \<Rightarrow> bool" where
  "relationHolds rel c =
     (if rel = ''gt'' then c > 0
      else if rel = ''ge'' then c \<ge> 0
      else if rel = ''lt'' then c < 0
      else if rel = ''le'' then c \<le> 0
      else if rel = ''eq'' then c = 0
      else if rel = ''ne'' then c \<noteq> 0
      else False)"

section \<open>The glob matcher\<close>

definition maxGlobSteps :: nat where "maxGlobSteps = 64 * 2 ^ 20"

datatype globTok = Star | AnyChar | Lit string

function globTokens :: "string \<Rightarrow> globTok list" where
  "globTokens [] = []"
| "globTokens (c # s) =
     (if c = CHR ''*'' then Star # globTokens s
      else if c = CHR ''?'' then AnyChar # globTokens s
      else if c = BSLASH then
        (if s \<noteq> []
         then Lit (take (rune_size s) s) # globTokens (drop (rune_size s) s)
         else [Lit [BSLASH]])
      else Lit (take (rune_size (c # s)) (c # s)) # globTokens (drop (rune_size (c # s)) (c # s)))"
  by pat_completeness auto
termination
proof (relation "measure length", goal_cases)
  case (4 c s)
  then show ?case using decode_rune_size [of s] by auto
next
  case (5 c s)
  then show ?case using decode_rune_size [of "c # s"] by auto
qed simp_all

text \<open>The literal of a token; a wildcard has none.\<close>

fun tok_lit :: "globTok \<Rightarrow> string" where
  "tok_lit (Lit l) = l"
| "tok_lit _ = []"

text \<open>\<^verbatim>\<open>globSegment.matchAt\<close>: the end offset or none, and the new step count.\<close>

fun matchAt :: "globTok list \<Rightarrow> string \<Rightarrow> nat \<Rightarrow> nat \<Rightarrow> nat option \<times> nat" where
  "matchAt [] v pos steps = (Some pos, steps)"
| "matchAt (t # g) v pos steps =
     (if pos \<ge> length v then (None, Suc steps)
      else if t = AnyChar then matchAt g v (pos + rune_size (drop pos v)) (Suc steps)
      else if \<not> has_prefix (drop pos v) (tok_lit t) then (None, Suc steps)
      else matchAt g v (pos + length (tok_lit t)) (Suc steps))"

text \<open>\<^verbatim>\<open>globSegment.literal\<close>.\<close>

fun seg_literal :: "globTok list \<Rightarrow> string option" where
  "seg_literal [] = Some []"
| "seg_literal (t # g) =
     (if t = AnyChar then None else map_option (\<lambda>b. tok_lit t @ b) (seg_literal g))"

text \<open>The loop that cuts the tokens at each \<^verbatim>\<open>*\<close>.\<close>

fun globSegments :: "globTok list \<Rightarrow> globTok list list \<Rightarrow> globTok list \<Rightarrow> globTok list list" where
  "globSegments [] segs cur = segs @ [cur]"
| "globSegments (t # ts) segs cur =
     (if t = Star then globSegments ts (segs @ [cur]) []
      else globSegments ts segs (cur @ [t]))"

text \<open>The loop that walks back one character per token of the last segment.\<close>

fun walkBack :: "nat \<Rightarrow> string \<Rightarrow> nat \<Rightarrow> nat option" where
  "walkBack 0 v sStart = Some sStart"
| "walkBack (Suc n) v sStart =
     (if sStart = 0 then None
      else walkBack n v (sStart - last_rune_size (take sStart v)))"

datatype glob_error = GlobStepLimit

text \<open>
  The scan for a segment with a \<^verbatim>\<open>?\<close>. The offset \<open>sStart\<close> is one of the value, so
  \<open>s < sStart\<close> implies the second bound, which only makes the recursion end
  on other arguments as well.
\<close>

function scanSegment ::
  "globTok list \<Rightarrow> string \<Rightarrow> nat \<Rightarrow> nat \<Rightarrow> nat \<Rightarrow> glob_error + (nat option \<times> nat)" where
  "scanSegment seg v s sStart steps =
     (if s < sStart \<and> s < length v then
        (if steps > maxGlobSteps then Inl GlobStepLimit
         else
           (let (e, steps') = matchAt seg v s steps in
            if e \<noteq> None \<and> the e \<le> sStart then Inr (e, steps')
            else scanSegment seg v (s + rune_size (drop s v)) sStart steps'))
      else Inr (None, steps))"
  by pat_completeness auto
termination
proof (relation "measure (\<lambda>(_, v, s, _, _). length v - s)", goal_cases)
  case (2 seg v s sStart steps)
  then show ?case using decode_rune_size [of "drop s v"] by auto
qed simp

declare scanSegment.simps [simp del]

fun middleLoop ::
  "globTok list list \<Rightarrow> string \<Rightarrow> nat \<Rightarrow> nat \<Rightarrow> nat \<Rightarrow> glob_error + bool" where
  "middleLoop [] v pos sStart steps = Inr True"
| "middleLoop (seg # segs) v pos sStart steps =
     (if seg = [] then middleLoop segs v pos sStart steps
      else
        (case seg_literal seg of
           Some lit \<Rightarrow>
             (case str_index (take (sStart - pos) (drop pos v)) lit of
                None \<Rightarrow> Inr False
              | Some idx \<Rightarrow>
                  middleLoop segs v (pos + idx + length lit) sStart (steps + (idx + length lit)))
         | None \<Rightarrow>
             (case scanSegment seg v pos sStart steps of
                Inl e \<Rightarrow> Inl e
              | Inr (None, steps') \<Rightarrow> Inr False
              | Inr (Some found, steps') \<Rightarrow> middleLoop segs v found sStart steps')))"

definition globMatchBudget :: "string \<Rightarrow> string \<Rightarrow> glob_error + bool" where
  "globMatchBudget glob v =
     (let segs = globSegments (globTokens glob) [] [] in
      if length segs = 1
      then Inr (fst (matchAt (hd segs) v 0 0) = Some (length v))
      else
        (case matchAt (hd segs) v 0 0 of
           (None, _) \<Rightarrow> Inr False
         | (Some pos, steps) \<Rightarrow>
             (case walkBack (length (last segs)) v (length v) of
                None \<Rightarrow> Inr False
              | Some sStart \<Rightarrow>
                  (let (e, steps') = matchAt (last segs) v sStart steps in
                   if sStart < pos \<or> e \<noteq> Some (length v) then Inr False
                   else middleLoop (butlast (tl segs)) v pos sStart steps'))))"

definition globMatch :: "string \<Rightarrow> string \<Rightarrow> glob_error + bool" where
  "globMatch glob v = globMatchBudget glob v"

section \<open>Reference semantics\<close>

text \<open>RFC 5228, 2.7.1, on the characters of a string.\<close>

fun glob_ref :: "globTok list \<Rightarrow> string list \<Rightarrow> bool" where
  "glob_ref [] cs = (cs = [])"
| "glob_ref (Star # ts) [] = glob_ref ts []"
| "glob_ref (Star # ts) (c # cs) = (glob_ref ts (c # cs) \<or> glob_ref (Star # ts) cs)"
| "glob_ref (AnyChar # ts) [] = False"
| "glob_ref (AnyChar # ts) (c # cs) = glob_ref ts cs"
| "glob_ref (Lit l # ts) [] = False"
| "glob_ref (Lit l # ts) (c # cs) = (l = c \<and> glob_ref ts cs)"

text \<open>The value a string has under \<^verbatim>\<open>i;ascii-numeric\<close>.\<close>

definition numeric_value :: "string \<Rightarrow> enat" where
  "numeric_value s =
     (if leadingDigits s = [] then \<infinity> else enat (digits_val (leadingDigits s)))"

end
