(* ===== verification/Sieve_Glob_Facts.thy ===== *)
theory Sieve_Glob_Facts
  imports Sieve_Glob
begin

text \<open>
  Correctness of the comparators: \<^verbatim>\<open>i;ascii-numeric\<close> is the order of the natural
  numbers with a top element, and the glob matcher, which scans for segments
  from the left within a step budget, decides the declarative semantics
  \<open>glob_ref\<close>.
\<close>

section \<open>Numbers as digit strings\<close>

lemma digits_val_foldl:
  "foldl (\<lambda>n c. 10 * n + (byte c - 48)) k s = k * 10 ^ length s + digits_val s"
proof (induction s arbitrary: k)
  case (Cons c s)
  have "digits_val (c # s) = (byte c - 48) * 10 ^ length s + digits_val s"
    using Cons.IH [of "byte c - 48"] by (simp add: digits_val_def)
  then show ?case using Cons.IH [of "10 * k + (byte c - 48)"] by (simp add: algebra_simps)
qed (simp add: digits_val_def)

lemma digits_val_Nil [simp]: "digits_val [] = 0"
  by (simp add: digits_val_def)

lemma digits_val_Cons: "digits_val (c # s) = (byte c - 48) * 10 ^ length s + digits_val s"
  using digits_val_foldl [of "byte c - 48" s] by (simp add: digits_val_def)

lemma digits_val_less: "list_all is_digit s \<Longrightarrow> digits_val s < 10 ^ length s"
proof (induction s)
  case (Cons c s)
  have "(byte c - 48) * 10 ^ length s \<le> 9 * 10 ^ length s"
    using Cons.prems by (intro mult_le_mono1) (auto simp: is_digit_def)
  moreover have "digits_val s < 10 ^ length s" using Cons by simp
  ultimately have "(byte c - 48) * 10 ^ length s + digits_val s < 10 * 10 ^ length s" by linarith
  then show ?case by (simp add: digits_val_Cons)
qed simp

lemma digits_val_trim: "digits_val (trim_left s {CHR ''0''}) = digits_val s"
  by (induction s) (auto simp: trim_left_def digits_val_Cons)

lemma digits_val_ge:
  assumes "list_all is_digit s" "s \<noteq> []" "hd s \<noteq> CHR ''0''"
  shows "10 ^ (length s - 1) \<le> digits_val s"
proof -
  obtain c t where s: "s = c # t" using assms by (cases s) auto
  have "byte c \<noteq> byte CHR ''0''" using assms s by (metis list.sel(1) of_char_eq_iff)
  then have "1 \<le> byte c - 48" using assms s by (auto simp: is_digit_def)
  then have "1 * 10 ^ length t \<le> (byte c - 48) * 10 ^ length t" by (rule mult_le_mono1)
  then have "10 ^ length t \<le> (byte c - 48) * 10 ^ length t + digits_val t" by linarith
  then show ?thesis using s by (simp add: digits_val_Cons)
qed

lemma str_compare_digits:
  assumes "length s = length t" "list_all is_digit s" "list_all is_digit t"
  shows "str_compare s t =
    (if digits_val s < digits_val t then -1 else if digits_val t < digits_val s then 1 else 0)"
  using assms
proof (induction s t rule: list_induct2)
  case (Cons a s b t)
  have bound: "digits_val s < 10 ^ length s" "digits_val t < 10 ^ length s"
    using Cons.prems Cons.hyps digits_val_less [of s] digits_val_less [of t] by auto
  have lt: "(byte c - 48) * 10 ^ length s + m < (byte d - 48) * 10 ^ length s + n"
    if "byte c < byte d" "48 \<le> byte c" "m < 10 ^ length s" for c d m n
  proof -
    have "(Suc (byte c - 48)) * 10 ^ length s \<le> (byte d - 48) * 10 ^ length s"
      using that by (intro mult_le_mono1) auto
    then show ?thesis using that(3) by simp
  qed
  consider "byte a < byte b" | "byte b < byte a" | "a = b"
    using of_char_eq_iff linorder_less_linear by metis
  then show ?case
  proof cases
    case 1
    then have "digits_val (a # s) < digits_val (b # t)"
      using lt [of a b "digits_val s" "digits_val t"] bound Cons.prems Cons.hyps
      by (simp add: digits_val_Cons is_digit_def)
    then show ?thesis using 1 by simp
  next
    case 2
    then have "digits_val (b # t) < digits_val (a # s)"
      using lt [of b a "digits_val t" "digits_val s"] bound Cons.prems Cons.hyps
      by (simp add: digits_val_Cons is_digit_def)
    then show ?thesis using 2 by simp
  qed (use Cons in \<open>simp add: digits_val_Cons\<close>)
qed simp

lemma trimmed_compare:
  assumes "list_all is_digit s" "list_all is_digit t"
    and "s = [] \<or> hd s \<noteq> CHR ''0''" "t = [] \<or> hd t \<noteq> CHR ''0''"
    and "length s < length t"
  shows "digits_val s < digits_val t"
proof -
  have "digits_val s < 10 ^ length s" using assms by (intro digits_val_less)
  also have "\<dots> \<le> 10 ^ (length t - 1)" using assms(5) by (intro power_increasing) auto
  also have "\<dots> \<le> digits_val t" using assms by (intro digits_val_ge) auto
  finally show ?thesis .
qed

lemma trim_left_zero_hd:
  "trim_left s {CHR ''0''} = [] \<or> hd (trim_left s {CHR ''0''}) \<noteq> CHR ''0''"
  using hd_dropWhile [of "\<lambda>c. c \<in> {CHR ''0''}" s] unfolding trim_left_def by auto

lemma list_all_trim_left: "list_all P s \<Longrightarrow> list_all P (trim_left s cs)"
  by (simp add: trim_left_def list_all_iff) (meson set_dropWhileD)

lemma list_all_leadingDigits: "list_all is_digit (leadingDigits s)"
  by (simp add: leadingDigits_def list_all_iff) (meson set_takeWhileD)

lemma numericCompare_order:
  "numericCompare a b =
     (if numeric_value a < numeric_value b then -1
      else if numeric_value b < numeric_value a then 1 else 0)"
proof -
  let ?a = "trim_left (leadingDigits a) {CHR ''0''}"
  let ?b = "trim_left (leadingDigits b) {CHR ''0''}"
  have d: "list_all is_digit ?a" "list_all is_digit ?b"
    by (intro list_all_trim_left list_all_leadingDigits)+
  note lt = trimmed_compare [OF d trim_left_zero_hd trim_left_zero_hd]
    trimmed_compare [OF d(2,1) trim_left_zero_hd trim_left_zero_hd]
  show ?thesis
  proof (cases "length ?a = length ?b")
    case True
    then show ?thesis
      using str_compare_digits [OF True d]
      by (simp add: numericCompare_def numeric_value_def Let_def digits_val_trim)
  next
    case False
    then show ?thesis
      using lt unfolding digits_val_trim
      by (auto simp: numericCompare_def numeric_value_def Let_def)
  qed
qed

section \<open>Matching a segment\<close>

fun tok_match :: "globTok \<Rightarrow> string \<Rightarrow> bool" where
  "tok_match (Lit l) c = (l = c)"
| "tok_match AnyChar c = True"
| "tok_match Star c = False"

fun seg_pre :: "globTok list \<Rightarrow> string list \<Rightarrow> bool" where
  "seg_pre [] cs = True"
| "seg_pre (t # g) [] = False"
| "seg_pre (t # g) (c # cs) = (tok_match t c \<and> seg_pre g cs)"

text \<open>A token of a key in valid UTF-8, and a segment of such tokens.\<close>

fun tok_ok :: "globTok \<Rightarrow> bool" where
  "tok_ok (Lit l) = rune_ok l"
| "tok_ok _ = True"

definition seg_ok :: "globTok list \<Rightarrow> bool" where
  "seg_ok g = (list_all tok_ok g \<and> Star \<notin> set g)"

lemma seg_ok_simps [simp]:
  "seg_ok []"
  "seg_ok (t # g) \<longleftrightarrow> tok_ok t \<and> t \<noteq> Star \<and> seg_ok g"
  "seg_ok (g @ h) \<longleftrightarrow> seg_ok g \<and> seg_ok h"
  by (auto simp: seg_ok_def)

lemma seg_pre_length: "seg_pre g cs \<Longrightarrow> length g \<le> length cs"
  by (induction g cs rule: seg_pre.induct) auto

lemma seg_pre_take: "seg_pre g (take n cs) \<longleftrightarrow> length g \<le> n \<and> seg_pre g cs"
proof (induction g cs arbitrary: n rule: seg_pre.induct)
  case (3 t g c cs)
  then show ?case by (cases n) auto
qed auto

lemma seg_pre_lits: "seg_pre (map Lit ls) cs \<longleftrightarrow> prefix ls cs"
  by (induction "map Lit ls" cs arbitrary: ls rule: seg_pre.induct) auto

text \<open>At the \<open>j\<close>-th character of the value, \<^verbatim>\<open>matchAt\<close> is a match of characters.\<close>

lemma char_at:
  assumes "j < length (chars v)"
  defines "d \<equiv> drop (char_off v j) v"
  shows "d \<noteq> []" "hd (chars d) = chars v ! j" "char_off v j + rune_size d = char_off v (Suc j)"
proof -
  have c: "chars d = drop j (chars v)" unfolding d_def by (rule chars_drop_off)
  then have "chars d \<noteq> []" using assms(1) by simp
  then show d: "d \<noteq> []" by auto
  show h: "hd (chars d) = chars v ! j" using c assms(1) by (simp add: hd_drop_conv_nth)
  have "take (rune_size d) d = chars v ! j" using h chars_nonempty [OF d] by simp
  moreover have "length (take (rune_size d) d) = rune_size d" using decode_rune_size [OF d] by simp
  ultimately show "char_off v j + rune_size d = char_off v (Suc j)"
    using char_off_Suc [OF assms(1)] by metis
qed

lemma char_off_ge_length:
  "j \<le> length (chars v) \<Longrightarrow> length v \<le> char_off v j \<longleftrightarrow> j = length (chars v)"
  using char_off_le_iff [of "length (chars v)" v j] by auto

lemma has_prefix_char:
  assumes "rune_ok l" "j < length (chars v)"
  shows "has_prefix (drop (char_off v j) v) l \<longleftrightarrow> chars v ! j = l"
  using rune_ok_prefix [OF assms(1)] char_at(1,2) [OF assms(2)] by (simp add: has_prefix_iff)

lemma matchAt_chars:
  assumes "seg_ok g" "j \<le> length (chars v)"
  shows "fst (matchAt g v (char_off v j) st) =
    (if seg_pre g (drop j (chars v)) then Some (char_off v (j + length g)) else None)"
  using assms
proof (induction g arbitrary: j st)
  case (Cons t g)
  show ?case
  proof (cases "j = length (chars v)")
    case False
    then have j: "j < length (chars v)" using Cons.prems by simp
    have d: "drop j (chars v) = chars v ! j # drop (Suc j) (chars v)"
      using j by (rule Cons_nth_drop_Suc [symmetric])
    have len: "\<not> length v \<le> char_off v j" using char_off_ge_length False Cons.prems by simp
    show ?thesis
    proof (cases t)
      case AnyChar
      then show ?thesis
        using Cons.IH [of "Suc j" "Suc st"] Cons.prems j d len char_at(3) [OF j] by simp
    next
      case (Lit l)
      then have l: "rune_ok l" using Cons.prems by simp
      show ?thesis
      proof (cases "chars v ! j = l")
        case True
        then have "char_off v j + length l = char_off v (Suc j)" using char_off_Suc [OF j] by simp
        then show ?thesis
          using Cons.IH [of "Suc j" "Suc st"] Cons.prems j d len True Lit
            has_prefix_char [OF l j] by simp
      qed (use d len Lit has_prefix_char [OF l j] in simp)
    qed (use Cons.prems in simp)
  qed (simp add: char_off_def)
qed simp

lemma matchAt_steps: "snd (matchAt g v pos st) \<le> st + length g"
proof (induction g arbitrary: pos st)
  case (Cons t g)
  show ?case
    using Cons.IH [of "pos + rune_size (drop pos v)" "Suc st"]
      Cons.IH [of "pos + length (tok_lit t)" "Suc st"] by auto
qed simp

lemma walkBack_chars:
  assumes "j \<le> length (chars v)"
  shows "walkBack n v (char_off v j) = (if n \<le> j then Some (char_off v (j - n)) else None)"
  using assms
proof (induction n arbitrary: j)
  case (Suc n)
  show ?case
  proof (cases j)
    case (Suc i)
    then have "char_off v j \<noteq> 0" using Suc.prems char_off_less [of 0 j v] by simp
    then show ?thesis using Suc Suc.IH [of i] Suc.prems last_rune_off [of j v] by simp
  qed simp
qed simp

section \<open>Finding a segment\<close>

fun seg_find :: "globTok list \<Rightarrow> string list \<Rightarrow> nat option" where
  "seg_find g [] = None"
| "seg_find g (c # cs) = (if seg_pre g (c # cs) then Some 0 else map_option Suc (seg_find g cs))"

lemma seg_find_Some:
  "g \<noteq> [] \<Longrightarrow> seg_find g cs = Some k \<longleftrightarrow>
     seg_pre g (drop k cs) \<and> (\<forall>i<k. \<not> seg_pre g (drop i cs))"
proof (induction g cs arbitrary: k rule: seg_find.induct)
  case (1 g)
  then show ?case by (cases g) auto
next
  case (2 g c cs)
  then show ?case
    by (cases k) (auto simp: less_Suc_eq_0_disj)
qed

lemma seg_find_None: "g \<noteq> [] \<Longrightarrow> seg_find g cs = None \<longleftrightarrow> (\<forall>i. \<not> seg_pre g (drop i cs))"
proof
  assume "g \<noteq> []" "seg_find g cs = None"
  then show "\<forall>i. \<not> seg_pre g (drop i cs)"
  proof (induction g cs rule: seg_find.induct)
    case (1 g)
    then show ?case by (cases g) auto
  next
    case (2 g c cs)
    then have "\<not> seg_pre g (drop i (c # cs))" for i by (cases i) (auto split: if_splits)
    then show ?case by blast
  qed
next
  assume "g \<noteq> []" "\<forall>i. \<not> seg_pre g (drop i cs)"
  then show "seg_find g cs = None" using seg_find_Some by (cases "seg_find g cs") blast+
qed

text \<open>The characters between two boundaries.\<close>

lemma chars_between:
  assumes "j \<le> m" "m \<le> length (chars v)"
  shows "chars (take (char_off v m - char_off v j) (drop (char_off v j) v)) = drop j (take m (chars v))"
    and "k \<le> m - j \<Longrightarrow>
      char_off (take (char_off v m - char_off v j) (drop (char_off v j) v)) k =
      char_off v (j + k) - char_off v j"
proof -
  let ?u = "take (char_off v m) v"
  have u: "chars ?u = take m (chars v)" by (rule chars_take_off)
  have off: "char_off ?u i = char_off v i" if "i \<le> m" for i
    using that unfolding char_off_def [of ?u] u by (simp add: char_off_def min_def)
  have eq: "take (char_off v m - char_off v j) (drop (char_off v j) v) = drop (char_off ?u j) ?u"
    using off [OF assms(1)] by (simp add: drop_take)
  show c: "chars (take (char_off v m - char_off v j) (drop (char_off v j) v)) = drop j (take m (chars v))"
    unfolding eq chars_drop_off u ..
  assume k: "k \<le> m - j"
  have "take (j + k) (chars v) = take j (chars v) @ take k (drop j (chars v))" by (rule take_add)
  moreover have "take k (drop j (take m (chars v))) = take k (drop j (chars v))"
    using k by (simp add: drop_take min_def)
  ultimately show "char_off (take (char_off v m - char_off v j) (drop (char_off v j) v)) k =
      char_off v (j + k) - char_off v j"
    by (simp add: char_off_def c [unfolded char_off_def])
qed

section \<open>The middle segments\<close>

text \<open>\<open>found v j g\<close>: the offset after the first match of \<open>g\<close> at or after the \<open>j\<close>-th character.\<close>

definition found :: "string \<Rightarrow> nat \<Rightarrow> globTok list \<Rightarrow> nat option \<Rightarrow> nat option" where
  "found v j g k = map_option (\<lambda>k. char_off v (j + k + length g)) k"

lemma seg_pre_between:
  assumes "j \<le> m" "m \<le> length (chars v)"
  shows "seg_pre g (drop j (take m (chars v))) \<longleftrightarrow>
    j + length g \<le> m \<and> seg_pre g (drop j (chars v))"
  using assms by (auto simp: drop_take seg_pre_take)

lemma seg_find_between:
  assumes "j < m" "m \<le> length (chars v)"
  shows "seg_find g (drop j (take m (chars v))) =
    (if j + length g \<le> m \<and> seg_pre g (drop j (chars v)) then Some 0
     else map_option Suc (seg_find g (drop (Suc j) (take m (chars v)))))"
proof -
  obtain c cs where c: "drop j (take m (chars v)) = c # cs"
    using assms by (cases "drop j (take m (chars v))") auto
  then have "drop (Suc j) (take m (chars v)) = cs" by (metis drop_Suc list.sel(3) tl_drop)
  then show ?thesis using c seg_pre_between [of j m v g] assms by simp
qed

lemma scanSegment_chars:
  assumes "seg_ok g" "j \<le> m" "m \<le> length (chars v)"
  shows "case scanSegment g v (char_off v j) (char_off v m) st of
      Inl e \<Rightarrow> maxGlobSteps < st + length g * (m - j)
    | Inr (e, st') \<Rightarrow> e = found v j g (seg_find g (drop j (take m (chars v)))) \<and>
        st' \<le> st + length g * (m - j)"
  using assms
proof (induction "m - j" arbitrary: j st)
  case 0
  then show ?case by (subst scanSegment.simps) (simp add: found_def)
next
  case (Suc n)
  then have lt: "j < m" and j: "j < length (chars v)" by simp_all
  have off: "char_off v j < char_off v m" "char_off v j < length v"
    using lt Suc.prems char_off_less [of j m v] char_off_less [of j "length (chars v)" v] j by simp_all
  have step: "length g * (m - j) = length g + length g * (m - Suc j)"
    using lt by (metis Suc_diff_Suc mult_Suc_right)
  let ?hit = "j + length g \<le> m \<and> seg_pre g (drop j (chars v))"
  obtain e st' where e: "matchAt g v (char_off v j) st = (e, st')" by fastforce
  have st': "st' \<le> st + length g" using matchAt_steps [of g v "char_off v j" st] e by simp
  have ev: "e = (if seg_pre g (drop j (chars v)) then Some (char_off v (j + length g)) else None)"
    using matchAt_chars [OF Suc.prems(1), of j v st] e j by simp
  have le: "char_off v (j + length g) \<le> char_off v m \<longleftrightarrow> j + length g \<le> m"
    if "seg_pre g (drop j (chars v))"
    using seg_pre_length [OF that] Suc.prems(3) j by (intro char_off_le_iff) auto
  have hit: "e \<noteq> None \<and> the e \<le> char_off v m \<longleftrightarrow> ?hit"
      and val: "?hit \<Longrightarrow> e = Some (char_off v (j + length g))"
    using ev le by auto
  show ?case
  proof (cases "maxGlobSteps < st \<or> ?hit")
    case True
    then show ?thesis
      using off e hit val st' step seg_find_between [OF lt Suc.prems(3), of g]
      by (subst scanSegment.simps) (auto simp: found_def Let_def)
  next
    case False
    have rec: "scanSegment g v (char_off v j) (char_off v m) st =
        scanSegment g v (char_off v (Suc j)) (char_off v m) st'"
      using False off e hit char_at(3) [OF j] by (subst scanSegment.simps) (auto simp: Let_def)
    have fnd: "found v j g (seg_find g (drop j (take m (chars v)))) =
        found v (Suc j) g (seg_find g (drop (Suc j) (take m (chars v))))"
      using False seg_find_between [OF lt Suc.prems(3), of g]
      by (auto simp: found_def option.map_comp comp_def)
    have "case scanSegment g v (char_off v (Suc j)) (char_off v m) st' of
      Inl e \<Rightarrow> maxGlobSteps < st' + length g * (m - Suc j)
    | Inr (e, st'') \<Rightarrow> e = found v (Suc j) g (seg_find g (drop (Suc j) (take m (chars v)))) \<and>
        st'' \<le> st' + length g * (m - Suc j)"
      using Suc.hyps Suc.prems lt by (intro Suc.hyps(1)) simp_all
    then show ?thesis
      unfolding rec fnd step using st' by (auto split: sum.splits prod.splits)
  qed
qed

text \<open>A segment without \<^verbatim>\<open>?\<close> is found by \<^verbatim>\<open>strings.Index\<close>.\<close>

lemma seg_literal_lits:
  assumes "seg_ok g" "seg_literal g = Some lit"
  shows "\<exists>ls. g = map Lit ls \<and> lit = concat ls \<and> list_all rune_ok ls"
  using assms
proof (induction g arbitrary: lit)
  case (Cons t g)
  then obtain l b where t: "t = Lit l" and b: "seg_literal g = Some b" "lit = l @ b"
    by (cases t) (auto split: if_splits)
  obtain ls where "g = map Lit ls \<and> b = concat ls \<and> list_all rune_ok ls"
    using Cons.IH [OF _ b(1)] Cons.prems by auto
  then show ?case using t b Cons.prems by (intro exI [of _ "l # ls"]) simp
qed simp

lemma literal_index:
  assumes "seg_ok g" "g \<noteq> []" "seg_literal g = Some lit" "j \<le> m" "m \<le> length (chars v)"
  defines "w \<equiv> take (char_off v m - char_off v j) (drop (char_off v j) v)"
  shows "map_option (\<lambda>i. char_off v j + i + length lit) (str_index w lit) =
    found v j g (seg_find g (drop j (take m (chars v))))"
proof -
  obtain ls where ls: "g = map Lit ls" "lit = concat ls" "list_all rune_ok ls" "ls \<noteq> []"
    using seg_literal_lits [OF assms(1,3)] assms(2) by auto
  have cw: "chars w = drop j (take m (chars v))" unfolding w_def by (rule chars_between(1) [OF assms(4,5)])
  show ?thesis
  proof (cases "seg_find g (chars w)")
    case None
    then have "str_index w lit = None"
      using seg_find_None [OF assms(2)] ls str_index_chars_None [OF ls(3,4)] by (simp add: seg_pre_lits)
    then show ?thesis using None cw by (simp add: found_def)
  next
    case (Some k)
    then have k: "prefix ls (drop k (chars w))" "\<forall>i<k. \<not> prefix ls (drop i (chars w))"
      using seg_find_Some [OF assms(2)] ls by (simp_all add: seg_pre_lits)
    then have len: "k + length ls \<le> length (chars w)"
      using prefix_length_le [OF k(1)] ls(4) by (cases "k \<le> length (chars w)") auto
    then have "str_index w lit = Some (char_off w k)"
      using k ls str_index_chars [OF ls(3,4), of w "char_off w k"] by auto
    moreover have "char_off w k = char_off v (j + k) - char_off v j"
      using len cw assms(4,5) unfolding w_def by (intro chars_between(2)) auto
    moreover have "char_off v j \<le> char_off v (j + k)" by (rule char_off_mono) simp
    moreover have "char_off v (j + k + length g) = char_off v (j + k) + length lit"
    proof -
      have "prefix ls (drop (j + k) (chars v))"
        using k(1) cw by (simp add: drop_take add.commute) (metis prefix_order.trans take_is_prefix)
      then have "take (length ls) (drop (j + k) (chars v)) = ls" by (auto simp: prefix_def)
      then show ?thesis using ls by (simp add: char_off_def take_add)
    qed
    ultimately show ?thesis using Some cw by (simp add: found_def)
  qed
qed

text \<open>The loop over the middle segments, at the level of characters.\<close>

fun mid_ref :: "globTok list list \<Rightarrow> string list \<Rightarrow> bool" where
  "mid_ref [] cs = True"
| "mid_ref (g # gs) cs =
     (if g = [] then mid_ref gs cs
      else (case seg_find g cs of
              None \<Rightarrow> False
            | Some k \<Rightarrow> mid_ref gs (drop (k + length g) cs)))"

lemma seg_find_bound: "g \<noteq> [] \<Longrightarrow> seg_find g cs = Some k \<Longrightarrow> k + length g \<le> length cs"
  using seg_find_Some [of g cs k] seg_pre_length [of g "drop k cs"]
  by (cases "k \<le> length cs") auto

lemma literal_cost:
  assumes "g \<noteq> []" "str_index w lit = Some i" "length w \<le> length v"
  shows "i + length lit \<le> length g * length v"
proof -
  have "i + length lit \<le> length w" using assms(2) by (rule str_index_bound)
  also have "\<dots> \<le> 1 * length v" using assms(3) by simp
  also have "\<dots> \<le> length g * length v" using assms(1) by (intro mult_le_mono1) (cases g; simp)
  finally show ?thesis .
qed

lemma middleLoop_chars:
  assumes "list_all seg_ok gs" "j \<le> m" "m \<le> length (chars v)"
  shows "case middleLoop gs v (char_off v j) (char_off v m) st of
      Inl e \<Rightarrow> maxGlobSteps < st + length (concat gs) * length v
    | Inr b \<Rightarrow> b = mid_ref gs (drop j (take m (chars v)))"
  using assms
proof (induction gs arbitrary: j st)
  case (Cons g gs)
  let ?cs = "drop j (take m (chars v))"
  let ?w = "take (char_off v m - char_off v j) (drop (char_off v j) v)"
  have ok: "seg_ok g" "list_all seg_ok gs" using Cons.prems by simp_all
  have rest: "case middleLoop gs v (char_off v (j + k + length g)) (char_off v m) st' of
      Inl e \<Rightarrow> maxGlobSteps < st + length (concat (g # gs)) * length v
    | Inr b \<Rightarrow> b = mid_ref gs (drop (k + length g) ?cs)"
    if "k + length g \<le> length ?cs" "st' \<le> st + length g * length v" for k st'
  proof -
    have "j + k + length g \<le> m" using that(1) Cons.prems by simp
    from Cons.IH [OF ok(2) this Cons.prems(3), of st'] show ?thesis
      using that(2) by (auto simp: algebra_simps split: sum.splits)
  qed
  show ?case
  proof (cases "g = []")
    case True
    then show ?thesis
      using Cons.IH [OF ok(2) Cons.prems(2,3), of st] by (simp split: sum.splits)
  next
    case False
    note bound = seg_find_bound [OF False, of ?cs]
    show ?thesis
    proof (cases "seg_literal g")
      case (Some lit)
      note ix = literal_index [OF ok(1) False Some Cons.prems(2,3)]
      show ?thesis
      proof (cases "seg_find g ?cs")
        case None
        then have "str_index ?w lit = None" using ix by (simp add: found_def)
        then show ?thesis using None Some False by simp
      next
        case (Some k)
        then obtain i where i: "str_index ?w lit = Some i"
            "char_off v j + i + length lit = char_off v (j + k + length g)"
          using ix by (auto simp: found_def)
        then show ?thesis
          using rest [OF bound [OF Some], of "st + (i + length lit)"] Some \<open>seg_literal g = Some lit\<close>
            False literal_cost [OF False i(1), of v] by (simp split: sum.splits)
      qed
    next
      case None
      have cost: "length g * (m - j) \<le> length g * length v"
        using Cons.prems length_chars_le [of v] by (intro mult_le_mono2) simp
      note scan = scanSegment_chars [OF ok(1) Cons.prems(2,3), of st]
      show ?thesis
      proof (cases "scanSegment g v (char_off v j) (char_off v m) st")
        case (Inl e)
        then have "maxGlobSteps < st + length g * (m - j)" using scan by simp
        then have "maxGlobSteps < st + (length g * length v + length (concat gs) * length v)"
          using cost by linarith
        then show ?thesis using Inl None False by (simp add: add_mult_distrib)
      next
        case (Inr r)
        then obtain st' where r: "r = (found v j g (seg_find g ?cs), st')" "st' \<le> st + length g * (m - j)"
          using scan by (cases r) auto
        show ?thesis
        proof (cases "seg_find g ?cs")
          case (Some k)
          then have "st' \<le> st + length g * length v" using r cost by linarith
          from rest [OF bound [OF Some] this] show ?thesis
            using Some Inr r None False by (simp add: found_def split: sum.splits)
        qed (use Inr r None False in \<open>simp add: found_def\<close>)
      qed
    qed
  qed
qed simp

section \<open>Leftmost matching is enough\<close>

lemma glob_ref_seg: "Star \<notin> set g \<Longrightarrow> glob_ref (g @ ts) cs \<longleftrightarrow> seg_pre g cs \<and> glob_ref ts (drop (length g) cs)"
proof (induction g cs rule: seg_pre.induct)
  case (2 t g)
  then show ?case by (cases t) auto
next
  case (3 t g c cs)
  then show ?case by (cases t) auto
qed simp

lemma glob_ref_star: "glob_ref (Star # ts) cs \<longleftrightarrow> (\<exists>k \<le> length cs. glob_ref ts (drop k cs))"
proof (induction cs)
  case (Cons c cs)
  have "(\<exists>k \<le> length (c # cs). glob_ref ts (drop k (c # cs))) \<longleftrightarrow>
      glob_ref ts (c # cs) \<or> (\<exists>k \<le> length cs. glob_ref ts (drop k cs))"
    by (metis (no_types, opaque_lifting) Suc_le_mono drop0 drop_Suc_Cons le0 length_Cons not0_implies_Suc)
  then show ?case using Cons by simp
qed simp

lemma glob_ref_star_drop: "glob_ref (Star # ts) (drop n cs) \<Longrightarrow> glob_ref (Star # ts) cs"
proof (induction n arbitrary: cs)
  case (Suc n)
  then show ?case by (cases cs) auto
qed simp

text \<open>The tokens after the first segment: a star before each segment.\<close>

fun stars :: "globTok list list \<Rightarrow> globTok list \<Rightarrow> globTok list" where
  "stars [] l = Star # l"
| "stars (g # gs) l = Star # g @ stars gs l"

lemma stars_Star: "\<exists>ts. stars gs l = Star # ts"
  by (cases gs) auto

lemma glob_ref_last:
  assumes "Star \<notin> set l"
  shows "glob_ref (Star # l) cs \<longleftrightarrow> length l \<le> length cs \<and> seg_pre l (drop (length cs - length l) cs)"
proof -
  have "glob_ref l (drop k cs) \<longleftrightarrow> seg_pre l (drop k cs) \<and> length cs \<le> k + length l" for k
    using glob_ref_seg [OF assms, of "[]" "drop k cs"] by (auto simp: add.commute)
  then have "glob_ref (Star # l) cs \<longleftrightarrow>
      (\<exists>k \<le> length cs. seg_pre l (drop k cs) \<and> length cs \<le> k + length l)"
    by (simp add: glob_ref_star)
  also have "\<dots> \<longleftrightarrow> length l \<le> length cs \<and> seg_pre l (drop (length cs - length l) cs)"
  proof
    assume "\<exists>k \<le> length cs. seg_pre l (drop k cs) \<and> length cs \<le> k + length l"
    then obtain k where k: "k \<le> length cs" "seg_pre l (drop k cs)" "length cs \<le> k + length l" by blast
    then have "k = length cs - length l" "length l \<le> length cs"
      using seg_pre_length [OF k(2)] by auto
    then show "length l \<le> length cs \<and> seg_pre l (drop (length cs - length l) cs)" using k(2) by simp
  qed (auto intro: exI [of _ "length cs - length l"])
  finally show ?thesis .
qed

text \<open>
  One segment: if it occurs anywhere with the rest matching after it, then the
  rest also matches after its first occurrence.
\<close>

lemma leftmost_segment:
  assumes g: "g \<noteq> []"
    and R: "\<And>cs. glob_ref (Star # ts) cs \<longleftrightarrow>
      length l \<le> length cs \<and> seg_pre l (drop (length cs - length l) cs) \<and>
      mid_ref gs (take (length cs - length l) cs)"
  shows "(\<exists>k \<le> length cs. seg_pre g (drop k cs) \<and> glob_ref (Star # ts) (drop (k + length g) cs)) \<longleftrightarrow>
    length l \<le> length cs \<and> seg_pre l (drop (length cs - length l) cs) \<and>
    mid_ref (g # gs) (take (length cs - length l) cs)" (is "?L \<longleftrightarrow> ?R")
proof -
  let ?n = "length cs - length l"
  have tail: "glob_ref (Star # ts) (drop (k + length g) cs) \<longleftrightarrow>
      seg_pre l (drop ?n cs) \<and> mid_ref gs (drop (k + length g) (take ?n cs))"
    if "length l \<le> length cs" "k + length g \<le> ?n" for k
  proof -
    have "length cs - (k + length g) - length l + (k + length g) = ?n"
        "length l \<le> length cs - (k + length g)" using that by linarith+
    then show ?thesis
      using R [of "drop (k + length g) cs"] by (simp add: take_drop add.commute)
  qed
  have pre: "seg_pre g (drop k (take ?n cs)) \<longleftrightarrow> k + length g \<le> ?n \<and> seg_pre g (drop k cs)" for k
    using g by (cases "k \<le> ?n"; cases g) (auto simp: drop_take seg_pre_take)
  show ?thesis
  proof
    assume ?L
    then obtain k where k: "seg_pre g (drop k cs)" "glob_ref (Star # ts) (drop (k + length g) cs)"
        "k \<le> length cs" by blast
    have fit: "length l \<le> length cs" "k + length g \<le> ?n"
      using k R [of "drop (k + length g) cs"] seg_pre_length [OF k(1)] by auto
    then obtain i where i: "seg_find g (take ?n cs) = Some i"
      using pre [of k] k(1) seg_find_None [OF g] by (cases "seg_find g (take ?n cs)") auto
    have "i \<le> k" using i seg_find_Some [OF g] pre [of k] fit k(1) by (meson not_le)
    then have "drop (k + length g) cs = drop (k - i) (drop (i + length g) cs)" by (simp add: add.commute)
    then have "glob_ref (Star # ts) (drop (i + length g) cs)" using k(2) glob_ref_star_drop by metis
    moreover have "i + length g \<le> ?n" using \<open>i \<le> k\<close> fit by simp
    ultimately show ?R using tail fit i g by simp
  next
    assume r: ?R
    then obtain k where k: "seg_find g (take ?n cs) = Some k"
        "mid_ref gs (drop (k + length g) (take ?n cs))"
      using g by (auto split: option.splits)
    have "seg_pre g (drop k cs)" "k + length g \<le> ?n"
      using k(1) seg_find_Some [OF g] pre by auto
    then show ?L using tail [of k] r k(2) by (intro exI [of _ k]) auto
  qed
qed

lemma glob_ref_stars:
  assumes "Star \<notin> set l" "\<forall>g \<in> set gs. Star \<notin> set g"
  shows "glob_ref (stars gs l) cs \<longleftrightarrow>
    length l \<le> length cs \<and> seg_pre l (drop (length cs - length l) cs) \<and>
    mid_ref gs (take (length cs - length l) cs)"
  using assms(2)
proof (induction gs arbitrary: cs)
  case Nil
  then show ?case using glob_ref_last [OF assms(1)] by simp
next
  case (Cons g gs)
  obtain ts where ts: "stars gs l = Star # ts" using stars_Star by blast
  have step: "glob_ref (stars (g # gs) l) cs \<longleftrightarrow>
      (\<exists>k \<le> length cs. seg_pre g (drop k cs) \<and> glob_ref (Star # ts) (drop (k + length g) cs))"
    using Cons.prems glob_ref_seg ts by (simp add: glob_ref_star add.commute)
  have IH: "glob_ref (Star # ts) cs \<longleftrightarrow>
      length l \<le> length cs \<and> seg_pre l (drop (length cs - length l) cs) \<and>
      mid_ref gs (take (length cs - length l) cs)" for cs
    using Cons ts by simp
  show ?case
  proof (cases "g = []")
    case True
    have "glob_ref (stars (g # gs) l) cs \<longleftrightarrow> glob_ref (Star # ts) cs"
      using step True glob_ref_star_drop [of ts _ cs] by (auto intro: exI [of _ 0])
    then show ?thesis using IH True by simp
  qed (use step leftmost_segment [OF _ IH] in simp)
qed

section \<open>The whole matcher\<close>

lemma globSegments_shape:
  "\<exists>g gs. globSegments ts segs cur = segs @ (cur @ g) # gs \<and> Star \<notin> set g \<and>
     (\<forall>h \<in> set gs. Star \<notin> set h) \<and>
     ts = (if gs = [] then g else g @ stars (butlast gs) (last gs))"
proof (induction ts segs cur rule: globSegments.induct)
  case (2 t ts segs cur)
  show ?case
  proof (cases "t = Star")
    case True
    obtain g gs where IH: "globSegments ts (segs @ [cur]) [] = (segs @ [cur]) @ ([] @ g) # gs"
        "Star \<notin> set g" "\<forall>h \<in> set gs. Star \<notin> set h"
        "ts = (if gs = [] then g else g @ stars (butlast gs) (last gs))"
      using "2.IH"(1) [OF True] by blast
    then show ?thesis using True by (intro exI [of _ "[]"] exI [of _ "g # gs"]) auto
  next
    case False
    obtain g gs where IH: "globSegments ts segs (cur @ [t]) = segs @ ((cur @ [t]) @ g) # gs"
        "Star \<notin> set g" "\<forall>h \<in> set gs. Star \<notin> set h"
        "ts = (if gs = [] then g else g @ stars (butlast gs) (last gs))"
      using "2.IH"(2) [OF False] by blast
    then show ?thesis using False by (intro exI [of _ "t # g"] exI [of _ gs]) auto
  qed
qed simp

lemma set_stars: "set (stars gs l) = {Star} \<union> \<Union> (set ` set gs) \<union> set l"
  by (induction gs) auto

lemma length_stars: "length (stars gs l) = Suc (length (concat gs) + length gs + length l)"
  by (induction gs) auto

lemma matchAt_0:
  assumes "seg_ok g"
  shows "fst (matchAt g v 0 0) = (if seg_pre g (chars v) then Some (char_off v (length g)) else None)"
  using matchAt_chars [OF assms, of 0 v 0] by simp

lemma globMatchBudget_stars:
  assumes g: "seg_ok g" and gs: "list_all seg_ok gs" and l: "seg_ok l"
    and segs: "globSegments (globTokens glob) [] [] = g # gs @ [l]"
  shows "case globMatchBudget glob v of
      Inl e \<Rightarrow> maxGlobSteps < length g + length l + length (concat gs) * length v
    | Inr b \<Rightarrow> b = (seg_pre g (chars v) \<and> length g + length l \<le> length (chars v) \<and>
        seg_pre l (drop (length (chars v) - length l) (chars v)) \<and>
        mid_ref gs (drop (length g) (take (length (chars v) - length l) (chars v))))"
proof -
  let ?cs = "chars v" and ?n = "length (chars v)"
  obtain p st where p: "matchAt g v 0 0 = (p, st)" by fastforce
  obtain e st' where e: "matchAt l v (char_off v (?n - length l)) st = (e, st')" by fastforce
  have pv: "p = (if seg_pre g ?cs then Some (char_off v (length g)) else None)"
    using matchAt_0 [OF g, of v] p by simp
  have ev: "length l \<le> ?n \<Longrightarrow> e = (if seg_pre l (drop (?n - length l) ?cs) then Some (length v) else None)"
    using matchAt_chars [OF l, of "?n - length l" v st] e by simp
  have wb: "walkBack (length l) v (length v) =
      (if length l \<le> ?n then Some (char_off v (?n - length l)) else None)"
    using walkBack_chars [of ?n v "length l"] by simp
  have less: "char_off v (?n - length l) < char_off v (length g) \<longleftrightarrow> ?n < length g + length l"
    if "seg_pre g ?cs" "length l \<le> ?n"
    using char_off_less_iff [of "?n - length l" v "length g"] seg_pre_length [OF that(1)] that(2) by auto
  have st: "st' \<le> length g + length l"
    using matchAt_steps [of g v 0 0] matchAt_steps [of l v "char_off v (?n - length l)" st] p e by simp
  show ?thesis
  proof (cases "seg_pre g ?cs \<and> length g + length l \<le> ?n \<and> seg_pre l (drop (?n - length l) ?cs)")
    case True
    then have "length g \<le> ?n - length l" by linarith
    from middleLoop_chars [OF gs this, of v st'] have
      "case middleLoop gs v (char_off v (length g)) (char_off v (?n - length l)) st' of
        Inl e \<Rightarrow> maxGlobSteps < length g + length l + length (concat gs) * length v
      | Inr b \<Rightarrow> b = mid_ref gs (drop (length g) (take (?n - length l) ?cs))"
      using st by (auto split: sum.splits)
    then show ?thesis
      using True segs p pv e ev wb less by (auto simp: globMatchBudget_def Let_def split: sum.splits)
  next
    case False
    then show ?thesis
      using segs p pv e ev wb less
      by (cases "length l \<le> ?n") (auto simp: globMatchBudget_def Let_def)
  qed
qed

lemma glob_ref_split:
  assumes "Star \<notin> set g" "\<forall>h \<in> set gs. Star \<notin> set h" "Star \<notin> set l"
  shows "glob_ref (g @ stars gs l) cs \<longleftrightarrow>
    seg_pre g cs \<and> length g + length l \<le> length cs \<and>
    seg_pre l (drop (length cs - length l) cs) \<and>
    mid_ref gs (drop (length g) (take (length cs - length l) cs))"
proof (cases "seg_pre g cs \<and> length g + length l \<le> length cs")
  case True
  then have "length cs - length g - length l + length g = length cs - length l" by linarith
  then show ?thesis
    using True glob_ref_seg [OF assms(1)] glob_ref_stars [OF assms(3,2), of "drop (length g) cs"]
    by (simp add: take_drop add.commute) linarith
next
  case False
  then show ?thesis
    using glob_ref_seg [OF assms(1)] glob_ref_stars [OF assms(3,2), of "drop (length g) cs"]
      seg_pre_length [of g cs] by auto
qed

lemma globMatchBudget_tokens:
  assumes "list_all tok_ok (globTokens glob)"
  shows "case globMatchBudget glob v of
      Inl e \<Rightarrow> maxGlobSteps < length (globTokens glob) * (length v + 1)
    | Inr b \<Rightarrow> b = glob_ref (globTokens glob) (chars v)"
proof -
  let ?ts = "globTokens glob"
  obtain g gs where segs: "globSegments ?ts [] [] = g # gs" and noStar: "Star \<notin> set g"
      "\<forall>h \<in> set gs. Star \<notin> set h"
      and ts: "?ts = (if gs = [] then g else g @ stars (butlast gs) (last gs))"
    using globSegments_shape [of ?ts "[]" "[]"] by auto
  have okg: "seg_ok g" using assms noStar(1) unfolding ts by (auto simp: seg_ok_def split: if_splits)
  show ?thesis
  proof (cases "gs = []")
    case True
    have "glob_ref g (chars v) \<longleftrightarrow> seg_pre g (chars v) \<and> length (chars v) \<le> length g"
      using glob_ref_seg [OF noStar(1), of "[]" "chars v"] by simp
    moreover have "char_off v (length g) = length v \<longleftrightarrow> length (chars v) \<le> length g"
      if "seg_pre g (chars v)"
      using char_off_eq_iff [of "length g" v "length (chars v)"] seg_pre_length [OF that] by auto
    ultimately show ?thesis
      using True segs ts matchAt_0 [OF okg, of v] by (auto simp: globMatchBudget_def)
  next
    case False
    let ?l = "last gs" and ?mid = "butlast gs"
    have sub: "set gs = set ?mid \<union> {?l}" using False by (metis append_butlast_last_id list.simps(15)
          set_append list.set(1) Un_insert_right sup_bot_right)
    have ok: "list_all seg_ok ?mid" "seg_ok ?l"
      using assms noStar(2) False sub unfolding ts by (auto simp: seg_ok_def list_all_iff set_stars)
    have "length g + length ?l + length (concat ?mid) * length v \<le> length ?ts * (length v + 1)"
      using False by (simp add: ts length_stars algebra_simps)
    then show ?thesis
      using globMatchBudget_stars [OF okg ok, of glob v] segs False ts noStar sub
        glob_ref_split [of g ?mid ?l "chars v"]
      by (auto split: sum.splits)
  qed
qed

lemma globTokens_ok: "list_all rune_ok (chars glob) \<Longrightarrow> list_all tok_ok (globTokens glob)"
proof (induction glob rule: globTokens.induct)
  case (2 c s)
  have ascii: "chars (c # s) = [c] # chars s" if "byte c < 128"
    using that rune_size_ascii [of "c # s"] by (subst chars.simps) simp
  have cs: "chars (c # s) = take (rune_size (c # s)) (c # s) # chars (drop (rune_size (c # s)) (c # s))"
    by (rule chars_nonempty) simp
  have bs: "s \<noteq> [] \<Longrightarrow> chars s = take (rune_size s) s # chars (drop (rune_size s) s)"
    by (rule chars_nonempty)
  have "rune_ok [BSLASH]" by (simp add: rune_ok_def rune_size_def)
  then show ?case
    using 2 ascii cs bs by (cases "c = CHR ''*'' \<or> c = CHR ''?'' \<or> c = BSLASH") auto
qed simp

lemma length_globTokens: "length (globTokens glob) \<le> length glob"
proof (induction glob rule: globTokens.induct)
  case (2 c s)
  then show ?case
    using decode_rune_size [of s] decode_rune_size [of "c # s"] by (auto simp del: drop_Cons')
qed simp

section \<open>Properties of the comparators\<close>

text \<open>
  C15. \<^verbatim>\<open>i;ascii-numeric\<close> (RFC 4790, 9.1.1): each relational operator applied to
  \<^verbatim>\<open>numericCompare\<close>, which compares digit strings by length and then byte by
  byte, is that relation on the numeric values of the two strings, a string
  without leading digits counting as larger than every number.
\<close>

theorem numeric_relations:
  "relationHolds ''gt'' (numericCompare a b) = (numeric_value a > numeric_value b) \<and>
   relationHolds ''ge'' (numericCompare a b) = (numeric_value a \<ge> numeric_value b) \<and>
   relationHolds ''lt'' (numericCompare a b) = (numeric_value a < numeric_value b) \<and>
   relationHolds ''le'' (numericCompare a b) = (numeric_value a \<le> numeric_value b) \<and>
   relationHolds ''eq'' (numericCompare a b) = (numeric_value a = numeric_value b) \<and>
   relationHolds ''ne'' (numericCompare a b) = (numeric_value a \<noteq> numeric_value b)"
  by (auto simp: relationHolds_def numericCompare_order)

text \<open>
  C14. The \<^verbatim>\<open>:matches\<close> matcher is exact. For a key in valid UTF-8 and any value,
  valid UTF-8 or not, \<^verbatim>\<open>globMatch\<close> answers what the declarative semantics of the
  key says of the value's characters; it gives up only when the key's length
  times the value's length plus one exceeds the step limit.
\<close>

theorem globMatch_exact:
  assumes "valid_utf8 glob"
  shows "case globMatch glob v of
      Inl e \<Rightarrow> maxGlobSteps < length glob * (length v + 1)
    | Inr b \<Rightarrow> b = glob_ref (globTokens glob) (chars v)"
proof -
  have "list_all tok_ok (globTokens glob)"
    using assms valid_utf8_chars globTokens_ok by blast
  moreover have "length (globTokens glob) * (length v + 1) \<le> length glob * (length v + 1)"
    by (rule mult_le_mono1 [OF length_globTokens])
  ultimately show ?thesis
    using globMatchBudget_tokens [of glob v] by (auto simp: globMatch_def split: sum.splits)
qed

theorem globMatch_exact_witness:
  "globMatch ''*a?c*'' ''xxabcyy'' = Inr True \<and>
   glob_ref (globTokens ''*a?c*'') (chars ''xxabcyy'')"
proof -
  have "valid_utf8 ''*a?c*''" and m: "globMatch ''*a?c*'' ''xxabcyy'' = Inr True" by code_simp+
  then show ?thesis using globMatch_exact [of "''*a?c*''" "''xxabcyy''"] by simp
qed

end
