(* ===== verification/Sieve_Compile.thy ===== *)
theory Sieve_Compile
  imports Sieve_Parser
begin

text \<open>
  The Sieve compiler (\<^verbatim>\<open>src/internal/sieve/compile.go\<close>): argument typing against
  the tables of commands and tests, the construction of tests, and the
  validation of a whole script.

  A Go type assertion or index expression that could panic is modelled with
  the error \<open>Panic\<close>; that it is never reached is a theorem. The parts of the Go
  library that are programs of their own (regular expressions, address and
  MIME parsing) are the parameter \<open>golib\<close>.
\<close>

section \<open>Library functions taken as parameters\<close>

record golib =
  regexp_compile :: "string \<Rightarrow> bool"
    \<comment> \<open>\<^verbatim>\<open>regexp.Compile\<close> reports no error\<close>
  regexp_match :: "string \<Rightarrow> string \<Rightarrow> bool"
    \<comment> \<open>\<^verbatim>\<open>MatchString\<close> of the compiled pattern\<close>
  mail_ParseAddress :: "string \<Rightarrow> string option"
    \<comment> \<open>\<^verbatim>\<open>mail.ParseAddress\<close>, the addr-spec only\<close>
  mail_ParseAddressList :: "string \<Rightarrow> string list option"
  mail_ReadMessage :: "string \<Rightarrow> string list option"
    \<comment> \<open>the header names of \<^verbatim>\<open>mail.ReadMessage\<close>\<close>
  mime_DecodeHeader :: "string \<Rightarrow> string option"
    \<comment> \<open>\<^verbatim>\<open>(*mime.WordDecoder).DecodeHeader\<close>\<close>
  mime_ParseMediaType :: "string \<Rightarrow> (string \<times> string) option"
    \<comment> \<open>\<^verbatim>\<open>mime.ParseMediaType\<close>: the type and its boundary parameter\<close>
  multipart_parts :: "string \<Rightarrow> string \<Rightarrow> (string \<times> string \<times> string) list"
    \<comment> \<open>content type, transfer encoding and body of each part, by boundary and body\<close>
  qp_read :: "nat \<Rightarrow> string \<Rightarrow> string option"
    \<comment> \<open>at most so many bytes of \<^verbatim>\<open>quotedprintable.NewReader\<close>\<close>
  go_quote :: "string \<Rightarrow> string"
    \<comment> \<open>the verb \<^verbatim>\<open>%q\<close>\<close>

section \<open>Limits and tables\<close>

definition maxScriptSize :: nat where "maxScriptSize = 1024 * 1024"
definition maxPatternLen :: nat where "maxPatternLen = 1024"
definition maxKeyLen :: nat where "maxKeyLen = 4096"
definition maxListEntries :: nat where "maxListEntries = 1000"

definition supportedExtensions :: "string set" where
  "supportedExtensions =
     {''fileinto'', ''reject'', ''vacation'', ''vacation-seconds'', ''envelope'', ''body'',
      ''relational'', ''regex'', ''imap4flags'', ''copy'', ''mailbox'',
      ''comparator-i;octet'', ''comparator-i;ascii-casemap'', ''comparator-i;ascii-numeric''}"

datatype argKind = KNone | KString | KNumber | KStrList

datatype tagSpec = TagSpec (ts_kind: argKind) (ts_ext: string)

record cmdSpec =
  cs_ext :: string
  cs_tags :: "(string \<times> tagSpec) list"
  cs_pos :: "argKind list"

record parsedArgs =
  pa_tags :: "string \<rightharpoonup> sieve_value option"
  pa_pos :: "sieve_value list"

type_synonym env = "string set"

text \<open>
  An error is its format string with the strings it prints (numbers left out);
  \<open>Wrap\<close> is the verb \<^verbatim>\<open>%w\<close>.
\<close>

datatype compile_error =
    Errorf string "string list"
  | Wrap string compile_error
  | ParseFailed parse_error
  | Panic

definition pa_has :: "parsedArgs \<Rightarrow> string \<Rightarrow> bool" where
  "pa_has pa tag = (pa_tags pa tag \<noteq> None)"

definition pa_str :: "parsedArgs \<Rightarrow> string \<Rightarrow> string" where
  "pa_str pa tag =
     (case pa_tags pa tag of Some (Some (StringValue v _ _ _)) \<Rightarrow> v | _ \<Rightarrow> [])"

definition listOf :: "sieve_value option \<Rightarrow> string list" where
  "listOf v =
     (case v of
        Some (StringValue s _ _ _) \<Rightarrow> [s]
      | Some (ListValue vs) \<Rightarrow> vs
      | _ \<Rightarrow> [])"

definition fullArgs :: "command \<Rightarrow> sieve_value list" where
  "fullArgs cmd =
     (if cmd_tag cmd = [] then cmd_args cmd else TagValue (cmd_tag cmd) # cmd_args cmd)"

definition need :: "env \<Rightarrow> string \<Rightarrow> string \<Rightarrow> compile_error + unit" where
  "need e ext what = guard_res (ext \<noteq> [] \<and> ext \<notin> e) (Errorf ''%s requires: require %q;'' [what, ext])"

definition checkKind :: "sieve_value \<Rightarrow> argKind \<Rightarrow> compile_error + unit" where
  "checkKind v k =
     (case k of
        KString \<Rightarrow>
          (case v of
             StringValue s _ _ bare \<Rightarrow>
               if \<not> bare \<and> length s \<le> maxKeyLen * 16 then Inr () else Inl (Errorf ''expected a string'' [])
           | _ \<Rightarrow> Inl (Errorf ''expected a string'' []))
      | KNumber \<Rightarrow>
          (case v of
             NumberValue n \<Rightarrow> if n \<ge> 0 then Inr () else Inl (Errorf ''expected a non-negative number'' [])
           | _ \<Rightarrow> Inl (Errorf ''expected a non-negative number'' []))
      | KStrList \<Rightarrow>
          (case v of
             StringValue s _ _ bare \<Rightarrow>
               if \<not> bare \<and> length s \<le> maxKeyLen * 16 then Inr () else Inl (Errorf ''expected a string or string list'' [])
           | ListValue vs \<Rightarrow>
               if length vs > maxListEntries then Inl (Errorf ''string list longer than %d entries'' [])
               else each_res (\<lambda>s. guard_res (length s > maxKeyLen * 16) (Errorf ''string list element too long'' [])) vs
           | _ \<Rightarrow> Inl (Errorf ''expected a string or string list'' []))
      | KNone \<Rightarrow> Inr ())"

section \<open>Typing an argument sequence\<close>

text \<open>\<open>map_err f\<close> wraps an error as \<^verbatim>\<open>fmt.Errorf("...: %w", err)\<close> does.\<close>

definition map_err :: "('e \<Rightarrow> 'f) \<Rightarrow> 'e + 'a \<Rightarrow> 'f + 'a" where
  "map_err f r = map_sum f id r"

fun argsTyped ::
  "string \<Rightarrow> cmdSpec \<Rightarrow> env \<Rightarrow> sieve_value list \<Rightarrow> parsedArgs \<Rightarrow> compile_error + parsedArgs" where
  "argsTyped name spec e [] pa = Inr pa"
| "argsTyped name spec e (TagValue tv # rest) pa =
     (if pa_pos pa \<noteq> [] then Inl (Errorf ''%s: tagged argument :%s after positional arguments'' [name, tv])
      else
        (let tag = to_lower tv in
         case map_of (cs_tags spec) tag of
           None \<Rightarrow> Inl (Errorf ''%s: unknown tagged argument :%s'' [name, tv])
         | Some ts \<Rightarrow>
             (case need e (ts_ext ts) (name @ '' :'' @ tag) of
                Inl err \<Rightarrow> Inl err
              | Inr _ \<Rightarrow>
                  if pa_tags pa tag \<noteq> None then Inl (Errorf ''%s: duplicate tagged argument :%s'' [name, tag])
                  else if ts_kind ts = KNone
                  then argsTyped name spec e rest (pa\<lparr>pa_tags := (pa_tags pa)(tag \<mapsto> None)\<rparr>)
                  else
                    (case rest of
                       [] \<Rightarrow> Inl (Errorf ''%s: :%s needs an argument'' [name, tag])
                     | v # rest' \<Rightarrow>
                         (case checkKind v (ts_kind ts) of
                            Inl err \<Rightarrow> Inl (Wrap (name @ '': :'' @ tag @ '': %w'') err)
                          | Inr _ \<Rightarrow>
                              argsTyped name spec e rest'
                                (pa\<lparr>pa_tags := (pa_tags pa)(tag \<mapsto> Some v)\<rparr>))))))"
| "argsTyped name spec e (v # rest) pa =
     argsTyped name spec e rest (pa\<lparr>pa_pos := pa_pos pa @ [v]\<rparr>)"

fun checkPositional ::
  "string \<Rightarrow> nat \<Rightarrow> sieve_value list \<Rightarrow> argKind list \<Rightarrow> compile_error + unit" where
  "checkPositional name idx (v # vs) (k # ks) =
     (case checkKind v k of
        Inl err \<Rightarrow> Inl (Wrap (name @ '': argument %d: %w'') err)
      | Inr _ \<Rightarrow> checkPositional name (idx + 1) vs ks)"
| "checkPositional name idx _ _ = Inr ()"

definition parseArgs ::
  "string \<Rightarrow> sieve_value list \<Rightarrow> cmdSpec \<Rightarrow> env \<Rightarrow> compile_error + parsedArgs" where
  "parseArgs name args spec e =
     res_bind (need e (cs_ext spec) name) (\<lambda>_.
     res_bind (argsTyped name spec e args \<lparr>pa_tags = Map.empty, pa_pos = []\<rparr>) (\<lambda>pa.
     if length (pa_pos pa) \<noteq> length (cs_pos spec)
     then Inl (Errorf ''%s: expected %d positional argument(s), got %d'' [name])
     else
       res_bind (checkPositional name 0 (pa_pos pa) (cs_pos spec)) (\<lambda>_. Inr pa)))"

text \<open>The index expression \<^verbatim>\<open>pa.pos[i]\<close> and the assertion \<^verbatim>\<open>.(*StringValue).Value\<close>.\<close>

definition pos_at :: "parsedArgs \<Rightarrow> nat \<Rightarrow> compile_error + sieve_value" where
  "pos_at pa i = (if i < length (pa_pos pa) then Inr (pa_pos pa ! i) else Inl Panic)"

definition as_string :: "sieve_value \<Rightarrow> compile_error + string" where
  "as_string v = (case v of StringValue s _ _ _ \<Rightarrow> Inr s | _ \<Rightarrow> Inl Panic)"

definition as_number :: "sieve_value option option \<Rightarrow> compile_error + int" where
  "as_number v = (case v of Some (Some (NumberValue n)) \<Rightarrow> Inr n | _ \<Rightarrow> Inl Panic)"

definition tag_value :: "parsedArgs \<Rightarrow> string \<Rightarrow> sieve_value option" where
  \<comment> \<open>\<^verbatim>\<open>pa.tags[tag]\<close>, nil when the tag is absent or takes no argument\<close>
  "tag_value pa tag = (case pa_tags pa tag of None \<Rightarrow> None | Some v \<Rightarrow> v)"

definition plain :: "cmdSpec" where
  "plain = \<lparr>cs_ext = [], cs_tags = [], cs_pos = []\<rparr>"

definition cmdSpecs :: "(string \<times> cmdSpec) list" where
  "cmdSpecs =
     [(''require'', plain\<lparr>cs_pos := [KStrList]\<rparr>),
      (''stop'', plain),
      (''discard'', plain),
      (''keep'', plain\<lparr>cs_tags := [(''flags'', TagSpec KStrList ''imap4flags'')]\<rparr>),
      (''fileinto'', \<lparr>cs_ext = ''fileinto'',
         cs_tags = [(''copy'', TagSpec KNone ''copy''), (''flags'', TagSpec KStrList ''imap4flags''),
                    (''create'', TagSpec KNone ''mailbox'')],
         cs_pos = [KString]\<rparr>),
      (''redirect'', plain\<lparr>cs_pos := [KString], cs_tags := [(''copy'', TagSpec KNone ''copy'')]\<rparr>),
      (''reject'', plain\<lparr>cs_ext := ''reject'', cs_pos := [KString]\<rparr>),
      (''vacation'', \<lparr>cs_ext = ''vacation'',
         cs_tags = [(''days'', TagSpec KNumber []), (''seconds'', TagSpec KNumber ''vacation-seconds''),
                    (''subject'', TagSpec KString []), (''from'', TagSpec KString []),
                    (''addresses'', TagSpec KStrList []), (''mime'', TagSpec KNone []),
                    (''handle'', TagSpec KString [])],
         cs_pos = [KString]\<rparr>),
      (''addflag'', plain\<lparr>cs_ext := ''imap4flags'', cs_pos := [KStrList]\<rparr>),
      (''setflag'', plain\<lparr>cs_ext := ''imap4flags'', cs_pos := [KStrList]\<rparr>),
      (''removeflag'', plain\<lparr>cs_ext := ''imap4flags'', cs_pos := [KStrList]\<rparr>)]"

definition matchTags :: "(string \<times> tagSpec) list \<Rightarrow> (string \<times> tagSpec) list" where
  \<comment> \<open>the entries of \<open>extra\<close> are written last, so they come first in the list\<close>
  "matchTags extra = extra @
     [(''is'', TagSpec KNone []), (''contains'', TagSpec KNone []), (''matches'', TagSpec KNone []),
      (''regex'', TagSpec KNone ''regex''), (''count'', TagSpec KString ''relational''),
      (''value'', TagSpec KString ''relational''), (''comparator'', TagSpec KString [])]"

definition addrPartTags :: "(string \<times> tagSpec) list" where
  "addrPartTags =
     [(''localpart'', TagSpec KNone []), (''domain'', TagSpec KNone []), (''all'', TagSpec KNone [])]"

definition testSpecs :: "(string \<times> cmdSpec) list" where
  "testSpecs =
     [(''exists'', plain\<lparr>cs_pos := [KStrList]\<rparr>),
      (''size'', plain\<lparr>cs_tags := [(''over'', TagSpec KNumber []), (''under'', TagSpec KNumber [])]\<rparr>),
      (''header'', plain\<lparr>cs_tags := matchTags [], cs_pos := [KStrList, KStrList]\<rparr>),
      (''address'', plain\<lparr>cs_tags := matchTags addrPartTags, cs_pos := [KStrList, KStrList]\<rparr>),
      (''envelope'', \<lparr>cs_ext = ''envelope'', cs_tags = matchTags addrPartTags,
         cs_pos = [KStrList, KStrList]\<rparr>),
      (''body'', \<lparr>cs_ext = ''body'',
         cs_tags = matchTags [(''raw'', TagSpec KNone []), (''text'', TagSpec KNone []),
                              (''content'', TagSpec KStrList [])],
         cs_pos = [KStrList]\<rparr>),
      (''hasflag'', \<lparr>cs_ext = ''imap4flags'', cs_tags = matchTags [], cs_pos = [KStrList]\<rparr>)]"

section \<open>Tests\<close>

record matchSpec =
  ms_Type :: string
  ms_Relation :: string
  ms_Comparator :: string

datatype test =
    HeaderTest (ht_Headers: "string list") (ht_KeyList: "string list") (ht_MatchType: string)
      (ht_Relation: string) (ht_Comparator: string)
  | AddressTest "string list" string matchSpec "string list"
  | EnvelopeTest "string list" string matchSpec "string list"
  | BodyTest string "string list" matchSpec "string list"
  | HasflagTest matchSpec "string list"
  | SizeTest string int
  | AllOfTest "test list"
  | AnyOfTest "test list"
  | ConstTest bool
  | NotTest test
  | ExistsTest "string list"

definition normComparator :: "string \<Rightarrow> compile_error + string" where
  "normComparator c =
     (if c = [] then Inr ''i;ascii-casemap''
      else if c = ''i;ascii-casemap'' \<or> c = ''i;octet'' \<or> c = ''i;ascii-numeric'' then Inr c
      else Inl (Errorf ''unsupported comparator %q'' [c]))"

text \<open>The loops that look for one of several tags: the last one present, and how many are.\<close>

definition last_tag :: "parsedArgs \<Rightarrow> string list \<Rightarrow> string \<Rightarrow> string" where
  "last_tag pa ts d = fold (\<lambda>t acc. if pa_has pa t then t else acc) ts d"

definition count_tags :: "parsedArgs \<Rightarrow> string list \<Rightarrow> nat" where
  "count_tags pa ts = length (filter (pa_has pa) ts)"

definition matchTypes :: "string list" where
  "matchTypes = [''is'', ''contains'', ''matches'', ''regex'', ''count'', ''value'']"

definition relations :: "string list" where
  "relations = [''gt'', ''ge'', ''lt'', ''le'', ''eq'', ''ne'']"

definition checkKey :: "golib \<Rightarrow> string \<Rightarrow> string \<Rightarrow> string \<Rightarrow> compile_error + unit" where
  "checkKey lib name type k =
     (if type = ''regex'' then
        (if length k > maxPatternLen then Inl (Errorf ''%s: regex longer than %d bytes'' [name])
         else guard_res (\<not> regexp_compile lib k) (Errorf ''%s: invalid regex %q: %v'' [name, k]))
      else if type = ''matches'' then guard_res (length k > maxPatternLen) (Errorf ''%s: :matches key longer than %d bytes'' [name])
      else Inr ())"

definition buildMatch ::
  "golib \<Rightarrow> string \<Rightarrow> parsedArgs \<Rightarrow> env \<Rightarrow> string list \<Rightarrow> compile_error + matchSpec" where
  "buildMatch lib name pa e keys =
     (let type = last_tag pa matchTypes ''is'';
          rel = (if type = ''count'' \<or> type = ''value'' then to_lower (pa_str pa type) else [])
      in
      res_bind (guard_res (count_tags pa matchTypes > 1) (Errorf ''%s: more than one match type'' [name])) (\<lambda>_.
      res_bind (guard_res ((type = ''count'' \<or> type = ''value'') \<and> rel \<notin> set relations)
                  (Errorf ''%s: invalid relational operator %q'' [name, pa_str pa type])) (\<lambda>_.
      res_bind (map_err (Wrap (name @ '': %w'')) (normComparator (pa_str pa ''comparator''))) (\<lambda>cmp.
      res_bind (if cmp = ''i;ascii-numeric''
                then
                  res_bind (need e ''comparator-i;ascii-numeric'' name) (\<lambda>_.
                  guard_res (type = ''contains'' \<or> type = ''matches'' \<or> type = ''regex'')
                    (Errorf ''%s: comparator i;ascii-numeric does not support :%s'' [name, type]))
                else Inr ()) (\<lambda>_.
      res_bind (each_res (checkKey lib name type) keys) (\<lambda>_.
      Inr \<lparr>ms_Type = type, ms_Relation = rel, ms_Comparator = cmp\<rparr>))))))"

definition identName :: "sieve_value list \<Rightarrow> compile_error + string" where
  "identName args =
     (case args of
        [] \<Rightarrow> Inl (Errorf ''missing test'' [])
      | StringValue v lit quoted _ # _ \<Rightarrow>
          if quoted \<or> lit then Inl (Errorf ''unsupported test: expected a test name'' []) else Inr (to_lower v)
      | _ \<Rightarrow> Inl (Errorf ''unsupported test: expected a test name'' []))"

definition addrPartOf :: "parsedArgs \<Rightarrow> compile_error + string" where
  "addrPartOf pa =
     (if count_tags pa [''localpart'', ''domain'', ''all''] > 1 then Inl (Errorf ''more than one address part'' [])
      else Inr (last_tag pa [''localpart'', ''domain'', ''all''] ''all''))"

definition envelopePart :: "string \<Rightarrow> compile_error + unit" where
  "envelopePart p =
     guard_res (to_lower p \<noteq> ''from'' \<and> to_lower p \<noteq> ''to'') (Errorf ''envelope: unsupported envelope part %q'' [p])"

definition buildSize :: "parsedArgs \<Rightarrow> compile_error + test" where
  "buildSize pa =
     (let over = pa_has pa ''over''; under = pa_has pa ''under'' in
      if over = under then Inl (Errorf ''size test needs exactly one of :over or :under'' [])
      else if over
      then res_bind (as_number (pa_tags pa ''over'')) (\<lambda>n. Inr (SizeTest '':over'' n))
      else res_bind (as_number (pa_tags pa ''under'')) (\<lambda>n. Inr (SizeTest '':under'' n)))"

definition buildEnvelope ::
  "parsedArgs \<Rightarrow> matchSpec \<Rightarrow> string list \<Rightarrow> compile_error + test" where
  "buildEnvelope pa ms keys =
     res_bind (map_err (Wrap ''envelope: %w'') (addrPartOf pa)) (\<lambda>part.
     res_bind (pos_at pa 0) (\<lambda>v.
     let parts = listOf (Some v) in
     res_bind (each_res envelopePart parts) (\<lambda>_.
     Inr (EnvelopeTest (map to_lower parts) part ms keys))))"

definition buildBody ::
  "parsedArgs \<Rightarrow> matchSpec \<Rightarrow> string list \<Rightarrow> compile_error + test" where
  "buildBody pa ms keys =
     (let modes = [''raw'', ''text'', ''content'']; mode = last_tag pa modes ''text'' in
      if count_tags pa modes > 1 then Inl (Errorf ''body: only one of :raw, :text, :content allowed'' [])
      else
        Inr (BodyTest mode
               (if mode = ''content'' then listOf (tag_value pa ''content'') else []) ms keys))"

definition buildMatched ::
  "string \<Rightarrow> parsedArgs \<Rightarrow> matchSpec \<Rightarrow> string list \<Rightarrow> compile_error + test" where
  "buildMatched name pa ms keys =
     (if name = ''header'' then
        res_bind (pos_at pa 0) (\<lambda>v.
        Inr (HeaderTest (listOf (Some v)) keys ('':'' @ ms_Type ms) (ms_Relation ms) (ms_Comparator ms)))
      else if name = ''address'' then
        res_bind (map_err (Wrap ''address: %w'') (addrPartOf pa)) (\<lambda>part.
        res_bind (pos_at pa 0) (\<lambda>v. Inr (AddressTest (listOf (Some v)) part ms keys)))
      else if name = ''envelope'' then buildEnvelope pa ms keys
      else if name = ''body'' then buildBody pa ms keys
      else if name = ''hasflag'' then Inr (HasflagTest ms keys)
      else Inl (Errorf ''unsupported test %q'' [name]))"

text \<open>The tests that are neither constants nor built of other tests.\<close>

definition buildLeaf :: "golib \<Rightarrow> string \<Rightarrow> sieve_value list \<Rightarrow> env \<Rightarrow> compile_error + test" where
  "buildLeaf lib name rest e =
     (case map_of testSpecs name of
        None \<Rightarrow> Inl (Errorf ''unsupported test %q'' [name])
      | Some spec \<Rightarrow>
          res_bind (parseArgs (name @ '' test'') rest spec e) (\<lambda>pa.
          if name = ''exists'' then res_bind (pos_at pa 0) (\<lambda>v. Inr (ExistsTest (listOf (Some v))))
          else if name = ''size'' then buildSize pa
          else
            res_bind (pos_at pa (length (pa_pos pa) - 1)) (\<lambda>kv.
            let keys = listOf (Some kv) in
            res_bind (buildMatch lib name pa e keys) (\<lambda>ms.
            buildMatched name pa ms keys))))"

function buildTest :: "golib \<Rightarrow> sieve_value list \<Rightarrow> env \<Rightarrow> nat \<Rightarrow> compile_error + test"
  and buildTests ::
    "golib \<Rightarrow> sieve_value list list \<Rightarrow> env \<Rightarrow> nat \<Rightarrow> compile_error + test list"
where
  "buildTest lib args e depth =
     (if depth > max_nesting then Inl (Errorf ''tests nested deeper than %d levels'' [])
      else
        (case identName args of
           Inl err \<Rightarrow> Inl err
         | Inr name \<Rightarrow>
             (let rest = tl args in
              if name = ''true'' \<or> name = ''false'' then
                (if rest \<noteq> [] then Inl (Errorf ''%s test takes no arguments'' [name])
                 else Inr (ConstTest (name = ''true'')))
              else if name = ''not'' then
                (case buildTest lib rest e (depth + 1) of
                   Inl err \<Rightarrow> Inl err
                 | Inr inner \<Rightarrow> Inr (NotTest inner))
              else if name = ''allof'' \<or> name = ''anyof'' then
                (case rest of
                   [TestListValue tests] \<Rightarrow>
                     if tests = [] then Inl (Errorf ''%s needs a parenthesised test list'' [name])
                     else if length tests > maxListEntries then Inl (Errorf ''%s: more than %d tests'' [name])
                     else
                       (case buildTests lib tests e (depth + 1) of
                          Inl err \<Rightarrow> Inl err
                        | Inr subs \<Rightarrow>
                            Inr (if name = ''allof'' then AllOfTest subs else AnyOfTest subs))
                 | _ \<Rightarrow> Inl (Errorf ''%s needs a parenthesised test list'' [name]))
              else buildLeaf lib name rest e)))"
| "buildTests lib [] e depth = Inr []"
| "buildTests lib (sub # subs) e depth =
     (case buildTest lib sub e depth of
        Inl err \<Rightarrow> Inl err
      | Inr t \<Rightarrow>
          (case buildTests lib subs e depth of
             Inl err \<Rightarrow> Inl err
           | Inr ts \<Rightarrow> Inr (t # ts)))"
  by pat_completeness auto
termination
  by (relation "inv_image (less_than <*lex*> less_than)
        (case_sum (\<lambda>(_, _, _, depth). (Suc max_nesting - depth, 0))
                  (\<lambda>(_, tests, _, depth). (Suc max_nesting - depth, Suc (length tests))))")
    auto

declare buildTest.simps [simp del]

section \<open>Scripts\<close>

definition vacationEnv :: "command \<Rightarrow> env \<Rightarrow> env" where
  "vacationEnv cmd e =
     (if cmd_name cmd = ''vacation'' \<and> ''vacation-seconds'' \<in> e \<and> ''vacation'' \<notin> e
      then {''vacation'', ''vacation-seconds''} else e)"

definition compileCommand :: "golib \<Rightarrow> command \<Rightarrow> env \<Rightarrow> compile_error + parsedArgs" where
  "compileCommand lib cmd e =
     (case map_of cmdSpecs (cmd_name cmd) of
        None \<Rightarrow> Inl (Errorf ''unknown command %q'' [cmd_name cmd])
      | Some spec \<Rightarrow>
          if cmd_name cmd = ''require'' then Inl (Errorf ''unknown command %q'' [cmd_name cmd])
          else if cmd_block cmd \<noteq> None then Inl (Errorf ''%s: unexpected block'' [cmd_name cmd])
          else
            res_bind (parseArgs (cmd_name cmd) (fullArgs cmd) spec (vacationEnv cmd e)) (\<lambda>pa.
            if cmd_name cmd = ''redirect'' then
              res_bind (pos_at pa 0) (\<lambda>v. res_bind (as_string v) (\<lambda>addr.
              if mail_ParseAddress lib addr = None then Inl (Errorf ''invalid redirect address: %s'' [addr]) else Inr pa))
            else if cmd_name cmd = ''vacation'' then
              (if pa_has pa ''days'' \<and> pa_has pa ''seconds'' then Inl (Errorf ''vacation: :days and :seconds are mutually exclusive'' []) else Inr pa)
            else Inr pa))"

fun requireNames :: "sieve_value list \<Rightarrow> compile_error + string list" where
  "requireNames [] = Inr []"
| "requireNames (StringValue v _ _ bare # args) =
     (if bare then Inl (Errorf ''require: invalid argument'' []) else res_bind (requireNames args) (\<lambda>vs. Inr (v # vs)))"
| "requireNames (ListValue vs # args) = res_bind (requireNames args) (\<lambda>ws. Inr (vs @ ws))"
| "requireNames (_ # args) = Inl (Errorf ''require: invalid argument'' [])"

definition requireExtensions :: "command \<Rightarrow> compile_error + string list" where
  "requireExtensions cmd =
     res_bind (requireNames (fullArgs cmd)) (\<lambda>exts.
     if exts = [] then Inl (Errorf ''require: missing extension name'' [])
     else
       res_bind (each_res (\<lambda>ext. guard_res (ext \<notin> supportedExtensions) (Errorf ''require: unsupported extension %q'' [ext])) exts)
         (\<lambda>_. Inr exts))"

lemma block_size: "cmd_block cmd = Some block \<Longrightarrow> size_list size block < size cmd"
  by (cases cmd) auto

definition checkBranch :: "golib \<Rightarrow> command \<Rightarrow> env \<Rightarrow> compile_error + unit" where
  \<comment> \<open>the arguments of if, elsif and else\<close>
  "checkBranch lib cmd e =
     (if cmd_name cmd = ''else''
      then guard_res (fullArgs cmd \<noteq> []) (Errorf ''else takes no arguments'' [])
      else
        map_err (Wrap (cmd_name cmd @ '': %w''))
          (res_bind (buildTest lib (fullArgs cmd) e 0) (\<lambda>_. Inr ())))"

function checkCommands :: "golib \<Rightarrow> command list \<Rightarrow> env \<Rightarrow> nat \<Rightarrow> compile_error + unit"
  and checkLoop :: "golib \<Rightarrow> command list \<Rightarrow> env \<Rightarrow> nat \<Rightarrow> string \<Rightarrow> compile_error + unit"
  and checkCommand :: "golib \<Rightarrow> command \<Rightarrow> env \<Rightarrow> nat \<Rightarrow> string \<Rightarrow> compile_error + unit"
where
  "checkCommands lib cmds e depth =
     (if depth > max_nesting then Inl (Errorf ''blocks nested deeper than %d levels'' [])
      else checkLoop lib cmds e depth [])"
| "checkLoop lib [] e depth prev = Inr ()"
| "checkLoop lib (cmd # cmds) e depth prev =
     res_bind (checkCommand lib cmd e depth prev) (\<lambda>_. checkLoop lib cmds e depth (cmd_name cmd))"
| "checkCommand lib cmd e depth prev =
     (let name = cmd_name cmd in
      if name = ''if'' \<or> name = ''elsif'' \<or> name = ''else'' then
        (if name \<noteq> ''if'' \<and> prev \<noteq> ''if'' \<and> prev \<noteq> ''elsif''
         then Inl (Errorf ''%s without preceding if'' [name])
         else
           (case cmd_block cmd of
              None \<Rightarrow> Inl (Errorf ''%s: missing block'' [name])
            | Some block \<Rightarrow>
                res_bind (checkBranch lib cmd e) (\<lambda>_. checkCommands lib block e (depth + 1))))
      else if name = ''require''
      then Inl (Errorf ''require must be at the start of the script'' [])
      else res_bind (compileCommand lib cmd e) (\<lambda>_. Inr ()))"
  by pat_completeness auto
termination
proof (relation "measure (\<lambda>x. case x of
      Inl (_, cmds, _, _) \<Rightarrow> 3 * size_list size cmds + 1
    | Inr (Inl (_, cmds, _, _, _)) \<Rightarrow> 3 * size_list size cmds
    | Inr (Inr (_, cmd, _, _, _)) \<Rightarrow> 3 * size cmd + 2)", goal_cases)
  case (5 lib cmd e depth prev name block)
  then show ?case using block_size by force
qed auto

declare checkCommands.simps [simp del] checkCommand.simps [simp del]

record script =
  s_Commands :: "command list"
  s_exts :: "env option"

fun requires :: "command list \<Rightarrow> env \<Rightarrow> compile_error + (env \<times> command list)" where
  \<comment> \<open>the loop over the leading require commands\<close>
  "requires [] e = Inr (e, [])"
| "requires (cmd # cmds) e =
     (if cmd_name cmd \<noteq> ''require'' then Inr (e, cmd # cmds)
      else if cmd_block cmd \<noteq> None then Inl (Errorf ''%s: unexpected block'' [''require''])
      else res_bind (requireExtensions cmd) (\<lambda>exts. requires cmds (e \<union> set exts)))"

definition checkScript :: "golib \<Rightarrow> script \<Rightarrow> compile_error + env" where
  "checkScript lib s =
     res_bind (requires (s_Commands s) {}) (\<lambda>(e, cmds).
     res_bind (checkCommands lib cmds e 0) (\<lambda>_. Inr e))"

definition Validate :: "golib \<Rightarrow> script \<Rightarrow> compile_error + script" where
  "Validate lib s = res_bind (checkScript lib s) (\<lambda>e. Inr (s\<lparr>s_exts := Some e\<rparr>))"

definition Compile :: "golib \<Rightarrow> string \<Rightarrow> compile_error + script" where
  "Compile lib source =
     (if length source > maxScriptSize then Inl (Errorf ''script larger than %d bytes'' [])
      else
        (case Parse source of
           Inl err \<Rightarrow> Inl (ParseFailed err)
         | Inr cmds \<Rightarrow> Validate lib \<lparr>s_Commands = cmds, s_exts = None\<rparr>))"

definition CheckRequires :: "script \<Rightarrow> compile_error + unit" where
  "CheckRequires s =
     each_res (\<lambda>cmd.
       if cmd_name cmd = ''require''
       then (case requireExtensions cmd of Inl err \<Rightarrow> Inl err | Inr _ \<Rightarrow> Inr ())
       else Inr ()) (s_Commands s)"

end
