(* ===== verification/Sieve_Interp.thy ===== *)
theory Sieve_Interp
  imports Sieve_Compile Sieve_Glob
begin

text \<open>
  The Sieve interpreter (\<^verbatim>\<open>src/internal/sieve/interpreter.go\<close> and
  \<^verbatim>\<open>src/internal/sieve/match.go\<close>): tests, actions and the execution of a script.

  The fields of \<^verbatim>\<open>Interpreter\<close> that a run changes are the record \<open>interp\<close>, passed
  through every function; what a run only reads (library, message, extensions,
  clock) is the record \<open>run\<close>. \<^verbatim>\<open>MessageContext.Headers\<close> is an association list:
  its order is the order in which one run's loops over the Go map visit the
  names, which Go leaves open. The clock is a predicate on the number of
  operations charged so far: \<open>r_expired r n\<close> says that the deadline has passed
  when the \<open>n\<close>-th operation is charged. The predefined variables are left out:
  nothing reads them.
\<close>

section \<open>Messages, actions and state\<close>

record message =
  mc_From :: string
  mc_To :: "string list"
  mc_Headers :: "(string \<times> string list) list"
  mc_Body :: string
  mc_Size :: int
  mc_BodyIsFullMessage :: bool

record vacation =
  vc_Subject :: string
  vc_Body :: string
  vc_Days :: int
  vc_Seconds :: int
  vc_SecondsSet :: bool
  vc_Addresses :: "string list"
  vc_From :: string
  vc_Mime :: bool
  vc_Handle :: string

datatype action =
    KeepAction string
  | FileintoAction string bool string
  | RejectAction string
  | DiscardAction
  | RedirectAction string bool
  | StopAction
  | VacationAction vacation

record interp =
  i_redirected :: "string list"
  i_stopped :: bool
  i_flags :: "string list"
  i_ops :: nat
  i_sinceClock :: nat
  i_vacHandles :: "string set"

record run =
  r_lib :: golib
  r_msg :: message
  r_exts :: env
  r_expired :: "nat \<Rightarrow> bool"

datatype run_error =
    OpLimit
  | TimeLimit
  | GlobLimit
  | RunErrorf string "string list"
  | CompileErr compile_error

type_synonym 'a iresult = "run_error + ('a \<times> interp)"

definition maxRegexInput :: nat where "maxRegexInput = 256 * 1024"
definition maxBodyScan :: nat where "maxBodyScan = 1024 * 1024"
definition maxMIMEDepth :: nat where "maxMIMEDepth = 8"
definition maxMIMEParts :: nat where "maxMIMEParts = 256"
definition maxFlags :: nat where "maxFlags = 64"
definition maxRedirects :: nat where "maxRedirects = 16"
definition maxActions :: nat where "maxActions = 256"
definition maxRunOps :: nat where "maxRunOps = 200000"
definition MaxVacationDays :: int where "MaxVacationDays = 3650"

text \<open>A computation of the compiler inside the interpreter.\<close>

definition compiled :: "compile_error + 'a \<Rightarrow> run_error + 'a" where
  "compiled r = map_sum CompileErr id r"

section \<open>Matching\<close>

definition tick :: "run \<Rightarrow> nat \<Rightarrow> interp \<Rightarrow> unit iresult" where
  "tick r n s =
     (let ops = i_ops s + n in
      if ops > maxRunOps then Inl OpLimit
      else
        (let since = i_sinceClock s + n in
         if since \<ge> 256 then
           (if r_expired r ops then Inl TimeLimit
            else Inr ((), s\<lparr>i_ops := ops, i_sinceClock := 0\<rparr>))
         else Inr ((), s\<lparr>i_ops := ops, i_sinceClock := since\<rparr>)))"

definition matchOne ::
  "run \<Rightarrow> matchSpec \<Rightarrow> string \<Rightarrow> string \<Rightarrow> string \<Rightarrow> string \<Rightarrow> string \<Rightarrow> bool \<Rightarrow> run_error + bool" where
  "matchOne r ms cmp nv nk rawV rawK folded =
     (if ms_Type ms = ''is'' then
        (if cmp = ''i;ascii-numeric'' then Inr (numericCompare rawV rawK = 0) else Inr (nv = nk))
      else if ms_Type ms = ''contains'' then Inr (str_contains nv nk)
      else if ms_Type ms = ''matches'' then map_sum (\<lambda>_. GlobLimit) id (globMatch nk nv)
      else if ms_Type ms = ''regex'' then
        (let v = (if length rawV > maxRegexInput then take maxRegexInput rawV else rawV);
             pat = (if folded then ''(?i)'' @ rawK else rawK)
         in if regexp_compile (r_lib r) pat then Inr (regexp_match (r_lib r) pat v)
            else Inl (RunErrorf ''invalid regex pattern: %w'' []))
      else if ms_Type ms = ''value'' then
        (let c = (if cmp = ''i;ascii-numeric'' then numericCompare rawV rawK else str_compare nv nk)
         in Inr (relationHolds (ms_Relation ms) c))
      else Inl (RunErrorf ''unsupported match type %q'' [ms_Type ms]))"

text \<open>The loops of \<^verbatim>\<open>matchValues\<close>: \<open>countKeys\<close> for \<^verbatim>\<open>:count\<close>, \<open>matchKeys\<close> over the
  keys for one value, \<open>matchEach\<close> over the values.\<close>

fun countKeys :: "run \<Rightarrow> string \<Rightarrow> string \<Rightarrow> string list \<Rightarrow> interp \<Rightarrow> bool iresult" where
  "countKeys r rel n [] s = Inr (False, s)"
| "countKeys r rel n (k # ks) s =
     res_bind (tick r 1 s) (\<lambda>(_, s).
     if relationHolds rel (numericCompare n k) then Inr (True, s) else countKeys r rel n ks s)"

fun matchKeys ::
  "run \<Rightarrow> matchSpec \<Rightarrow> string \<Rightarrow> bool \<Rightarrow> string \<Rightarrow> string list \<Rightarrow> interp \<Rightarrow> bool iresult" where
  "matchKeys r ms cmp folded v [] s = Inr (False, s)"
| "matchKeys r ms cmp folded v (k # ks) s =
     (let norm = (\<lambda>x. if folded then asciiLower x else x) in
      res_bind (tick r 1 s) (\<lambda>(_, s).
      res_bind (matchOne r ms cmp (norm v) (norm k) v k folded) (\<lambda>ok.
      if ok then Inr (True, s) else matchKeys r ms cmp folded v ks s)))"

fun matchEach ::
  "run \<Rightarrow> matchSpec \<Rightarrow> string \<Rightarrow> bool \<Rightarrow> string list \<Rightarrow> string list \<Rightarrow> interp \<Rightarrow> bool iresult" where
  "matchEach r ms cmp folded [] keys s = Inr (False, s)"
| "matchEach r ms cmp folded (v # vs) keys s =
     res_bind (matchKeys r ms cmp folded v keys s) (\<lambda>(ok, s).
     if ok then Inr (True, s) else matchEach r ms cmp folded vs keys s)"

definition matchValues ::
  "run \<Rightarrow> matchSpec \<Rightarrow> string list \<Rightarrow> string list \<Rightarrow> interp \<Rightarrow> bool iresult" where
  "matchValues r ms values keys s =
     (let cmp = (if ms_Comparator ms = [] then ''i;ascii-casemap'' else ms_Comparator ms);
          folded = (cmp = ''i;ascii-casemap'')
      in if ms_Type ms = ''count''
         then countKeys r (ms_Relation ms) (itoa (length values)) keys s
         else matchEach r ms cmp folded values keys s)"

section \<open>Headers, addresses and bodies\<close>

definition headerValues :: "message \<Rightarrow> string list \<Rightarrow> string list" where
  "headerValues m names =
     concat (map (\<lambda>(key, vals). if \<exists>n \<in> set names. n \<noteq> [] \<and> equal_fold key n then vals else [])
       (mc_Headers m))"

definition decodedHeaderValues :: "golib \<Rightarrow> message \<Rightarrow> string list \<Rightarrow> string list" where
  "decodedHeaderValues lib m names =
     map (\<lambda>v. if str_contains v ''=?''
              then (case mime_DecodeHeader lib v of Some d \<Rightarrow> d | None \<Rightarrow> v) else v)
       (headerValues m names)"

definition splitAddr :: "string \<Rightarrow> string \<Rightarrow> string" where
  "splitAddr addr part =
     (let pos = last_index_byte addr CHR ''@'' in
      if part = ''localpart'' then (case pos of None \<Rightarrow> addr | Some i \<Rightarrow> take i addr)
      else if part = ''domain'' then (case pos of None \<Rightarrow> [] | Some i \<Rightarrow> drop (i + 1) addr)
      else addr)"

definition unbracket :: "string \<Rightarrow> string" where
  "unbracket a = trim_suffix (trim_prefix a ''<'') ''>''"

definition addressValues :: "golib \<Rightarrow> message \<Rightarrow> string list \<Rightarrow> string \<Rightarrow> string list" where
  "addressValues lib m headers part =
     concat (map (\<lambda>raw.
       case mail_ParseAddressList lib raw of
         None \<Rightarrow> []
       | Some as \<Rightarrow> map (\<lambda>a. splitAddr a part) as) (headerValues m headers))"

definition envelopeValues :: "message \<Rightarrow> string list \<Rightarrow> string \<Rightarrow> string list" where
  "envelopeValues m parts part =
     concat (map (\<lambda>p.
       if p = ''from'' then [splitAddr (unbracket (mc_From m)) part]
       else if p = ''to'' then map (\<lambda>a. splitAddr (unbracket a) part) (mc_To m)
       else []) parts)"

definition looksLikeFullMessage :: "golib \<Rightarrow> message \<Rightarrow> bool" where
  "looksLikeFullMessage lib m =
     (if mc_Headers m = [] \<or> mc_Body m = [] then False
      else
        (case mail_ReadMessage lib (mc_Body m) of
           None \<Rightarrow> False
         | Some keys \<Rightarrow>
             length keys = length (mc_Headers m) \<and>
             list_all (\<lambda>k. \<exists>(hk, _) \<in> set (mc_Headers m). equal_fold k hk) keys))"

definition messageBody :: "golib \<Rightarrow> message \<Rightarrow> string" where
  "messageBody lib m =
     (let body = (if length (mc_Body m) > maxBodyScan then take maxBodyScan (mc_Body m)
                  else mc_Body m)
      in if mc_BodyIsFullMessage m \<or> looksLikeFullMessage lib m then
           (case str_index body [CR, LF, CR, LF] of
              Some i \<Rightarrow> drop (i + 4) body
            | None \<Rightarrow>
                (case str_index body [LF, LF] of
                   Some i \<Rightarrow> drop (i + 2) body
                 | None \<Rightarrow> []))
         else body)"

fun firstHeader :: "(string \<times> string list) list \<Rightarrow> string \<Rightarrow> string" where
  "firstHeader [] name = []"
| "firstHeader ((k, v) # hs) name =
     (if equal_fold k name \<and> v \<noteq> [] then hd v else firstHeader hs name)"

definition topHeader :: "message \<Rightarrow> string \<Rightarrow> string" where
  "topHeader m name = firstHeader (mc_Headers m) name"

text \<open>\<^verbatim>\<open>bytes.Map\<close> also rewrites invalid UTF-8, which no base64 text contains.\<close>

definition decodeCTE :: "golib \<Rightarrow> string \<Rightarrow> string \<Rightarrow> string" where
  "decodeCTE lib cte data =
     (let enc = to_lower (trim_space cte) in
      if enc = ''base64'' then
        (case b64_decode (filter (\<lambda>c. c \<notin> {CR, LF, SP, HT}) data) of
           Some out \<Rightarrow> out | None \<Rightarrow> data)
      else if enc = ''quoted-printable'' then
        (case qp_read lib maxBodyScan data of Some out \<Rightarrow> out | None \<Rightarrow> data)
      else data)"

text \<open>\<^verbatim>\<open>collectParts\<close>; the first number is how many levels are left,
  \<^verbatim>\<open>maxMIMEDepth - depth\<close>.\<close>

fun collectParts ::
  "golib \<Rightarrow> nat \<Rightarrow> string \<Rightarrow> string \<Rightarrow> string \<Rightarrow> (string \<times> string) list \<Rightarrow> (string \<times> string) list" where
  "collectParts lib levels ctype cte body out =
     (if length out \<ge> maxMIMEParts then out
      else
        (let parsed = (if ctype = [] then None else mime_ParseMediaType lib ctype);
             media = (case parsed of Some (t, _) \<Rightarrow> t | None \<Rightarrow> ''text/plain'');
             boundary = (case parsed of Some (_, b) \<Rightarrow> b | None \<Rightarrow> [])
         in case levels of
              Suc n \<Rightarrow>
                if has_prefix media ''multipart/'' \<and> boundary \<noteq> []
                then fold (\<lambda>(ct, ce, data) out. collectParts lib n ct ce (take maxBodyScan data) out)
                       (take maxMIMEParts (multipart_parts lib boundary body)) out
                else out @ [(to_lower media, decodeCTE lib cte body)]
            | 0 \<Rightarrow> out @ [(to_lower media, decodeCTE lib cte body)]))"

declare collectParts.simps [simp del]

definition typeMatches :: "string \<Rightarrow> string list \<Rightarrow> bool" where
  "typeMatches ctype types =
     (\<exists>t0 \<in> set types.
        let t = to_lower (trim_space t0) in
        t = [] \<or> t = ctype \<or> (\<not> str_contains t ''/'' \<and> has_prefix ctype (t @ ''/'')))"

definition bodyValues :: "golib \<Rightarrow> message \<Rightarrow> string \<Rightarrow> string list \<Rightarrow> string list" where
  "bodyValues lib m mode types =
     (let raw = messageBody lib m in
      if mode = ''raw'' then [raw]
      else
        (let parts = collectParts lib maxMIMEDepth (topHeader m ''Content-Type'')
                       (topHeader m ''Content-Transfer-Encoding'') raw []
         in map snd (filter (\<lambda>(ctype, _).
              \<not> (mode = ''text'' \<and> \<not> has_prefix ctype ''text/'') \<and>
              \<not> (mode = ''content'' \<and> \<not> typeMatches ctype types)) parts)))"

section \<open>Tests\<close>

definition evaluateHeaderTest ::
  "run \<Rightarrow> string list \<Rightarrow> string list \<Rightarrow> string \<Rightarrow> string \<Rightarrow> string \<Rightarrow> interp \<Rightarrow> bool iresult" where
  "evaluateHeaderTest r headers keys mtype rel comparator s =
     res_bind (compiled (normComparator comparator)) (\<lambda>cmp.
     let t = trim_prefix mtype '':'';
         ms = \<lparr>ms_Type = (if t = [] then ''is'' else t), ms_Relation = rel, ms_Comparator = cmp\<rparr>
     in matchValues r ms (decodedHeaderValues (r_lib r) (r_msg r) headers) keys s)"

definition evaluateSizeTest :: "message \<Rightarrow> string \<Rightarrow> int \<Rightarrow> bool" where
  "evaluateSizeTest m rel sz =
     (if rel = '':over'' \<or> rel = ''over'' then mc_Size m > sz
      else if rel = '':under'' \<or> rel = ''under'' then mc_Size m < sz
      else False)"

definition evaluateExists :: "message \<Rightarrow> string list \<Rightarrow> bool" where
  "evaluateExists m names =
     list_all (\<lambda>name. \<exists>(key, _) \<in> set (mc_Headers m). equal_fold key name) names"

fun evaluateTest :: "run \<Rightarrow> test \<Rightarrow> interp \<Rightarrow> bool iresult"
  and evaluateAll :: "run \<Rightarrow> test list \<Rightarrow> interp \<Rightarrow> bool iresult"
  and evaluateAny :: "run \<Rightarrow> test list \<Rightarrow> interp \<Rightarrow> bool iresult"
where
  "evaluateTest r t s =
     res_bind (tick r 1 s) (\<lambda>(_, s).
     case t of
       HeaderTest headers keys mtype rel cmp \<Rightarrow> evaluateHeaderTest r headers keys mtype rel cmp s
     | AddressTest headers part ms keys \<Rightarrow>
         matchValues r ms (addressValues (r_lib r) (r_msg r) headers part) keys s
     | EnvelopeTest parts part ms keys \<Rightarrow> matchValues r ms (envelopeValues (r_msg r) parts part) keys s
     | BodyTest mode types ms keys \<Rightarrow>
         matchValues r ms (bodyValues (r_lib r) (r_msg r) mode types) keys s
     | HasflagTest ms keys \<Rightarrow> matchValues r ms (i_flags s) keys s
     | SizeTest rel sz \<Rightarrow> Inr (evaluateSizeTest (r_msg r) rel sz, s)
     | AllOfTest ts \<Rightarrow> evaluateAll r ts s
     | AnyOfTest ts \<Rightarrow> evaluateAny r ts s
     | ConstTest b \<Rightarrow> Inr (b, s)
     | NotTest t' \<Rightarrow> res_bind (evaluateTest r t' s) (\<lambda>(b, s). Inr (\<not> b, s))
     | ExistsTest names \<Rightarrow> Inr (evaluateExists (r_msg r) names, s))"
| "evaluateAll r [] s = Inr (True, s)"
| "evaluateAll r (t # ts) s =
     res_bind (evaluateTest r t s) (\<lambda>(ok, s). if \<not> ok then Inr (False, s) else evaluateAll r ts s)"
| "evaluateAny r [] s = Inr (False, s)"
| "evaluateAny r (t # ts) s =
     res_bind (evaluateTest r t s) (\<lambda>(ok, s). if ok then Inr (True, s) else evaluateAny r ts s)"

declare evaluateTest.simps [simp del]

section \<open>Actions\<close>

definition validFlag :: "string \<Rightarrow> bool" where
  "validFlag f =
     (let body = trim_prefix f [BSLASH] in
      \<not> length f > 64 \<and> body \<noteq> [] \<and>
      list_all (\<lambda>c. \<not> (byte c \<le> 32 \<or> byte c \<ge> 127 \<or> c \<in> set ''(){%*]'' \<or> c = DQUOTE \<or> c = BSLASH)) body)"

text \<open>\<^verbatim>\<open>normFlags\<close>: \<open>normField\<close> treats one flag, \<open>seen\<close> being the lower-case forms of
  \<open>out\<close>; a full list ends both loops.\<close>

fun normFields :: "string list \<Rightarrow> string list \<Rightarrow> string list" where
  "normFields [] out = out"
| "normFields (f # fs) out =
     (if \<not> validFlag f \<or> to_lower f \<in> set (map to_lower out) then normFields fs out
      else if length out + 1 \<ge> maxFlags then out @ [f]
      else normFields fs (out @ [f]))"

definition normFlags :: "string list \<Rightarrow> string list" where
  "normFlags xs = normFields (concat (map str_fields xs)) []"

definition editFlags :: "string \<Rightarrow> string list \<Rightarrow> string list \<Rightarrow> string list" where
  "editFlags op xs flags =
     (let add = normFlags xs in
      if op = ''setflag'' then add
      else if op = ''addflag'' then normFlags (flags @ add)
      else if op = ''removeflag'' then filter (\<lambda>f. \<not> (\<exists>x \<in> set add. equal_fold f x)) flags
      else flags)"

definition actionFlags :: "interp \<Rightarrow> parsedArgs \<Rightarrow> string" where
  "actionFlags s pa =
     (if pa_has pa ''flags'' then str_join (normFlags (listOf (tag_value pa ''flags''))) '' ''
      else str_join (i_flags s) '' '')"

definition validFileintoFolder :: "string \<Rightarrow> bool" where
  "validFileintoFolder name =
     (if \<not> valid_utf8 name \<or> has_prefix name ''/'' \<or> has_prefix name [BSLASH] then False
      else if \<exists>x \<in> set (runes name). x < 32 \<or> x = 127 then False
      else \<not> (\<exists>seg \<in> set (fields_func (\<lambda>x. x = 47 \<or> x = 92) name). seg = ''..'' \<or> seg = ''.''))"

definition executeFileinto :: "parsedArgs \<Rightarrow> interp \<Rightarrow> action list iresult" where
  "executeFileinto pa s =
     res_bind (compiled (res_bind (pos_at pa 0) as_string)) (\<lambda>folder.
     if folder = [] then Inr ([], s)
     else if \<not> validFileintoFolder folder then Inr ([KeepAction (actionFlags s pa)], s)
     else Inr ([FileintoAction folder (pa_has pa ''copy'') (actionFlags s pa)], s))"

definition executeRedirect :: "run \<Rightarrow> parsedArgs \<Rightarrow> interp \<Rightarrow> action list iresult" where
  "executeRedirect r pa s =
     res_bind (compiled (res_bind (pos_at pa 0) as_string)) (\<lambda>address.
     if address = [] then Inr ([], s)
     else
       (case mail_ParseAddress (r_lib r) address of
          None \<Rightarrow> Inl (RunErrorf ''invalid redirect address: %s'' [address])
        | Some addr \<Rightarrow>
            if \<exists>prev \<in> set (i_redirected s). equal_fold prev addr then Inr ([], s)
            else Inr ([RedirectAction addr (pa_has pa ''copy'')],
                      s\<lparr>i_redirected := i_redirected s @ [addr]\<rparr>)))"

text \<open>The loop of \<^verbatim>\<open>executeVacation\<close> over the arguments; a tag whose value has the
  wrong type is passed over, as there.\<close>

fun vacationArgs :: "sieve_value list \<Rightarrow> vacation \<Rightarrow> vacation" where
  "vacationArgs [] v = v"
| "vacationArgs (TagValue t # args) v =
     (let tag = to_lower t in
      if tag = ''subject'' then
        (case args of
           StringValue x _ _ _ # args' \<Rightarrow> vacationArgs args' (v\<lparr>vc_Subject := x\<rparr>)
         | _ \<Rightarrow> vacationArgs args v)
      else if tag = ''from'' then
        (case args of
           StringValue x _ _ _ # args' \<Rightarrow> vacationArgs args' (v\<lparr>vc_From := x\<rparr>)
         | _ \<Rightarrow> vacationArgs args v)
      else if tag = ''handle'' then
        (case args of
           StringValue x _ _ _ # args' \<Rightarrow> vacationArgs args' (v\<lparr>vc_Handle := x\<rparr>)
         | _ \<Rightarrow> vacationArgs args v)
      else if tag = ''addresses'' then
        (case args of
           ListValue xs # args' \<Rightarrow> vacationArgs args' (v\<lparr>vc_Addresses := xs\<rparr>)
         | StringValue x _ _ _ # args' \<Rightarrow> vacationArgs args' (v\<lparr>vc_Addresses := [x]\<rparr>)
         | _ \<Rightarrow> vacationArgs args v)
      else if tag = ''days'' then
        (case args of
           NumberValue n # args' \<Rightarrow> vacationArgs args' (v\<lparr>vc_Days := n\<rparr>)
         | _ \<Rightarrow> vacationArgs args v)
      else if tag = ''seconds'' then
        (case args of
           NumberValue n # args' \<Rightarrow> vacationArgs args' (v\<lparr>vc_SecondsSet := True, vc_Seconds := n\<rparr>)
         | _ \<Rightarrow> vacationArgs args (v\<lparr>vc_SecondsSet := True\<rparr>))
      else if tag = ''mime'' then vacationArgs args (v\<lparr>vc_Mime := True\<rparr>)
      else vacationArgs args v)"
| "vacationArgs (StringValue x _ _ _ # args) v =
     vacationArgs args (if vc_Body v = [] then v\<lparr>vc_Body := x\<rparr> else v)"
| "vacationArgs (NumberValue n # args) v = vacationArgs args (v\<lparr>vc_Days := n\<rparr>)"
| "vacationArgs (_ # args) v = vacationArgs args v"

definition defaultVacation :: vacation where
  "defaultVacation = \<lparr>vc_Subject = [], vc_Body = [], vc_Days = 7, vc_Seconds = 0,
     vc_SecondsSet = False, vc_Addresses = [], vc_From = [], vc_Mime = False, vc_Handle = []\<rparr>"

definition clampVacation :: "vacation \<Rightarrow> vacation" where
  "clampVacation v =
     (let v = (if vc_Days v < 1 \<and> \<not> vc_SecondsSet v then v\<lparr>vc_Days := 1\<rparr> else v);
          v = (if vc_Days v > MaxVacationDays then v\<lparr>vc_Days := MaxVacationDays\<rparr> else v)
      in if vc_Seconds v > MaxVacationDays * 86400
         then v\<lparr>vc_Seconds := MaxVacationDays * 86400\<rparr> else v)"

definition vacationHandle :: "golib \<Rightarrow> vacation \<Rightarrow> string" where
  "vacationHandle lib v =
     (if vc_Handle v = []
      then [CHR 0x00] @ go_quote lib (vc_Subject v) @ [CHR 0x00] @ go_quote lib (vc_Body v) @
           [CHR 0x00] @ (if vc_Mime v then ''true'' else ''false'')
      else vc_Handle v)"

definition executeVacation :: "run \<Rightarrow> command \<Rightarrow> interp \<Rightarrow> action list \<times> interp" where
  "executeVacation r cmd s =
     (let v = clampVacation (vacationArgs (fullArgs cmd) defaultVacation) in
      if vc_Subject v = [] \<and> vc_Body v = [] then ([], s)
      else
        (let handle = vacationHandle (r_lib r) v in
         if handle \<in> i_vacHandles s then ([], s)
         else ([VacationAction v], s\<lparr>i_vacHandles := insert handle (i_vacHandles s)\<rparr>)))"

section \<open>Commands\<close>

text \<open>The part of \<^verbatim>\<open>executeCommand\<close> after the arguments are typed.\<close>

definition executeAction :: "run \<Rightarrow> command \<Rightarrow> parsedArgs \<Rightarrow> interp \<Rightarrow> action list iresult" where
  "executeAction r cmd pa s =
     (let name = cmd_name cmd in
      if name = ''stop'' then Inr ([StopAction], s\<lparr>i_stopped := True\<rparr>)
      else if name = ''discard'' then Inr ([DiscardAction], s)
      else if name = ''keep'' then Inr ([KeepAction (actionFlags s pa)], s)
      else if name = ''fileinto'' then executeFileinto pa s
      else if name = ''redirect'' then executeRedirect r pa s
      else if name = ''reject'' then
        res_bind (compiled (res_bind (pos_at pa 0) as_string)) (\<lambda>msg. Inr ([RejectAction msg], s))
      else if name = ''vacation'' then Inr (executeVacation r cmd s)
      else if name = ''addflag'' \<or> name = ''setflag'' \<or> name = ''removeflag'' then
        res_bind (compiled (pos_at pa 0)) (\<lambda>v.
        Inr ([], s\<lparr>i_flags := editFlags name (listOf (Some v)) (i_flags s)\<rparr>))
      else Inl (RunErrorf ''unknown command %q'' [name]))"

definition testHolds :: "run \<Rightarrow> command \<Rightarrow> interp \<Rightarrow> bool iresult" where
  \<comment> \<open>the test of a branch; \<^verbatim>\<open>else\<close> has none\<close>
  "testHolds r cmd s =
     (if cmd_name cmd \<noteq> ''else'' then
        res_bind (compiled (buildTest (r_lib r) (cmd_args cmd) (r_exts r) 0)) (\<lambda>t. evaluateTest r t s)
      else Inr (True, s))"

function executeCommands :: "run \<Rightarrow> command list \<Rightarrow> interp \<Rightarrow> action list iresult"
  and commandLoop :: "run \<Rightarrow> command list \<Rightarrow> bool \<Rightarrow> bool \<Rightarrow> action list \<Rightarrow> interp \<Rightarrow> action list iresult"
  and executeCommand :: "run \<Rightarrow> command \<Rightarrow> interp \<Rightarrow> action list iresult"
  and executeConditional :: "run \<Rightarrow> command \<Rightarrow> interp \<Rightarrow> (bool \<times> action list) iresult"
where
  "executeCommands r cmds s = commandLoop r cmds False False [] s"
| "commandLoop r [] inChain chainTaken all s = Inr (all, s)"
| "commandLoop r (cmd # cmds) inChain chainTaken all s =
     (if i_stopped s then Inr (all, s)
      else
        (let name = cmd_name cmd in
         if name = ''if'' then
           res_bind (executeConditional r cmd s) (\<lambda>((taken, actions), s).
           commandLoop r cmds True taken (all @ actions) s)
         else if name = ''elsif'' \<or> name = ''else'' then
           (if \<not> inChain then Inl (RunErrorf ''%s without preceding if'' [name])
            else
              (let inChain' = (name \<noteq> ''else'') in
               if chainTaken then commandLoop r cmds inChain' chainTaken all s
               else
                 res_bind (executeConditional r cmd s) (\<lambda>((taken, actions), s).
                 commandLoop r cmds inChain' taken (all @ actions) s)))
         else if name = ''require'' then commandLoop r cmds False chainTaken all s
         else
           res_bind (executeCommand r cmd s) (\<lambda>(actions, s).
           commandLoop r cmds False chainTaken (all @ actions) s)))"
| "executeCommand r cmd s =
     res_bind (tick r 1 s) (\<lambda>(_, s).
     let name = cmd_name cmd in
     if name = ''if'' \<or> name = ''elsif'' then
       res_bind (executeConditional r cmd s) (\<lambda>((_, actions), s). Inr (actions, s))
     else if name = ''require'' then Inr ([], s)
     else
       res_bind (compiled (compileCommand (r_lib r) cmd (r_exts r))) (\<lambda>pa. executeAction r cmd pa s))"
| "executeConditional r cmd s =
     res_bind (testHolds r cmd s) (\<lambda>(result, s).
     case cmd_block cmd of
       None \<Rightarrow> Inr ((result, []), s)
     | Some block \<Rightarrow>
         if \<not> result then Inr ((result, []), s)
         else
           res_bind (executeCommands r block s) (\<lambda>(actions, s). Inr ((True, actions), s)))"
  by pat_completeness auto
termination
proof (relation "measure (\<lambda>x. case x of
      Inl (Inl (_, cmds, _)) \<Rightarrow> 4 * size_list size cmds + 1
    | Inl (Inr (_, cmds, _, _, _, _)) \<Rightarrow> 4 * size_list size cmds
    | Inr (Inl (_, cmd, _)) \<Rightarrow> 4 * size cmd + 2
    | Inr (Inr (_, cmd, _)) \<Rightarrow> 4 * size cmd + 1)", goal_cases)
  case (9 r cmd s x result s' block)
  then show ?case using block_size by force
qed (simp_all add: block_size)

declare executeCommands.simps [simp del] executeCommand.simps [simp del]
  executeConditional.simps [simp del]

section \<open>Runs\<close>

definition is_delivery :: "action \<Rightarrow> bool" where
  "is_delivery a =
     (case a of KeepAction _ \<Rightarrow> True | FileintoAction _ _ _ \<Rightarrow> True | RedirectAction _ _ \<Rightarrow> True
      | _ \<Rightarrow> False)"

definition is_redirect :: "action \<Rightarrow> bool" where
  "is_redirect a = (case a of RedirectAction _ _ \<Rightarrow> True | _ \<Rightarrow> False)"

definition is_reject :: "action \<Rightarrow> bool" where
  "is_reject a = (case a of RejectAction _ \<Rightarrow> True | _ \<Rightarrow> False)"

definition checkActions :: "action list \<Rightarrow> run_error + unit" where
  "checkActions all =
     (if length all > maxActions then Inl (RunErrorf ''script produced more than %d actions'' [])
      else
        (let redirects = length (filter is_redirect all);
             delivers = (\<exists>a \<in> set all. is_delivery a);
             reject = (\<exists>a \<in> set all. is_reject a)
         in if redirects > maxRedirects
            then Inl (RunErrorf ''script redirects to more than %d addresses'' [])
            else if reject \<and> delivers
            then Inl (RunErrorf ''reject conflicts with keep/fileinto/redirect'' [])
            else Inr ()))"

fun copiesOnly :: "action list \<Rightarrow> bool \<Rightarrow> bool option" where
  \<comment> \<open>the loop of \<^verbatim>\<open>keepWithCopies\<close>: \<open>None\<close> for its early return\<close>
  "copiesOnly [] hasCopy = Some hasCopy"
| "copiesOnly (a # as) hasCopy =
     (case a of
        FileintoAction _ copy _ \<Rightarrow> if \<not> copy then None else copiesOnly as True
      | RedirectAction _ copy \<Rightarrow> if \<not> copy then None else copiesOnly as True
      | KeepAction _ \<Rightarrow> None
      | DiscardAction \<Rightarrow> None
      | RejectAction _ \<Rightarrow> None
      | _ \<Rightarrow> copiesOnly as hasCopy)"

definition keepWithCopies :: "action list \<Rightarrow> string \<Rightarrow> action list" where
  "keepWithCopies all flags =
     (case copiesOnly all False of
        None \<Rightarrow> all
      | Some hasCopy \<Rightarrow> if hasCopy then all @ [KeepAction flags] else all)"

definition dropCancelledDiscard :: "action list \<Rightarrow> action list" where
  "dropCancelledDiscard actions =
     (if \<not> (\<exists>a \<in> set actions. is_delivery a) then actions
      else filter (\<lambda>a. a \<noteq> DiscardAction) actions)"

definition interp0 :: interp where
  "interp0 = \<lparr>i_redirected = [], i_stopped = False, i_flags = [], i_ops = 0, i_sinceClock = 0,
     i_vacHandles = {}\<rparr>"

text \<open>\<^verbatim>\<open>Execute\<close> without its deferred function: the actions or the error.\<close>

definition runScript :: "golib \<Rightarrow> (nat \<Rightarrow> bool) \<Rightarrow> script \<Rightarrow> message \<Rightarrow> run_error + action list" where
  "runScript lib expired sc msg =
     res_bind (case s_exts sc of
                 Some e \<Rightarrow> Inr e
               | None \<Rightarrow> compiled (checkScript lib sc)) (\<lambda>exts.
     res_bind (executeCommands \<lparr>r_lib = lib, r_msg = msg, r_exts = exts, r_expired = expired\<rparr>
                 (s_Commands sc) interp0) (\<lambda>(all0, s).
     let all = dropCancelledDiscard all0 in
     res_bind (checkActions all) (\<lambda>_.
     let implicitFlags = str_join (i_flags s) '' '' in
     if all = [] then Inr [KeepAction implicitFlags]
     else Inr (keepWithCopies all implicitFlags))))"

definition Execute ::
  "golib \<Rightarrow> (nat \<Rightarrow> bool) \<Rightarrow> script \<Rightarrow> message \<Rightarrow> action list \<times> run_error option" where
  "Execute lib expired sc msg =
     (case runScript lib expired sc msg of
        Inl err \<Rightarrow> ([KeepAction []], Some err)
      | Inr actions \<Rightarrow> (actions, None))"

definition ExecuteScript ::
  "golib \<Rightarrow> (nat \<Rightarrow> bool) \<Rightarrow> string \<Rightarrow> message \<Rightarrow> parse_error + (action list \<times> run_error option)" where
  "ExecuteScript lib expired source msg =
     (case Parse source of
        Inl err \<Rightarrow> Inl err
      | Inr cmds \<Rightarrow> Inr (Execute lib expired \<lparr>s_Commands = cmds, s_exts = None\<rparr> msg))"

end
