(* ===== verification/Sieve_Compile_Facts.thy ===== *)
theory Sieve_Compile_Facts
  imports Sieve_Compile Sieve_Parser_Facts
begin

text \<open>
  What the Sieve compiler guarantees: \<^verbatim>\<open>parseArgs\<close> accepts exactly the argument
  sequences of the grammar (RFC 5228, 2.6) that fit a command's table entry;
  no input makes the compiler panic; the tests it builds are well formed; and
  an accepted script uses only extensions it requires, all of them supported.
\<close>

section \<open>Errors that are not panics\<close>

fun panics :: "compile_error \<Rightarrow> bool" where
  "panics Panic = True"
| "panics (ParseFailed e) = (e = IndexOutOfRange)"
| "panics (Wrap _ e) = panics e"
| "panics _ = False"

text \<open>\<open>csat Q m\<close>: \<open>m\<close> does not panic, and its result satisfies \<open>Q\<close>.\<close>

abbreviation csat :: "('a \<Rightarrow> bool) \<Rightarrow> compile_error + 'a \<Rightarrow> bool" where
  "csat \<equiv> sat (\<lambda>e. \<not> panics e)"

lemma csat_map_err: "csat Q m \<Longrightarrow> csat Q (map_err (Wrap w) m)"
  by (cases m) (auto simp: map_err_def)

lemma csat_need: "csat (\<lambda>_. ext = [] \<or> ext \<in> e) (need e ext what)"
  by (auto simp: need_def intro: sat_guard)

section \<open>Argument kinds\<close>

abbreviation of_kind :: "sieve_value \<Rightarrow> argKind \<Rightarrow> bool" where
  "of_kind v k \<equiv> checkKind v k = Inr ()"

lemma of_kind_string: "of_kind v KString \<Longrightarrow> \<exists>s l q. v = StringValue s l q False"
  by (auto simp: checkKind_def split: sieve_value.splits if_splits)

lemma of_kind_number: "of_kind v KNumber \<Longrightarrow> \<exists>n. v = NumberValue n \<and> 0 \<le> n"
  by (auto simp: checkKind_def split: sieve_value.splits if_splits)

lemma checkKind_csat: "csat (\<lambda>u. of_kind v k) (checkKind v k)"
proof (cases "checkKind v k")
  case (Inl e)
  have "\<not> panics e" if "each_res (\<lambda>s. guard_res (b s) (Errorf f xs)) vs = Inl e" for b f xs vs
    using each_res_err [OF that] by (auto simp: guard_res_def split: if_splits)
  then show ?thesis
    using Inl by (auto simp: checkKind_def split: argKind.splits sieve_value.splits if_splits)
qed simp

section \<open>The grammar of arguments\<close>

text \<open>
  A tagged argument is written \<^verbatim>\<open>:tag\<close> or \<^verbatim>\<open>:tag value\<close>. It fits a table entry if
  the tag is known, its extension is required and the value has the tag's kind.
\<close>

type_synonym tagged = "string \<times> sieve_value option"

fun written :: "tagged \<Rightarrow> sieve_value list" where
  "written (t, None) = [TagValue t]"
| "written (t, Some v) = [TagValue t, v]"

definition tag_fits :: "cmdSpec \<Rightarrow> env \<Rightarrow> tagged \<Rightarrow> bool" where
  "tag_fits spec e x =
     (case map_of (cs_tags spec) (to_lower (fst x)) of
        None \<Rightarrow> False
      | Some ts \<Rightarrow>
          (ts_ext ts = [] \<or> ts_ext ts \<in> e) \<and>
          (case snd x of
             None \<Rightarrow> ts_kind ts = KNone
           | Some v \<Rightarrow> ts_kind ts \<noteq> KNone \<and> of_kind v (ts_kind ts)))"

abbreviation tag_name :: "tagged \<Rightarrow> string" where
  "tag_name x \<equiv> to_lower (fst x)"

definition tag_map :: "tagged list \<Rightarrow> string \<rightharpoonup> sieve_value option" where
  "tag_map xs = map_of (map (\<lambda>x. (tag_name x, snd x)) xs)"

definition typed_args ::
  "cmdSpec \<Rightarrow> env \<Rightarrow> sieve_value list \<Rightarrow> tagged list \<Rightarrow> sieve_value list \<Rightarrow> bool" where
  "typed_args spec e args xs pos =
     (args = concat (map written xs) @ pos \<and> distinct (map tag_name xs) \<and>
      list_all (tag_fits spec e) xs \<and> list_all (\<lambda>v. \<not> is_TagValue v) pos)"

lemma need_Inr: "need e ext w = Inr u \<longleftrightarrow> ext = [] \<or> ext \<in> e"
  by (auto simp: need_def guard_res_def)

lemma tag_map_dom: "tag_map xs t \<noteq> None \<longleftrightarrow> t \<in> tag_name ` set xs"
  by (auto simp: tag_map_def map_of_eq_None_iff image_image)

lemma tag_map_upd:
  "tag_name x \<notin> tag_name ` set xs \<Longrightarrow> (m(tag_name x \<mapsto> snd x)) ++ tag_map xs = m ++ tag_map (x # xs)"
  using tag_map_dom [of xs "tag_name x"]
  by (auto simp: tag_map_def map_add_def fun_eq_iff split: option.splits)

text \<open>From acceptance to the grammar.\<close>

lemma typed_args_tag:
  assumes "tag_fits spec e (tv, w)" "typed_args spec e rest xs pos"
    and free: "\<forall>x \<in> set xs. (m(to_lower tv \<mapsto> w)) (tag_name x) = None" "m (to_lower tv) = None"
  shows "typed_args spec e (written (tv, w) @ rest) ((tv, w) # xs) pos"
    and "\<forall>x \<in> set ((tv, w) # xs). m (tag_name x) = None"
    and "m(to_lower tv \<mapsto> w) ++ tag_map xs = m ++ tag_map ((tv, w) # xs)"
proof -
  have new: "to_lower tv \<notin> tag_name ` set xs" using free(1) by (auto split: if_splits)
  then show "typed_args spec e (written (tv, w) @ rest) ((tv, w) # xs) pos"
    using assms(1,2) by (auto simp: typed_args_def)
  show "\<forall>x \<in> set ((tv, w) # xs). m (tag_name x) = None" using free by (auto split: if_splits)
  show "m(to_lower tv \<mapsto> w) ++ tag_map xs = m ++ tag_map ((tv, w) # xs)"
    using tag_map_upd [of "(tv, w)" xs m] new by simp
qed

lemma typed_args_positional:
  assumes "\<not> is_TagValue v"
    and "\<exists>xs pos. typed_args spec e rest xs pos \<and> (xs \<noteq> [] \<longrightarrow> pa_pos pa @ [v] = []) \<and> Q xs \<and>
       pa' = pa\<lparr>pa_tags := pa_tags pa ++ tag_map xs, pa_pos := pa_pos pa @ [v] @ pos\<rparr>"
  shows "\<exists>xs pos. typed_args spec e (v # rest) xs pos \<and> (xs \<noteq> [] \<longrightarrow> pa_pos pa = []) \<and> Q xs \<and>
       pa' = pa\<lparr>pa_tags := pa_tags pa ++ tag_map xs, pa_pos := pa_pos pa @ pos\<rparr>"
proof -
  obtain pos where "typed_args spec e rest [] pos" "Q []"
      "pa' = pa\<lparr>pa_tags := pa_tags pa ++ tag_map [], pa_pos := pa_pos pa @ [v] @ pos\<rparr>"
    using assms(2) by blast
  then show ?thesis
    using assms(1) by (intro exI [of _ "[]"] exI [of _ "v # pos"]) (simp add: typed_args_def)
qed

lemma argsTyped_sound:
  "argsTyped name spec e args pa = Inr pa' \<Longrightarrow>
     \<exists>xs pos. typed_args spec e args xs pos \<and> (xs \<noteq> [] \<longrightarrow> pa_pos pa = []) \<and>
       (\<forall>x \<in> set xs. pa_tags pa (tag_name x) = None) \<and>
       pa' = pa\<lparr>pa_tags := pa_tags pa ++ tag_map xs, pa_pos := pa_pos pa @ pos\<rparr>"
proof (induction name spec e args pa arbitrary: pa' rule: argsTyped.induct)
  case (1 name spec e pa)
  then show ?case
    by (intro exI [of _ "[]"]) (simp add: typed_args_def tag_map_def)
next
  case (2 name spec e tv rest pa)
  let ?tag = "to_lower tv"
  obtain ts where ts: "map_of (cs_tags spec) ?tag = Some ts" "pa_pos pa = []"
      "ts_ext ts = [] \<or> ts_ext ts \<in> e" "pa_tags pa ?tag = None"
    using "2.prems" by (auto simp: Let_def need_Inr split: if_splits option.splits sum.splits)
  have n: "need e (ts_ext ts) w = Inr ()" for w using ts(3) by (simp add: need_Inr)
  have nt: "\<not> pa_tags pa ?tag \<noteq> None" "\<not> pa_pos pa \<noteq> []" using ts by simp_all
  show ?case
  proof (cases "ts_kind ts = KNone")
    case True
    have "argsTyped name spec e rest (pa\<lparr>pa_tags := (pa_tags pa)(?tag \<mapsto> None)\<rparr>) = Inr pa'"
      using "2.prems" ts True n by (simp add: Let_def)
    from "2.IH"(1) [OF nt(2) refl ts(1) n nt(1) True this] obtain xs pos where
      x: "typed_args spec e rest xs pos"
        "\<forall>x \<in> set xs. ((pa_tags pa)(?tag \<mapsto> None)) (tag_name x) = None"
        "pa' = pa\<lparr>pa_tags := (pa_tags pa)(?tag \<mapsto> None) ++ tag_map xs, pa_pos := pa_pos pa @ pos\<rparr>"
      by (auto simp del: fun_upd_apply)
    have "tag_fits spec e (tv, None)" using ts True by (simp add: tag_fits_def)
    from typed_args_tag [OF this x(1,2) ts(4)] show ?thesis
      using x(3) ts(2) by (intro exI [of _ "(tv, None) # xs"] exI [of _ pos]) simp
  next
    case False
    obtain v rest' where r: "rest = v # rest'" "of_kind v (ts_kind ts)"
      using "2.prems" ts False n by (cases rest) (auto simp: Let_def split: sum.splits)
    have "argsTyped name spec e rest' (pa\<lparr>pa_tags := (pa_tags pa)(?tag \<mapsto> Some v)\<rparr>) = Inr pa'"
      using "2.prems" ts False n r by (simp add: Let_def)
    from "2.IH"(2) [OF nt(2) refl ts(1) n nt(1) False r this] obtain xs pos where
      x: "typed_args spec e rest' xs pos"
        "\<forall>x \<in> set xs. ((pa_tags pa)(?tag \<mapsto> Some v)) (tag_name x) = None"
        "pa' = pa\<lparr>pa_tags := (pa_tags pa)(?tag \<mapsto> Some v) ++ tag_map xs, pa_pos := pa_pos pa @ pos\<rparr>"
      by (auto simp del: fun_upd_apply)
    have "tag_fits spec e (tv, Some v)" using ts False r by (simp add: tag_fits_def)
    from typed_args_tag [OF this x(1,2) ts(4)] show ?thesis
      using x(3) ts(2) r(1) by (intro exI [of _ "(tv, Some v) # xs"] exI [of _ pos]) simp
  qed
qed (rule typed_args_positional, simp, simp)+

text \<open>From the grammar to acceptance.\<close>

lemma argsTyped_positional:
  "list_all (\<lambda>v. \<not> is_TagValue v) pos \<Longrightarrow>
     argsTyped name spec e pos pa = Inr (pa\<lparr>pa_pos := pa_pos pa @ pos\<rparr>)"
proof (induction pos arbitrary: pa)
  case (Cons v pos)
  then show ?case by (cases v) auto
qed simp

lemma argsTyped_complete:
  "list_all (tag_fits spec e) xs \<Longrightarrow> distinct (map tag_name xs) \<Longrightarrow> pa_pos pa = [] \<Longrightarrow>
     \<forall>x \<in> set xs. pa_tags pa (tag_name x) = None \<Longrightarrow> list_all (\<lambda>v. \<not> is_TagValue v) pos \<Longrightarrow>
     argsTyped name spec e (concat (map written xs) @ pos) pa =
       Inr (pa\<lparr>pa_tags := pa_tags pa ++ tag_map xs, pa_pos := pos\<rparr>)"
proof (induction xs arbitrary: pa)
  case Nil
  then show ?case by (simp add: argsTyped_positional tag_map_def)
next
  case (Cons x xs)
  obtain tv o' where x: "x = (tv, o')" by fastforce
  let ?pa = "pa\<lparr>pa_tags := (pa_tags pa)(to_lower tv \<mapsto> o')\<rparr>"
  obtain ts where ts: "map_of (cs_tags spec) (to_lower tv) = Some ts" "ts_ext ts = [] \<or> ts_ext ts \<in> e"
      "case o' of None \<Rightarrow> ts_kind ts = KNone | Some v \<Rightarrow> ts_kind ts \<noteq> KNone \<and> of_kind v (ts_kind ts)"
    using Cons.prems x by (auto simp: tag_fits_def split: option.splits)
  have n: "need e (ts_ext ts) w = Inr ()" for w using ts(2) by (simp add: need_Inr)
  have "argsTyped name spec e (concat (map written (x # xs)) @ pos) pa =
      argsTyped name spec e (concat (map written xs) @ pos) ?pa"
    using ts n Cons.prems x by (cases o') (auto simp: Let_def)
  also have "\<dots> = Inr (?pa\<lparr>pa_tags := pa_tags ?pa ++ tag_map xs, pa_pos := pos\<rparr>)"
    using Cons.prems x by (intro Cons.IH) (simp_all, metis image_eqI)
  finally show ?case
    using tag_map_upd [of x xs "pa_tags pa"] Cons.prems x by simp
qed

lemma checkPositional_ok:
  "length vs = length ks \<Longrightarrow> checkPositional name i vs ks = Inr u \<longleftrightarrow> list_all2 of_kind vs ks"
  by (induction vs ks arbitrary: i rule: list_induct2) (auto split: sum.splits)

lemma parseArgs_grammar:
  "parseArgs name args spec e = Inr pa \<longleftrightarrow>
     (cs_ext spec = [] \<or> cs_ext spec \<in> e) \<and>
     (\<exists>xs pos. typed_args spec e args xs pos \<and> list_all2 of_kind pos (cs_pos spec) \<and>
        pa = \<lparr>pa_tags = tag_map xs, pa_pos = pos\<rparr>)" (is "?L \<longleftrightarrow> ?R")
proof
  assume ?L
  then obtain pa' where ext: "cs_ext spec = [] \<or> cs_ext spec \<in> e"
      and t: "argsTyped name spec e args \<lparr>pa_tags = Map.empty, pa_pos = []\<rparr> = Inr pa'"
      and len: "length (pa_pos pa') = length (cs_pos spec)"
      and pos: "checkPositional name 0 (pa_pos pa') (cs_pos spec) = Inr ()" and pa: "pa = pa'"
    by (auto simp: parseArgs_def res_simps need_Inr split: if_splits)
  obtain xs ps where "typed_args spec e args xs ps"
      "pa' = \<lparr>pa_tags = Map.empty ++ tag_map xs, pa_pos = ps\<rparr>"
    using argsTyped_sound [OF t] by auto
  then show ?R using ext pos len pa checkPositional_ok by fastforce
next
  assume ?R
  then obtain xs pos where ext: "cs_ext spec = [] \<or> cs_ext spec \<in> e"
      and t: "typed_args spec e args xs pos"
      and k: "list_all2 of_kind pos (cs_pos spec)" and pa: "pa = \<lparr>pa_tags = tag_map xs, pa_pos = pos\<rparr>"
    by blast
  have "argsTyped name spec e args \<lparr>pa_tags = Map.empty, pa_pos = []\<rparr> = Inr pa"
    using t argsTyped_complete [of spec e xs "\<lparr>pa_tags = Map.empty, pa_pos = []\<rparr>" pos name] pa
    by (simp add: typed_args_def)
  moreover have "checkPositional name 0 pos (cs_pos spec) = Inr ()"
    using k checkPositional_ok list_all2_lengthD by blast
  ultimately show ?L
    using ext k pa by (simp add: parseArgs_def need_Inr list_all2_lengthD res_bind_eq_Inr)
qed


section \<open>The compiler does not panic\<close>

lemma argsTyped_csat: "csat (\<lambda>_. True) (argsTyped name spec e args pa)"
proof (induction name spec e args pa rule: argsTyped.induct)
  case (2 name spec e tv rest pa)
  have n: "\<not> panics err" if "need e x w = Inl err" for x w err
    using csat_need [of x e w] that by simp
  have k: "\<not> panics err" if "checkKind v x = Inl err" for v x err
    using checkKind_csat [of v x] that by simp
  show ?case
    using 2 n k by (auto simp: Let_def split: option.splits sum.splits list.splits)
qed simp_all

lemma checkPositional_csat: "csat (\<lambda>_. True) (checkPositional name i vs ks)"
proof (induction name i vs ks rule: checkPositional.induct)
  case (1 name idx v vs k ks)
  then show ?case using checkKind_csat [of v k] by (auto split: sum.splits)
qed simp_all

text \<open>What a typed argument sequence offers the code that reads it.\<close>

definition tags_fit :: "cmdSpec \<Rightarrow> env \<Rightarrow> parsedArgs \<Rightarrow> bool" where
  "tags_fit spec e pa =
     (\<forall>t v. pa_tags pa t = Some v \<longrightarrow>
        (\<exists>ts. map_of (cs_tags spec) t = Some ts \<and> (ts_ext ts = [] \<or> ts_ext ts \<in> e) \<and>
           (case v of
              None \<Rightarrow> ts_kind ts = KNone
            | Some w \<Rightarrow> ts_kind ts \<noteq> KNone \<and> of_kind w (ts_kind ts))))"

definition args_fit :: "cmdSpec \<Rightarrow> env \<Rightarrow> parsedArgs \<Rightarrow> bool" where
  "args_fit spec e pa =
     ((cs_ext spec = [] \<or> cs_ext spec \<in> e) \<and> list_all2 of_kind (pa_pos pa) (cs_pos spec) \<and>
      tags_fit spec e pa)"

lemma tag_map_fits:
  assumes "list_all (tag_fits spec e) xs" "tag_map xs t = Some v"
  shows "\<exists>x \<in> set xs. tag_name x = t \<and> snd x = v \<and> tag_fits spec e x"
proof -
  have "(t, v) \<in> set (map (\<lambda>x. (tag_name x, snd x)) xs)"
    using assms(2) unfolding tag_map_def by (rule map_of_SomeD)
  then show ?thesis using assms(1) by (auto simp: list_all_iff)
qed

lemma parseArgs_csat: "csat (args_fit spec e) (parseArgs name args spec e)"
proof (cases "parseArgs name args spec e")
  case (Inl err)
  have "csat (\<lambda>_. True) (parseArgs name args spec e)"
    unfolding parseArgs_def
    by (rule sat_bind [OF csat_need], rule sat_bind [OF argsTyped_csat], rule sat_if, simp)
      (rule sat_bind [OF checkPositional_csat], simp)
  then show ?thesis using Inl by simp
next
  case (Inr pa)
  then obtain xs pos where p: "cs_ext spec = [] \<or> cs_ext spec \<in> e" "typed_args spec e args xs pos"
      "list_all2 of_kind pos (cs_pos spec)" "pa = \<lparr>pa_tags = tag_map xs, pa_pos = pos\<rparr>"
    using parseArgs_grammar by blast
  have "tags_fit spec e pa"
    unfolding tags_fit_def
  proof (intro allI impI)
    fix t v
    assume "pa_tags pa t = Some v"
    then obtain x where "tag_name x = t" "snd x = v" "tag_fits spec e x"
      using tag_map_fits p(2,4) by (fastforce simp: typed_args_def)
    then show "\<exists>ts. map_of (cs_tags spec) t = Some ts \<and> (ts_ext ts = [] \<or> ts_ext ts \<in> e) \<and>
        (case v of None \<Rightarrow> ts_kind ts = KNone
         | Some w \<Rightarrow> ts_kind ts \<noteq> KNone \<and> of_kind w (ts_kind ts))"
      unfolding tag_fits_def by (auto split: option.splits)
  qed
  then show ?thesis using Inr p by (simp add: args_fit_def)
qed

lemma pos_at_csat: "i < length (pa_pos pa) \<Longrightarrow> csat (\<lambda>v. v = pa_pos pa ! i) (pos_at pa i)"
  by (simp add: pos_at_def)

lemma as_string_csat: "of_kind v KString \<Longrightarrow> csat (\<lambda>_. True) (as_string v)"
  using of_kind_string [of v] by (auto simp: as_string_def)

lemma as_number_csat:
  "tags_fit spec e pa \<Longrightarrow> map_of (cs_tags spec) t = Some (TagSpec KNumber x) \<Longrightarrow> pa_has pa t \<Longrightarrow>
     csat (\<lambda>_. True) (as_number (pa_tags pa t))"
proof -
  assume f: "tags_fit spec e pa" and s: "map_of (cs_tags spec) t = Some (TagSpec KNumber x)"
    and "pa_has pa t"
  then obtain v where v: "pa_tags pa t = Some v" by (auto simp: pa_has_def)
  from f [unfolded tags_fit_def, rule_format, OF v] s
  obtain w where "v = Some w" "of_kind w KNumber" by (auto split: option.splits)
  then show ?thesis using v of_kind_number by (fastforce simp: as_number_def)
qed

section \<open>Well-formed tests\<close>

text \<open>What matching relies on in a match specification and its keys.\<close>

definition match_ok :: "golib \<Rightarrow> matchSpec \<Rightarrow> string list \<Rightarrow> bool" where
  "match_ok lib ms keys =
     (ms_Type ms \<in> set matchTypes \<and>
      (ms_Type ms \<in> {''count'', ''value''} \<longrightarrow> ms_Relation ms \<in> set relations) \<and>
      ms_Comparator ms \<in> {''i;ascii-casemap'', ''i;octet'', ''i;ascii-numeric''} \<and>
      (ms_Comparator ms = ''i;ascii-numeric'' \<longrightarrow>
         ms_Type ms \<notin> {''contains'', ''matches'', ''regex''}) \<and>
      (ms_Type ms \<in> {''matches'', ''regex''} \<longrightarrow> (\<forall>k \<in> set keys. length k \<le> maxPatternLen)) \<and>
      (ms_Type ms = ''regex'' \<longrightarrow> (\<forall>k \<in> set keys. regexp_compile lib k)))"

fun built_ok :: "golib \<Rightarrow> test \<Rightarrow> bool" where
  "built_ok lib (HeaderTest hs keys mt rel cmp) =
     (\<exists>t. mt = '':'' @ t \<and>
        match_ok lib \<lparr>ms_Type = t, ms_Relation = rel, ms_Comparator = cmp\<rparr> keys)"
| "built_ok lib (AddressTest hs part ms keys) =
     (part \<in> {''localpart'', ''domain'', ''all''} \<and> match_ok lib ms keys)"
| "built_ok lib (EnvelopeTest ps part ms keys) =
     (set ps \<subseteq> {''from'', ''to''} \<and> part \<in> {''localpart'', ''domain'', ''all''} \<and> match_ok lib ms keys)"
| "built_ok lib (BodyTest mode types ms keys) =
     (mode \<in> {''raw'', ''text'', ''content''} \<and> match_ok lib ms keys)"
| "built_ok lib (HasflagTest ms keys) = match_ok lib ms keys"
| "built_ok lib (SizeTest rel n) = (rel \<in> {'':over'', '':under''})"
| "built_ok lib (AllOfTest ts) = (ts \<noteq> [] \<and> (\<forall>t \<in> set ts. built_ok lib t))"
| "built_ok lib (AnyOfTest ts) = (ts \<noteq> [] \<and> (\<forall>t \<in> set ts. built_ok lib t))"
| "built_ok lib (ConstTest b) = True"
| "built_ok lib (NotTest t) = built_ok lib t"
| "built_ok lib (ExistsTest ns) = True"

lemma last_tag_mem: "last_tag pa ts d \<in> insert d (set ts)"
  unfolding last_tag_def
proof (induction ts arbitrary: d)
  case (Cons t ts)
  show ?case using Cons.IH [of "if pa_has pa t then t else d"] by (auto split: if_splits)
qed simp

lemma normComparator_csat:
  "csat (\<lambda>c. c \<in> {''i;ascii-casemap'', ''i;octet'', ''i;ascii-numeric''}) (normComparator c)"
  by (auto simp: normComparator_def)

lemma checkKey_csat:
  "csat (\<lambda>_. (type \<in> {''matches'', ''regex''} \<longrightarrow> length k \<le> maxPatternLen) \<and>
     (type = ''regex'' \<longrightarrow> regexp_compile lib k)) (checkKey lib name type k)"
  by (auto simp: checkKey_def guard_res_def)

lemma need_err: "need e ext w = Inl err \<Longrightarrow> \<not> panics err"
  using csat_need [of ext e w] by auto

lemma buildMatch_csat: "csat (\<lambda>ms. match_ok lib ms keys) (buildMatch lib name pa e keys)"
proof -
  define type where "type = last_tag pa matchTypes ''is''"
  define rel where "rel = (if type = ''count'' \<or> type = ''value'' then to_lower (pa_str pa type) else [])"
  have t: "type \<in> set matchTypes"
    using last_tag_mem [of pa matchTypes "''is''"] by (auto simp: type_def matchTypes_def)
  have g: "csat (\<lambda>_. True) (guard_res (count_tags pa matchTypes > 1) (Errorf f [name]))" for f
    by (rule sat_guard) simp_all
  have r: "csat (\<lambda>_. type = ''count'' \<or> type = ''value'' \<longrightarrow> rel \<in> set relations)
      (guard_res ((type = ''count'' \<or> type = ''value'') \<and> rel \<notin> set relations) (Errorf f xs))" for f xs
    by (rule sat_guard) (simp, blast)
  have n: "csat (\<lambda>_. cmp = ''i;ascii-numeric'' \<longrightarrow> \<not> (type = ''contains'' \<or> type = ''matches'' \<or> type = ''regex''))
      (if cmp = ''i;ascii-numeric''
       then res_bind (need e ext name) (\<lambda>_.
         guard_res (type = ''contains'' \<or> type = ''matches'' \<or> type = ''regex'') (Errorf f xs))
       else Inr ())" for cmp ext f xs
    by (rule sat_if, rule sat_bind [OF csat_need], rule sat_guard) (simp, blast, simp)
  note k = sat_each [of keys, OF checkKey_csat [of type _ lib name]]
  show ?thesis
    unfolding buildMatch_def Let_def type_def [symmetric] rel_def [symmetric]
    by (rule sat_bind [OF g], rule sat_bind [OF r], rule sat_bind [OF csat_map_err [OF normComparator_csat]],
        rule sat_bind [OF n], rule sat_bind [OF k], unfold sat_simps match_ok_def)
      (use t in auto)
qed

lemma addrPartOf_csat: "csat (\<lambda>p. p \<in> {''localpart'', ''domain'', ''all''}) (addrPartOf pa)"
  using last_tag_mem [of pa "[''localpart'', ''domain'', ''all'']" "''all''"]
  by (auto simp: addrPartOf_def)

lemma args_fit_length: "args_fit spec e pa \<Longrightarrow> length (pa_pos pa) = length (cs_pos spec)"
  by (auto simp: args_fit_def dest: list_all2_lengthD)

lemma buildSize_csat:
  assumes "tags_fit spec e pa"
    and "map_of (cs_tags spec) ''over'' = Some (TagSpec KNumber [])"
      "map_of (cs_tags spec) ''under'' = Some (TagSpec KNumber [])"
  shows "csat (built_ok lib) (buildSize pa)"
  unfolding buildSize_def Let_def
  by (intro sat_if sat_bind [OF as_number_csat [OF assms(1,2)]] sat_bind [OF as_number_csat [OF assms(1,3)]])
    auto

lemma buildEnvelope_csat:
  assumes "0 < length (pa_pos pa)" "match_ok lib ms keys"
  shows "csat (built_ok lib) (buildEnvelope pa ms keys)"
proof -
  have part: "csat (\<lambda>_. to_lower p \<in> {''from'', ''to''}) (envelopePart p)" for p
    by (auto simp: envelopePart_def guard_res_def)
  show ?thesis
    unfolding buildEnvelope_def Let_def
    by (rule sat_bind [OF csat_map_err [OF addrPartOf_csat]], rule sat_bind [OF pos_at_csat [OF assms(1)]],
        rule sat_bind [OF sat_each [OF part]]) (use assms(2) in auto)
qed

lemma buildBody_csat: "match_ok lib ms keys \<Longrightarrow> csat (built_ok lib) (buildBody pa ms keys)"
  using last_tag_mem [of pa "[''raw'', ''text'', ''content'']" "''text''"]
  by (auto simp: buildBody_def Let_def)

lemma testSpecs_pos:
  "map_of testSpecs name = Some spec \<Longrightarrow> name \<noteq> ''size'' \<Longrightarrow> 0 < length (cs_pos spec)"
  by (auto simp: testSpecs_def plain_def split: if_splits)

lemma testSpecs_size:
  "map_of testSpecs ''size'' = Some spec \<Longrightarrow>
     map_of (cs_tags spec) ''over'' = Some (TagSpec KNumber []) \<and>
     map_of (cs_tags spec) ''under'' = Some (TagSpec KNumber [])"
  by (auto simp: testSpecs_def plain_def split: if_splits)

lemma buildMatched_csat:
  assumes p: "0 < length (pa_pos pa)" and ms: "match_ok lib ms keys"
  shows "csat (built_ok lib) (buildMatched name pa ms keys)"
  unfolding buildMatched_def
  by (intro sat_if sat_bind [OF pos_at_csat [OF p]] sat_bind [OF csat_map_err [OF addrPartOf_csat]]
      buildEnvelope_csat [OF p ms] buildBody_csat [OF ms]) (use ms in \<open>auto simp: match_ok_def\<close>)

lemma buildLeaf_csat: "csat (built_ok lib) (buildLeaf lib name rest e)"
proof (cases "map_of testSpecs name")
  case None
  then show ?thesis by (simp add: buildLeaf_def)
next
  case (Some spec)
  have pos: "0 < length (pa_pos pa)" if "args_fit spec e pa" "name \<noteq> ''size''" for pa
    using args_fit_length [OF that(1)] testSpecs_pos [OF Some that(2)] by simp
  show ?thesis
    unfolding buildLeaf_def Some option.case Let_def
  proof (rule sat_bind [OF parseArgs_csat], intro sat_if)
    fix pa
    assume fit: "args_fit spec e pa"
    show "csat (built_ok lib) (res_bind (pos_at pa 0) (\<lambda>v. Inr (ExistsTest (listOf (Some v)))))"
      if "name = ''exists''"
      using pos [OF fit] that by (intro sat_bind [OF pos_at_csat]) auto
    show "csat (built_ok lib) (buildSize pa)" if "name = ''size''"
      using fit testSpecs_size Some that unfolding args_fit_def by (blast intro: buildSize_csat)
    show "csat (built_ok lib) (res_bind (pos_at pa (length (pa_pos pa) - 1)) (\<lambda>kv.
            res_bind (buildMatch lib name pa e (listOf (Some kv))) (\<lambda>ms.
            buildMatched name pa ms (listOf (Some kv)))))" if "name \<noteq> ''size''"
      using pos [OF fit that]
      by (intro sat_bind [OF pos_at_csat] sat_bind [OF buildMatch_csat] buildMatched_csat) auto
  qed
qed

lemma identName_csat: "csat (\<lambda>_. args \<noteq> [] \<and> \<not> is_TagValue (hd args)) (identName args)"
  by (auto simp: identName_def split: list.splits sieve_value.splits)

text \<open>\<^verbatim>\<open>buildTest\<close> branch by branch.\<close>

lemma buildTest_const:
  assumes "\<not> depth > max_nesting" "identName args = Inr name" "name = ''true'' \<or> name = ''false''"
  shows "buildTest lib args e depth =
    (if tl args \<noteq> [] then Inl (Errorf ''%s test takes no arguments'' [name])
     else Inr (ConstTest (name = ''true'')))"
  by (subst buildTest.simps) (simp add: assms Let_def)

lemma buildTest_not:
  assumes "\<not> depth > max_nesting" "identName args = Inr name" "name = ''not''"
  shows "buildTest lib args e depth =
    res_bind (buildTest lib (tl args) e (depth + 1)) (\<lambda>t. Inr (NotTest t))"
  by (subst buildTest.simps) (simp add: assms Let_def res_bind_def)

lemma buildTest_list:
  assumes "\<not> depth > max_nesting" "identName args = Inr name" "name = ''allof'' \<or> name = ''anyof''"
  shows "buildTest lib args e depth =
    (case tl args of
       [TestListValue tests] \<Rightarrow>
         if tests = [] then Inl (Errorf ''%s needs a parenthesised test list'' [name])
         else if length tests > maxListEntries then Inl (Errorf ''%s: more than %d tests'' [name])
         else res_bind (buildTests lib tests e (depth + 1))
           (\<lambda>subs. Inr (if name = ''allof'' then AllOfTest subs else AnyOfTest subs))
     | _ \<Rightarrow> Inl (Errorf ''%s needs a parenthesised test list'' [name]))"
proof -
  have n: "\<not> (name = ''true'' \<or> name = ''false'')" "name \<noteq> ''not''" using assms(3) by auto
  show ?thesis
    by (subst buildTest.simps) (simp only: assms n if_False if_True sum.case Let_def res_bind_def)
qed

lemma buildTest_leaf:
  assumes "\<not> depth > max_nesting" "identName args = Inr name"
    and "\<not> (name = ''true'' \<or> name = ''false'')" "name \<noteq> ''not''"
      "\<not> (name = ''allof'' \<or> name = ''anyof'')"
  shows "buildTest lib args e depth = buildLeaf lib name (tl args) e"
  by (subst buildTest.simps) (simp only: assms if_False sum.case Let_def)

lemma buildTest_err:
  "depth > max_nesting \<Longrightarrow> buildTest lib args e depth = Inl (Errorf ''tests nested deeper than %d levels'' [])"
  "\<not> depth > max_nesting \<Longrightarrow> identName args = Inl err \<Longrightarrow> buildTest lib args e depth = Inl err"
  by (subst buildTest.simps, simp)+

lemma buildTest_csat:
  "csat (built_ok lib) (buildTest lib args e depth)"
  "csat (\<lambda>ts. length ts = length tests \<and> (\<forall>t \<in> set ts. built_ok lib t)) (buildTests lib tests e depth)"
proof (induction lib args e depth and lib tests e depth rule: buildTest_buildTests.induct)
  case (1 lib args e depth)
  show ?case
  proof (cases "depth > max_nesting \<or> (\<exists>err. identName args = Inl err)")
    case True
    then show ?thesis
      using identName_csat [of args] by (cases "depth > max_nesting") (auto simp: buildTest_err)
  next
    case False
    then obtain name where ok: "\<not> depth > max_nesting" "identName args = Inr name"
      by (cases "identName args") auto
    consider (const) "name = ''true'' \<or> name = ''false''"
      | (not) "\<not> (name = ''true'' \<or> name = ''false'')" "name = ''not''"
      | (list) "\<not> (name = ''true'' \<or> name = ''false'')" "name \<noteq> ''not''" "name = ''allof'' \<or> name = ''anyof''"
      | (leaf) "\<not> (name = ''true'' \<or> name = ''false'')" "name \<noteq> ''not''"
          "\<not> (name = ''allof'' \<or> name = ''anyof'')" by satx
    then show ?thesis
    proof cases
      case const
      show ?thesis unfolding buildTest_const [OF ok const] by simp
    next
      case not
      show ?thesis
        unfolding buildTest_not [OF ok not(2)]
        by (rule sat_bind [OF "1.IH"(1) [OF ok refl not]]) simp
    next
      case list
      show ?thesis
        unfolding buildTest_list [OF ok list(3)]
      proof (cases "\<exists>tests. tl args = [TestListValue tests] \<and> tests \<noteq> [] \<and> \<not> length tests > maxListEntries")
        case True
        then obtain tests where t: "tl args = [TestListValue tests]" "tests \<noteq> []"
            "\<not> length tests > maxListEntries" by auto
        have "csat (built_ok lib) (res_bind (buildTests lib tests e (depth + 1))
            (\<lambda>subs. Inr (if name = ''allof'' then AllOfTest subs else AnyOfTest subs)))"
          by (rule sat_bind [OF "1.IH"(2) [OF ok refl list t(1) refl refl t(2,3)]]) (use t(2) in auto)
        then show "csat (built_ok lib) (case tl args of
       [TestListValue tests] \<Rightarrow>
         if tests = [] then Inl (Errorf ''%s needs a parenthesised test list'' [name])
         else if length tests > maxListEntries then Inl (Errorf ''%s: more than %d tests'' [name])
         else res_bind (buildTests lib tests e (depth + 1))
           (\<lambda>subs. Inr (if name = ''allof'' then AllOfTest subs else AnyOfTest subs))
     | _ \<Rightarrow> Inl (Errorf ''%s needs a parenthesised test list'' [name]))"
          using t by simp
      qed (auto split: list.split sieve_value.split)
    next
      case leaf
      show ?thesis unfolding buildTest_leaf [OF ok leaf] by (rule buildLeaf_csat)
    qed
  qed
next
  case (3 lib sub subs e depth)
  show ?case
    using 3 by (auto simp: sat_def split: sum.splits)
qed simp

section \<open>Validated commands\<close>

text \<open>What \<^verbatim>\<open>compileCommand\<close> establishes for the interpreter.\<close>

definition command_fits :: "golib \<Rightarrow> env \<Rightarrow> command \<Rightarrow> parsedArgs \<Rightarrow> bool" where
  "command_fits lib e cmd pa =
     (cmd_block cmd = None \<and> cmd_name cmd \<noteq> ''require'' \<and>
      (\<exists>spec. map_of cmdSpecs (cmd_name cmd) = Some spec \<and> args_fit spec (vacationEnv cmd e) pa) \<and>
      (cmd_name cmd = ''redirect'' \<longrightarrow>
         (\<exists>a. res_bind (pos_at pa 0) as_string = Inr a \<and> mail_ParseAddress lib a \<noteq> None)))"

lemma redirect_pos:
  assumes "map_of cmdSpecs name = Some spec" "name \<in> {''redirect'', ''fileinto'', ''reject''}"
    and "args_fit spec e pa"
  shows "\<exists>a. res_bind (pos_at pa 0) as_string = Inr a"
proof -
  have "cs_pos spec = [KString]"
    using assms(1,2) by (auto simp: cmdSpecs_def plain_def)
  then obtain v where "pa_pos pa = [v]" "of_kind v KString"
    using assms(3) by (auto simp: args_fit_def list_all2_Cons2)
  then show ?thesis using of_kind_string [of v] by (auto simp: pos_at_def as_string_def)
qed

lemma compileCommand_csat: "csat (command_fits lib e cmd) (compileCommand lib cmd e)"
proof (cases "map_of cmdSpecs (cmd_name cmd)")
  case None
  then show ?thesis by (simp add: compileCommand_def)
next
  case (Some spec)
  show ?thesis
    unfolding compileCommand_def Some option.case
  proof (intro sat_if sat_bind [OF parseArgs_csat])
    fix pa
    assume n: "cmd_name cmd \<noteq> ''require''" "\<not> cmd_block cmd \<noteq> None"
      and fit: "args_fit spec (vacationEnv cmd e) pa"
    then have ok: "command_fits lib e cmd pa" if "cmd_name cmd \<noteq> ''redirect''"
      using that Some by (auto simp: command_fits_def)
    show "csat (command_fits lib e cmd) (Inr pa)" if "cmd_name cmd \<noteq> ''redirect''"
      using ok [OF that] by simp
    then show "csat (command_fits lib e cmd) (Inr pa)" if "cmd_name cmd \<noteq> ''redirect''"
      using that by simp
    assume r: "cmd_name cmd = ''redirect''"
    then obtain a where a: "res_bind (pos_at pa 0) as_string = Inr a"
      using redirect_pos [OF Some _ fit] by auto
    then obtain v where v: "pos_at pa 0 = Inr v" "as_string v = Inr a" by (auto simp: res_bind_eq_Inr)
    show "csat (command_fits lib e cmd) (res_bind (pos_at pa 0) (\<lambda>v. res_bind (as_string v) (\<lambda>addr.
        if mail_ParseAddress lib addr = None
        then Inl (Errorf ''invalid redirect address: %s'' [addr]) else Inr pa)))"
      using v n fit Some a by (auto simp: command_fits_def)
  qed auto
qed

lemma map_err_Inr: "map_err f m = Inr x \<longleftrightarrow> m = Inr x"
  by (cases m) (auto simp: map_err_def)

lemma checkBranch_csat: "csat (\<lambda>_. True) (checkBranch lib cmd e)"
  unfolding checkBranch_def
  by (intro sat_if sat_guard csat_map_err sat_bind [OF buildTest_csat(1)]) simp_all

lemma checkLoop_csat:
  "csat (\<lambda>_. True) (checkCommands lib cmds e d)"
  "csat (\<lambda>_. True) (checkLoop lib cmds e d prev)"
  "csat (\<lambda>_. True) (checkCommand lib cmd e d prev)"
proof (induction lib cmds e d and lib cmds e d prev and lib cmd e d prev
    rule: checkCommands_checkLoop_checkCommand.induct)
  case (1 lib cmds e depth)
  then show ?case by (subst checkCommands.simps) simp
next
  case (3 lib cmd cmds e depth prev)
  then show ?case by (auto intro: sat_bind)
next
  case (4 lib cmd e depth prev)
  show ?case
  proof (cases "cmd_block cmd")
    case None
    then show ?thesis
      by (subst checkCommand.simps) (auto simp: Let_def intro: sat_bind [OF compileCommand_csat])
  next
    case (Some block)
    have "csat (\<lambda>_. True) (res_bind (checkBranch lib cmd e) (\<lambda>_. checkCommands lib block e (depth + 1)))"
      if "cmd_name cmd = ''if'' \<or> cmd_name cmd = ''elsif'' \<or> cmd_name cmd = ''else''"
        "\<not> (cmd_name cmd \<noteq> ''if'' \<and> prev \<noteq> ''if'' \<and> prev \<noteq> ''elsif'')"
      by (rule sat_bind [OF checkBranch_csat], rule "4.IH" [OF refl that Some])
    then show ?thesis
      using Some by (subst checkCommand.simps) (auto simp: Let_def intro: sat_bind [OF compileCommand_csat])
  qed
qed simp

lemma checkCommands_Inr:
  "checkCommands lib cmds e d = Inr u \<longleftrightarrow> d \<le> max_nesting \<and> checkLoop lib cmds e d [] = Inr ()"
  by (subst checkCommands.simps) auto

lemma checkCommand_branch:
  "cmd_name cmd \<in> {''if'', ''elsif'', ''else''} \<Longrightarrow>
   checkCommand lib cmd e d prev = Inr u \<longleftrightarrow>
     (cmd_name cmd = ''if'' \<or> prev = ''if'' \<or> prev = ''elsif'') \<and>
     (\<exists>block. cmd_block cmd = Some block \<and> checkBranch lib cmd e = Inr () \<and>
        checkCommands lib block e (d + 1) = Inr ())"
  by (subst checkCommand.simps) (auto simp: Let_def res_simps split: option.splits)

lemma checkCommand_action:
  "cmd_name cmd \<notin> {''if'', ''elsif'', ''else''} \<Longrightarrow>
   checkCommand lib cmd e d prev = Inr u \<longleftrightarrow>
     cmd_name cmd \<noteq> ''require'' \<and> (\<exists>pa. compileCommand lib cmd e = Inr pa)"
  by (subst checkCommand.simps) (auto simp: Let_def res_simps)

lemma checkLoop_Cons:
  "checkLoop lib (cmd # cmds) e d prev = Inr u \<longleftrightarrow>
     checkCommand lib cmd e d prev = Inr () \<and> checkLoop lib cmds e d (cmd_name cmd) = Inr ()"
  by (simp add: res_simps)

text \<open>The test of a validated branch is the one the interpreter builds: no tag precedes it.\<close>

lemma checkBranch_test:
  assumes "checkBranch lib cmd e = Inr u" "cmd_name cmd \<noteq> ''else''"
  shows "\<exists>t. buildTest lib (cmd_args cmd) e 0 = Inr t \<and> built_ok lib t"
proof -
  obtain t where t: "buildTest lib (fullArgs cmd) e 0 = Inr t"
    using assms by (auto simp: checkBranch_def map_err_Inr res_simps)
  have "identName (fullArgs cmd) \<noteq> Inl err" for err
    using t buildTest_err(2) [of 0 "fullArgs cmd" err lib e] by auto
  then have "cmd_tag cmd = []"
    by (cases "cmd_tag cmd = []") (auto simp: fullArgs_def identName_def)
  then have "fullArgs cmd = cmd_args cmd" by (simp add: fullArgs_def)
  then show ?thesis using t buildTest_csat(1) [of lib "fullArgs cmd" e 0] by simp
qed

section \<open>Validated scripts\<close>

lemma requireNames_csat: "csat (\<lambda>_. True) (requireNames args)"
  by (induction args rule: requireNames.induct) (auto intro: sat_bind)

lemma requireExtensions_csat: "csat (\<lambda>exts. set exts \<subseteq> supportedExtensions) (requireExtensions cmd)"
proof -
  have e: "csat (\<lambda>_. x \<in> supportedExtensions) (guard_res (x \<notin> supportedExtensions) (Errorf f [x]))" for f x
    by (rule sat_guard) simp_all
  show ?thesis
    unfolding requireExtensions_def
    by (rule sat_bind [OF requireNames_csat], rule sat_if, simp)
      (rule sat_bind [OF sat_each [OF e]], auto)
qed

lemma requires_csat:
  "e \<subseteq> supportedExtensions \<Longrightarrow>
     csat (\<lambda>(e', rest). e' \<subseteq> supportedExtensions \<and>
       (\<exists>pre. cmds = pre @ rest \<and> (\<forall>c \<in> set pre. cmd_name c = ''require'' \<and> cmd_block c = None))) (requires cmds e)"
proof (induction cmds e rule: requires.induct)
  case (2 cmd cmds e)
  show ?case
  proof (cases "cmd_name cmd \<noteq> ''require'' \<or> cmd_block cmd \<noteq> None")
    case True
    then show ?thesis using "2.prems" by (auto intro: exI [of _ "[]"])
  next
    case False
    have "csat (\<lambda>(e', rest). e' \<subseteq> supportedExtensions \<and>
        (\<exists>pre. cmd # cmds = pre @ rest \<and> (\<forall>c \<in> set pre. cmd_name c = ''require'' \<and> cmd_block c = None)))
        (res_bind (requireExtensions cmd) (\<lambda>exts. requires cmds (e \<union> set exts)))"
    proof (rule sat_bind [OF requireExtensions_csat])
      fix exts
      assume "requireExtensions cmd = Inr exts" "set exts \<subseteq> supportedExtensions"
      then have "csat (\<lambda>(e', rest). e' \<subseteq> supportedExtensions \<and>
         (\<exists>pre. cmds = pre @ rest \<and> (\<forall>c \<in> set pre. cmd_name c = ''require'' \<and> cmd_block c = None)))
         (requires cmds (e \<union> set exts))"
        using "2.IH" False "2.prems" by simp
      then show "csat (\<lambda>(e', rest). e' \<subseteq> supportedExtensions \<and>
        (\<exists>pre. cmd # cmds = pre @ rest \<and> (\<forall>c \<in> set pre. cmd_name c = ''require'' \<and> cmd_block c = None)))
        (requires cmds (e \<union> set exts))"
        using False by (elim sat_mono) (auto intro: exI [of _ "cmd # _"])
    qed
    then show ?thesis using False by simp
  qed
qed simp

definition script_ok :: "golib \<Rightarrow> env \<Rightarrow> command list \<Rightarrow> bool" where
  \<comment> \<open>leading requires of supported extensions, then commands that check under them\<close>
  "script_ok lib e cmds =
     (e \<subseteq> supportedExtensions \<and>
      (\<exists>pre rest. cmds = pre @ rest \<and> (\<forall>c \<in> set pre. cmd_name c = ''require'' \<and> cmd_block c = None) \<and>
         checkLoop lib rest e 0 [] = Inr ()))"

lemma checkScript_csat: "csat (\<lambda>e. script_ok lib e (s_Commands sc)) (checkScript lib sc)"
  unfolding checkScript_def
proof (rule sat_bind [OF requires_csat])
  fix x
  assume x: "case x of (e', rest) \<Rightarrow> e' \<subseteq> supportedExtensions \<and>
       (\<exists>pre. s_Commands sc = pre @ rest \<and> (\<forall>c \<in> set pre. cmd_name c = ''require'' \<and> cmd_block c = None))"
  show "csat (\<lambda>e. script_ok lib e (s_Commands sc))
     (case x of (e, cmds) \<Rightarrow> res_bind (checkCommands lib cmds e 0) (\<lambda>_. Inr e))"
  proof (cases x)
    case (Pair e cmds)
    show ?thesis
      unfolding Pair prod.case
      by (rule sat_bind [OF checkLoop_csat(1)])
        (use x Pair in \<open>auto simp: script_ok_def checkCommands_Inr\<close>)
  qed
qed simp

lemma Compile_csat:
  "csat (\<lambda>sc. \<exists>e. Parse source = Inr (s_Commands sc) \<and> s_exts sc = Some e \<and>
     checkScript lib sc = Inr e \<and> script_ok lib e (s_Commands sc)) (Compile lib source)"
proof (cases "Parse source")
  case (Inr cmds)
  have same: "checkScript lib \<lparr>s_Commands = cmds, s_exts = x\<rparr> =
      checkScript lib \<lparr>s_Commands = cmds, s_exts = None\<rparr>" for x
    by (simp add: checkScript_def)
  show ?thesis
    unfolding Compile_def Inr sum.case Validate_def
    by (intro sat_if sat_bind [OF checkScript_csat]) (use same in auto)
next
  case (Inl e)
  then show ?thesis using Parse_psat [of source] by (auto simp: Compile_def crash_def)
qed

text \<open>Every command of a script, blocks included.\<close>

fun all_commands :: "command list \<Rightarrow> command list" where
  "all_commands [] = []"
| "all_commands (Command n t a (Some b) # cs) =
     Command n t a (Some b) # all_commands b @ all_commands cs"
| "all_commands (Command n t a None # cs) = Command n t a None # all_commands cs"

lemma all_commands_Cons:
  "all_commands (c # cs) =
     c # (case cmd_block c of None \<Rightarrow> [] | Some b \<Rightarrow> all_commands b) @ all_commands cs"
  by (cases c; cases "cmd_block c") auto

text \<open>The extensions an action command needs: its own and those of its tags.\<close>

definition needs :: "command \<Rightarrow> string set" where
  "needs c =
     (case map_of cmdSpecs (cmd_name c) of
        None \<Rightarrow> {}
      | Some spec \<Rightarrow>
          {x. x \<noteq> [] \<and> (x = cs_ext spec \<or>
             (\<exists>t ts. TagValue t \<in> set (fullArgs c) \<and>
                map_of (cs_tags spec) (to_lower t) = Some ts \<and> x = ts_ext ts))})"

lemma compileCommand_needs:
  assumes "compileCommand lib c e = Inr pa"
  shows "needs c \<subseteq> vacationEnv c e"
proof -
  obtain spec where spec: "map_of cmdSpecs (cmd_name c) = Some spec"
      and pa: "parseArgs (cmd_name c) (fullArgs c) spec (vacationEnv c e) = Inr pa"
    using assms by (auto simp: compileCommand_def res_simps split: option.splits if_splits)
  then obtain xs pos where t: "cs_ext spec = [] \<or> cs_ext spec \<in> vacationEnv c e"
      "typed_args spec (vacationEnv c e) (fullArgs c) xs pos"
    using parseArgs_grammar by blast
  have tag: "x \<in> vacationEnv c e" if "TagValue w \<in> set (fullArgs c)"
      "map_of (cs_tags spec) (to_lower w) = Some ts" "x = ts_ext ts" "x \<noteq> []" for w ts x
  proof -
    have "TagValue w \<in> set (concat (map written xs))"
      using that(1) t(2) by (auto simp: typed_args_def list_all_iff)
    then obtain y where y: "y \<in> set xs" "TagValue w \<in> set (written y)" by auto
    moreover have "tag_fits spec (vacationEnv c e) y"
      using t(2) y(1) by (simp add: typed_args_def list_all_iff)
    moreover have "\<not> of_kind (TagValue w) k" if "k \<noteq> KNone" for k
      using that by (cases k) (simp_all add: checkKind_def)
    ultimately show ?thesis
      using that by (cases y rule: written.cases) (auto simp: tag_fits_def split: option.splits)
  qed
  show ?thesis using t(1) tag spec by (auto simp: needs_def)
qed

lemma needs_none: "cmd_name c \<in> {''if'', ''elsif'', ''else'', ''require''} \<Longrightarrow> needs c = {}"
  by (auto simp: needs_def cmdSpecs_def plain_def)

lemma checkCommand_needs:
  assumes "checkCommand lib c e d prev = Inr ()"
  shows "needs c \<subseteq> vacationEnv c e"
    and "cmd_block c = Some b \<Longrightarrow> checkLoop lib b e (d + 1) [] = Inr ()"
proof -
  show "needs c \<subseteq> vacationEnv c e"
  proof (cases "cmd_name c \<in> {''if'', ''elsif'', ''else''}")
    case False
    then obtain pa where "compileCommand lib c e = Inr pa"
      using assms checkCommand_action [OF False] by blast
    then show ?thesis by (rule compileCommand_needs)
  qed (use needs_none [of c] in auto)
  assume b: "cmd_block c = Some b"
  have "cmd_name c \<in> {''if'', ''elsif'', ''else''}"
  proof (rule ccontr)
    assume "cmd_name c \<notin> {''if'', ''elsif'', ''else''}"
    from assms [unfolded checkCommand_action [OF this]] obtain pa where "compileCommand lib c e = Inr pa"
      by blast
    then show False using compileCommand_csat [of lib e c] b by (simp add: command_fits_def)
  qed
  from assms [unfolded checkCommand_branch [OF this]] b
  show "checkLoop lib b e (d + 1) [] = Inr ()" by (simp add: checkCommands_Inr)
qed

lemma checkLoop_needs:
  assumes "checkLoop lib cmds e d prev = Inr ()" "c \<in> set (all_commands cmds)"
  shows "needs c \<subseteq> vacationEnv c e"
  using assms
proof (induction cmds arbitrary: d prev rule: all_commands.induct)
  case (2 n t a b cs)
  note ok = "2.prems"(1) [unfolded checkLoop_Cons]
  note fits = checkCommand_needs [OF conjunct1 [OF ok]]
  consider "c = Command n t a (Some b)" | "c \<in> set (all_commands b)" | "c \<in> set (all_commands cs)"
    using "2.prems"(2) by auto
  then show ?case
  proof cases
    case 1
    then show ?thesis using fits(1) by simp
  next
    case 2
    then show ?thesis using "2.IH"(1) fits(2) by simp
  next
    case 3
    then show ?thesis using "2.IH"(2) conjunct2 [OF ok] by simp
  qed
next
  case (3 n t a cs)
  note ok = "3.prems"(1) [unfolded checkLoop_Cons]
  show ?case
    using "3.prems"(2) checkCommand_needs(1) [OF conjunct1 [OF ok]] "3.IH" conjunct2 [OF ok] by auto
qed simp

lemma all_commands_requires:
  "\<forall>c \<in> set pre. cmd_name c = ''require'' \<and> cmd_block c = None \<Longrightarrow>
     all_commands (pre @ rest) = pre @ all_commands rest"
  by (induction pre) (auto simp: all_commands_Cons)

text \<open>Concrete stand-ins for the library, for the witnesses: regular expressions
  match as substrings, an address is anything with an at sign, headers are not
  encoded and nothing is multipart.\<close>

definition plain_lib :: golib where
  "plain_lib = \<lparr>regexp_compile = (\<lambda>_. True), regexp_match = (\<lambda>p v. str_contains v p),
     mail_ParseAddress = (\<lambda>s. if CHR ''@'' \<in> set s then Some s else None),
     mail_ParseAddressList = (\<lambda>s. if CHR ''@'' \<in> set s then Some [s] else None),
     mail_ReadMessage = (\<lambda>_. None), mime_DecodeHeader = (\<lambda>s. Some s),
     mime_ParseMediaType = (\<lambda>_. None), multipart_parts = (\<lambda>_ _. []),
     qp_read = (\<lambda>_ s. Some s), go_quote = (\<lambda>s. s)\<rparr>"

section \<open>Properties of the compiler\<close>

text \<open>
  C16. \<^verbatim>\<open>parseArgs\<close> accepts exactly the argument sequences of RFC 5228, 2.6, that
  fit the table entry of the command or test: tagged arguments first, each tag
  known, used once, with its extension required and a value of its kind, then
  exactly the positional arguments of the listed kinds. It returns the tags'
  values by lower-case name and the positional arguments in order.
\<close>

theorem parseArgs_exact:
  "parseArgs name args spec e = Inr pa \<longleftrightarrow>
     (cs_ext spec = [] \<or> cs_ext spec \<in> e) \<and>
     (\<exists>xs pos. typed_args spec e args xs pos \<and> list_all2 of_kind pos (cs_pos spec) \<and>
        pa = \<lparr>pa_tags = tag_map xs, pa_pos = pos\<rparr>)"
  by (rule parseArgs_grammar)

text \<open>
  C17. Compiling never panics: no source makes \<^verbatim>\<open>Compile\<close> read the character at the
  parser's position (\<^verbatim>\<open>p.input[p.pos]\<close>) past the end of the input, index the
  positional arguments of a command or test (\<^verbatim>\<open>pa.pos[i]\<close>) out of range, or fail one
  of the type assertions on them.
\<close>

theorem Compile_no_panic:
  "(\<exists>sc. Compile lib source = Inr sc) \<or> (\<exists>err. Compile lib source = Inl err \<and> \<not> panics err)"
  using Compile_csat [of source lib] by (cases "Compile lib source") auto

text \<open>
  C18. Extensions must be required (RFC 5228, 2.10.5): the extensions recorded on
  a compiled script are all supported, and every extension that an action
  command anywhere in the script needs, for itself or for one of its tags, is
  among them, where requiring \<^verbatim>\<open>vacation-seconds\<close> also allows \<^verbatim>\<open>vacation\<close>.
\<close>

theorem Compile_requires:
  assumes "Compile lib source = Inr sc" "s_exts sc = Some e"
  shows "e \<subseteq> supportedExtensions \<and>
    (\<forall>c \<in> set (all_commands (s_Commands sc)). \<forall>x \<in> needs c.
       x \<in> e \<or> x = ''vacation'' \<and> ''vacation-seconds'' \<in> e)"
proof -
  have ok: "script_ok lib e (s_Commands sc)" using Compile_csat [of source lib] assms by auto
  then obtain pre rest where s: "s_Commands sc = pre @ rest"
      "\<forall>c \<in> set pre. cmd_name c = ''require'' \<and> cmd_block c = None" "checkLoop lib rest e 0 [] = Inr ()"
    by (auto simp: script_ok_def)
  have "needs c \<subseteq> vacationEnv c e" if "c \<in> set (all_commands (s_Commands sc))" for c
    using that s checkLoop_needs [OF s(3)] by (auto simp: all_commands_requires needs_none)
  then show ?thesis
    using ok by (force simp: script_ok_def vacationEnv_def split: if_splits)
qed

theorem Compile_requires_witness:
  "let sc = \<lparr>s_Commands = [Command ''require'' [] [ListValue [''fileinto'', ''copy'']] None,
       Command ''fileinto'' ''copy'' [StringValue ''A'' False True False] None],
       s_exts = Some {''fileinto'', ''copy''}\<rparr>
   in Compile plain_lib ''require [\"fileinto\", \"copy\"]; fileinto :copy \"A\";'' = Inr sc \<and>
     {''fileinto'', ''copy''} \<subseteq> supportedExtensions \<and>
     (\<forall>c \<in> set (all_commands (s_Commands sc)). \<forall>x \<in> needs c. x \<in> {''fileinto'', ''copy''})"
proof -
  let ?sc = "\<lparr>s_Commands = [Command ''require'' [] [ListValue [''fileinto'', ''copy'']] None,
       Command ''fileinto'' ''copy'' [StringValue ''A'' False True False] None],
       s_exts = Some {''fileinto'', ''copy''}\<rparr>"
  have p: "Compile plain_lib ''require [\"fileinto\", \"copy\"]; fileinto :copy \"A\";'' = Inr ?sc"
    by code_simp
  from Compile_requires [OF p] show ?thesis using p by (auto simp: Let_def)
qed

end
