(* ===== verification/Sieve_Interp_Facts.thy ===== *)
theory Sieve_Interp_Facts
  imports Sieve_Interp Sieve_Compile_Facts Sieve_Glob_Facts
begin

text \<open>
  What a run of a script guarantees: a declarative meaning of tests and of
  branching that the interpreter refines, the limits as the only failures of a
  script that compiled, and the invariants of the actions a run returns.
\<close>

section \<open>Charging operations\<close>

definition ticked :: "interp \<Rightarrow> interp \<Rightarrow> bool" where
  \<comment> \<open>the second state is the first with operations charged\<close>
  "ticked s s' =
     (\<exists>n k. s' = s\<lparr>i_ops := n, i_sinceClock := k\<rparr> \<and> (i_ops s \<le> maxRunOps \<longrightarrow> n \<le> maxRunOps))"

lemma ticked_refl [simp]: "ticked s s"
  unfolding ticked_def by (rule exI [of _ "i_ops s"], rule exI [of _ "i_sinceClock s"]) simp

lemma ticked_trans: "ticked s s' \<Longrightarrow> ticked s' s'' \<Longrightarrow> ticked s s''"
  unfolding ticked_def by fastforce

lemma ticked_sel:
  assumes "ticked s s'"
  shows "i_flags s' = i_flags s" "i_stopped s' = i_stopped s" "i_redirected s' = i_redirected s"
    "i_vacHandles s' = i_vacHandles s"
  using assms by (auto simp: ticked_def)

definition limit_error :: "run_error \<Rightarrow> bool" where
  "limit_error e = (e \<in> {OpLimit, TimeLimit, GlobLimit})"

lemma tick_sat: "sat limit_error (\<lambda>(_, s'). ticked s s') (tick r n s)"
  by (auto simp: tick_def Let_def limit_error_def ticked_def intro: exI)

lemma tick_sat_ok: "sat (\<lambda>e. P \<longrightarrow> limit_error e) (\<lambda>(_, s'). ticked s s') (tick r n s)"
  by (rule sat_mono [OF tick_sat]) auto

section \<open>The meaning of a test\<close>

text \<open>
  A matching test holds when some value matches some key; \<open>pair_matches\<close> is the
  single comparison. The interpreter stops at the first match, charges an
  operation per comparison and may fail in between.
\<close>

definition effective :: "matchSpec \<Rightarrow> string" where
  "effective ms = (if ms_Comparator ms = [] then ''i;ascii-casemap'' else ms_Comparator ms)"

definition pair_matches :: "run \<Rightarrow> matchSpec \<Rightarrow> string \<Rightarrow> string \<Rightarrow> bool" where
  "pair_matches r ms v k =
     (let cmp = effective ms; folded = (cmp = ''i;ascii-casemap'');
          norm = (\<lambda>x. if folded then asciiLower x else x)
      in matchOne r ms cmp (norm v) (norm k) v k folded = Inr True)"

definition values_match :: "run \<Rightarrow> matchSpec \<Rightarrow> string list \<Rightarrow> string list \<Rightarrow> bool" where
  "values_match r ms values keys =
     (if ms_Type ms = ''count''
      then (\<exists>k \<in> set keys. relationHolds (ms_Relation ms) (numericCompare (itoa (length values)) k))
      else (\<exists>v \<in> set values. \<exists>k \<in> set keys. pair_matches r ms v k))"

definition header_spec :: "string \<Rightarrow> string \<Rightarrow> string \<Rightarrow> matchSpec" where
  "header_spec mtype rel comparator =
     (let t = trim_prefix mtype '':'' in
      \<lparr>ms_Type = (if t = [] then ''is'' else t), ms_Relation = rel,
       ms_Comparator = (case normComparator comparator of Inr c \<Rightarrow> c | Inl _ \<Rightarrow> comparator)\<rparr>)"

fun test_holds :: "run \<Rightarrow> string list \<Rightarrow> test \<Rightarrow> bool" where
  "test_holds r flags (HeaderTest headers keys mtype rel cmp) =
     values_match r (header_spec mtype rel cmp) (decodedHeaderValues (r_lib r) (r_msg r) headers) keys"
| "test_holds r flags (AddressTest headers part ms keys) =
     values_match r ms (addressValues (r_lib r) (r_msg r) headers part) keys"
| "test_holds r flags (EnvelopeTest parts part ms keys) =
     values_match r ms (envelopeValues (r_msg r) parts part) keys"
| "test_holds r flags (BodyTest mode types ms keys) =
     values_match r ms (bodyValues (r_lib r) (r_msg r) mode types) keys"
| "test_holds r flags (HasflagTest ms keys) = values_match r ms flags keys"
| "test_holds r flags (SizeTest rel sz) = evaluateSizeTest (r_msg r) rel sz"
| "test_holds r flags (AllOfTest ts) = (\<forall>t \<in> set ts. test_holds r flags t)"
| "test_holds r flags (AnyOfTest ts) = (\<exists>t \<in> set ts. test_holds r flags t)"
| "test_holds r flags (ConstTest b) = b"
| "test_holds r flags (NotTest t) = (\<not> test_holds r flags t)"
| "test_holds r flags (ExistsTest names) = evaluateExists (r_msg r) names"

text \<open>Case folding a pattern that compiles leaves one that compiles, as for
  \<^verbatim>\<open>regexp.Compile\<close>: the flag group is a prefix of its own.\<close>

definition regexp_fold_law :: "golib \<Rightarrow> bool" where
  "regexp_fold_law lib = (\<forall>k. regexp_compile lib k \<longrightarrow> regexp_compile lib (''(?i)'' @ k))"

definition spec_ok :: "golib \<Rightarrow> matchSpec \<Rightarrow> string list \<Rightarrow> bool" where
  "spec_ok lib ms keys = (regexp_fold_law lib \<and> match_ok lib ms keys)"

lemma countKeys_sat:
  "sat limit_error (\<lambda>(b, s'). ticked s s' \<and>
     (b \<longleftrightarrow> (\<exists>k \<in> set keys. relationHolds rel (numericCompare n k)))) (countKeys r rel n keys s)"
proof (induction keys arbitrary: s)
  case (Cons k keys)
  show ?case
    unfolding countKeys.simps
    by (rule sat_bind [OF tick_sat], clarify, rule sat_if, force,
        rule sat_mono [OF Cons.IH], simp, auto intro: ticked_trans)
qed simp

lemma matchOne_err:
  assumes "matchOne r ms cmp nv nk v k folded = Inl e"
  shows "e = GlobLimit \<or>
    ms_Type ms = ''regex'' \<and> \<not> regexp_compile (r_lib r) (if folded then ''(?i)'' @ k else k) \<or>
    ms_Type ms \<notin> {''is'', ''contains'', ''matches'', ''regex'', ''value''}"
proof -
  have glob: "map_sum (\<lambda>_. GlobLimit) id x = Inl e \<Longrightarrow> e = GlobLimit" for x :: "glob_error + bool"
    by (cases x) auto
  show ?thesis
    using assms unfolding matchOne_def Let_def
    by (simp only: insert_iff empty_iff split: if_splits) (auto dest: glob)
qed

lemma matchOne_sat:
  assumes "ms_Type ms \<noteq> ''count''" "k \<in> set keys"
  shows "sat (\<lambda>e. spec_ok (r_lib r) ms keys \<longrightarrow> limit_error e) (\<lambda>_. True)
    (matchOne r ms cmp nv nk v k folded)"
proof -
  have "limit_error e" if e: "matchOne r ms cmp nv nk v k folded = Inl e" and ok: "spec_ok (r_lib r) ms keys" for e
  proof -
    have "ms_Type ms \<in> {''is'', ''contains'', ''matches'', ''regex'', ''value''}"
      using ok assms(1) by (auto simp: spec_ok_def match_ok_def matchTypes_def)
    moreover have "ms_Type ms = ''regex'' \<Longrightarrow> regexp_compile (r_lib r) (if folded then ''(?i)'' @ k else k)"
      using ok assms(2) by (simp add: spec_ok_def match_ok_def regexp_fold_law_def)
    ultimately show ?thesis using matchOne_err [OF e] by (metis insertI1 insertI2 limit_error_def)
  qed
  then show ?thesis by (simp add: sat_def split: sum.splits)
qed

lemma matchKeys_sat:
  assumes "ms_Type ms \<noteq> ''count''" "set ks \<subseteq> set keys"
    and "cmp = effective ms" "folded = (cmp = ''i;ascii-casemap'')"
  shows "sat (\<lambda>e. spec_ok (r_lib r) ms keys \<longrightarrow> limit_error e)
    (\<lambda>(b, s'). ticked s s' \<and> (b \<longleftrightarrow> (\<exists>k \<in> set ks. pair_matches r ms v k)))
    (matchKeys r ms cmp folded v ks s)"
  using assms(2)
proof (induction ks arbitrary: s)
  case (Cons k ks)
  have k: "k \<in> set keys" and ks: "set ks \<subseteq> set keys" using Cons.prems by auto
  note IH = Cons.IH [OF ks]
  show ?case
    unfolding matchKeys.simps Let_def
    apply (rule sat_bind [OF tick_sat_ok], clarify)
    apply (rule sat_bind [OF matchOne_sat [OF _ k]], use assms(1) in simp)
    apply (rule sat_if)
    subgoal by (auto simp: pair_matches_def assms(3,4) Let_def)
    subgoal by (rule sat_mono [OF IH], simp, auto simp: pair_matches_def assms(3,4) Let_def intro: ticked_trans)
    done
qed simp

lemma matchEach_sat:
  assumes "ms_Type ms \<noteq> ''count''"
    and "cmp = effective ms" "folded = (cmp = ''i;ascii-casemap'')"
  shows "sat (\<lambda>e. spec_ok (r_lib r) ms keys \<longrightarrow> limit_error e)
    (\<lambda>(b, s'). ticked s s' \<and> (b \<longleftrightarrow> (\<exists>v \<in> set vs. \<exists>k \<in> set keys. pair_matches r ms v k)))
    (matchEach r ms cmp folded vs keys s)"
proof (induction vs arbitrary: s)
  case (Cons v vs)
  show ?case
    unfolding matchEach.simps
    apply (rule sat_bind [OF matchKeys_sat [OF assms(1) subset_refl assms(2,3)]], clarify)
    apply (rule sat_if)
    subgoal by simp
    subgoal by (rule sat_mono [OF Cons.IH], simp, auto intro: ticked_trans)
    done
qed simp

lemma matchValues_sat:
  "sat (\<lambda>e. spec_ok (r_lib r) ms keys \<longrightarrow> limit_error e)
    (\<lambda>(b, s'). ticked s s' \<and> b = values_match r ms vs keys) (matchValues r ms vs keys s)"
  unfolding matchValues_def Let_def values_match_def effective_def [symmetric]
  apply (rule sat_if)
  subgoal by (rule sat_mono [OF countKeys_sat]) auto
  subgoal by (rule sat_mono [OF matchEach_sat]) auto
  done

text \<open>A test in the form the compiler leaves it, over a lawful library.\<close>

definition test_safe :: "golib \<Rightarrow> test \<Rightarrow> bool" where
  "test_safe lib t = (regexp_fold_law lib \<and> built_ok lib t)"

lemma matchTypes_colon: "t \<in> set matchTypes \<Longrightarrow> trim_prefix ('':'' @ t) '':'' = t \<and> t \<noteq> []"
  by (auto simp: matchTypes_def trim_prefix_def has_prefix_def)

lemma match_ok_parts:
  assumes "match_ok lib ms keys"
  shows "ms_Type ms \<in> set matchTypes" "normComparator (ms_Comparator ms) = Inr (ms_Comparator ms)"
proof -
  show "ms_Type ms \<in> set matchTypes" using assms unfolding match_ok_def by blast
  have "ms_Comparator ms \<in> {''i;ascii-casemap'', ''i;octet'', ''i;ascii-numeric''}"
    using assms unfolding match_ok_def by blast
  then show "normComparator (ms_Comparator ms) = Inr (ms_Comparator ms)"
    by (elim insertE emptyE) (simp_all add: normComparator_def)
qed

lemma header_spec_built:
  assumes "built_ok lib (HeaderTest hs keys mt rel cmp)"
  shows "match_ok lib (header_spec mt rel cmp) keys" "normComparator cmp = Inr cmp"
proof -
  obtain t where t: "mt = '':'' @ t"
      and m: "match_ok lib \<lparr>ms_Type = t, ms_Relation = rel, ms_Comparator = cmp\<rparr> keys"
    using assms by (simp only: built_ok.simps) blast
  note parts = match_ok_parts [OF m, simplified]
  show "normComparator cmp = Inr cmp" by (rule parts(2))
  show "match_ok lib (header_spec mt rel cmp) keys"
    using m matchTypes_colon [OF parts(1)] parts(2) by (simp only: header_spec_def t Let_def sum.case if_False)
qed

lemma evaluateHeaderTest_sat:
  "sat (\<lambda>e. test_safe (r_lib r) (HeaderTest hs keys mt rel cmp) \<longrightarrow> limit_error e)
     (\<lambda>(b, s'). ticked s s' \<and> b = test_holds r flags (HeaderTest hs keys mt rel cmp))
     (evaluateHeaderTest r hs keys mt rel cmp s)"
proof (cases "normComparator cmp")
  case (Inl e)
  then have "\<not> built_ok (r_lib r) (HeaderTest hs keys mt rel cmp)"
    using header_spec_built(2) by fastforce
  then show ?thesis
    by (simp only: evaluateHeaderTest_def compiled_def test_safe_def Inl map_sum.simps res_bind_simps sat_simps simp_thms)
next
  case (Inr c)
  have eq: "evaluateHeaderTest r hs keys mt rel cmp s =
      matchValues r (header_spec mt rel cmp) (decodedHeaderValues (r_lib r) (r_msg r) hs) keys s"
    by (simp add: evaluateHeaderTest_def compiled_def header_spec_def Let_def Inr)
  show ?thesis
    unfolding eq test_holds.simps
    by (rule sat_mono [OF matchValues_sat])
      (auto simp only: test_safe_def spec_ok_def dest: header_spec_built(1))
qed

lemma matchValues_test:
  assumes "test_safe (r_lib r) t \<Longrightarrow> match_ok (r_lib r) ms keys" "ticked s0 s"
    and "test_holds r (i_flags s0) t = values_match r ms vs keys"
  shows "sat (\<lambda>e. test_safe (r_lib r) t \<longrightarrow> limit_error e)
    (\<lambda>(b, s'). ticked s0 s' \<and> b = test_holds r (i_flags s0) t) (matchValues r ms vs keys s)"
  using assms
  by (auto intro!: sat_mono [OF matchValues_sat] intro: ticked_trans simp: spec_ok_def test_safe_def)

lemma evaluateTest_leaf:
  assumes "\<And>ts. t \<noteq> AllOfTest ts" "\<And>ts. t \<noteq> AnyOfTest ts" "\<And>t'. t \<noteq> NotTest t'"
  shows "sat (\<lambda>e. test_safe (r_lib r) t \<longrightarrow> limit_error e)
     (\<lambda>(b, s'). ticked s s' \<and> b = test_holds r (i_flags s) t) (evaluateTest r t s)"
  unfolding evaluateTest.simps [of r t s]
proof (rule sat_bind [OF tick_sat_ok], clarify)
  fix s1 assume t1: "ticked s s1"
  have header: "sat (\<lambda>e. test_safe (r_lib r) (HeaderTest hs keys mt rel cmp) \<longrightarrow> limit_error e)
     (\<lambda>(b, s'). ticked s s' \<and> b = test_holds r (i_flags s) (HeaderTest hs keys mt rel cmp))
     (evaluateHeaderTest r hs keys mt rel cmp s1)" for hs keys mt rel cmp
    by (rule sat_mono [OF evaluateHeaderTest_sat [where flags = "i_flags s"]])
      (auto intro: ticked_trans [OF t1])
  show "sat (\<lambda>e. test_safe (r_lib r) t \<longrightarrow> limit_error e)
     (\<lambda>(b, s'). ticked s s' \<and> b = test_holds r (i_flags s) t) (case t of
       HeaderTest headers keys mtype rel cmp \<Rightarrow> evaluateHeaderTest r headers keys mtype rel cmp s1
     | AddressTest headers part ms keys \<Rightarrow>
         matchValues r ms (addressValues (r_lib r) (r_msg r) headers part) keys s1
     | EnvelopeTest parts part ms keys \<Rightarrow> matchValues r ms (envelopeValues (r_msg r) parts part) keys s1
     | BodyTest mode types ms keys \<Rightarrow>
         matchValues r ms (bodyValues (r_lib r) (r_msg r) mode types) keys s1
     | HasflagTest ms keys \<Rightarrow> matchValues r ms (i_flags s1) keys s1
     | SizeTest rel sz \<Rightarrow> Inr (evaluateSizeTest (r_msg r) rel sz, s1)
     | AllOfTest ts \<Rightarrow> evaluateAll r ts s1
     | AnyOfTest ts \<Rightarrow> evaluateAny r ts s1
     | ConstTest b \<Rightarrow> Inr (b, s1)
     | NotTest t' \<Rightarrow> res_bind (evaluateTest r t' s1) (\<lambda>(b, s). Inr (\<not> b, s))
     | ExistsTest names \<Rightarrow> Inr (evaluateExists (r_msg r) names, s1))"
  proof (cases t)
    case (HeaderTest hs keys mt rel cmp)
    show ?thesis unfolding HeaderTest test.case by (rule header)
  next
    case (AddressTest hs part ms keys)
    show ?thesis
      unfolding AddressTest test.case by (rule matchValues_test [OF _ t1]) (simp_all add: test_safe_def ticked_sel [OF t1])
  next
    case (EnvelopeTest ps part ms keys)
    show ?thesis
      unfolding EnvelopeTest test.case by (rule matchValues_test [OF _ t1]) (simp_all add: test_safe_def ticked_sel [OF t1])
  next
    case (BodyTest mode types ms keys)
    show ?thesis
      unfolding BodyTest test.case by (rule matchValues_test [OF _ t1]) (simp_all add: test_safe_def ticked_sel [OF t1])
  next
    case (HasflagTest ms keys)
    show ?thesis
      unfolding HasflagTest test.case by (rule matchValues_test [OF _ t1]) (simp_all add: test_safe_def ticked_sel [OF t1])
  qed (use assms t1 in simp_all)
qed

lemma evaluateTest_sat:
  "sat (\<lambda>e. test_safe (r_lib r) t \<longrightarrow> limit_error e)
     (\<lambda>(b, s'). ticked s s' \<and> b = test_holds r (i_flags s) t) (evaluateTest r t s)"
  "sat (\<lambda>e. (\<forall>t \<in> set ts. test_safe (r_lib r) t) \<longrightarrow> limit_error e)
     (\<lambda>(b, s'). ticked s s' \<and> b = (\<forall>t \<in> set ts. test_holds r (i_flags s) t)) (evaluateAll r ts s)"
  "sat (\<lambda>e. (\<forall>t \<in> set ts. test_safe (r_lib r) t) \<longrightarrow> limit_error e)
     (\<lambda>(b, s'). ticked s s' \<and> b = (\<exists>t \<in> set ts. test_holds r (i_flags s) t)) (evaluateAny r ts s)"
proof (induction r t s and r ts s and r ts s rule: evaluateTest_evaluateAll_evaluateAny.induct)
  case (1 r t s)
  show ?case
  proof (cases t)
    case (AllOfTest ts)
    show ?thesis
      unfolding AllOfTest evaluateTest.simps [of r "AllOfTest ts" s] test.case
      by (rule sat_bind [OF tick_sat_ok], clarify, rule sat_mono [OF "1.IH"(1) [OF _ refl AllOfTest]])
        (auto intro: ticked_trans simp: ticked_sel test_safe_def)
  next
    case (AnyOfTest ts)
    show ?thesis
      unfolding AnyOfTest evaluateTest.simps [of r "AnyOfTest ts" s] test.case
      by (rule sat_bind [OF tick_sat_ok], clarify, rule sat_mono [OF "1.IH"(2) [OF _ refl AnyOfTest]])
        (auto intro: ticked_trans simp: ticked_sel test_safe_def)
  next
    case (NotTest t')
    show ?thesis
      unfolding NotTest evaluateTest.simps [of r "NotTest t'" s] test.case
      by (rule sat_bind [OF tick_sat_ok], clarify, rule sat_bind [OF sat_mono [OF "1.IH"(3) [OF _ refl NotTest],
              where Q = "\<lambda>(b, s'). ticked s s' \<and> b = test_holds r (i_flags s) t'"]])
        (auto intro: ticked_trans simp: ticked_sel test_safe_def)
  qed (rule evaluateTest_leaf; simp)+
next
  case (3 r t ts s)
  show ?case
    unfolding evaluateAll.simps
    apply (rule sat_bind [OF sat_mono [OF "3.IH"(1), where Q = "\<lambda>(b, s'). ticked s s' \<and> b = test_holds r (i_flags s) t"]])
      apply simp
     apply simp
    apply clarify
    apply (rule sat_if)
    subgoal by auto
    subgoal for b s1 by (rule sat_mono [OF "3.IH"(2)]) (auto intro: ticked_trans simp: ticked_sel)
    done
next
  case (5 r t ts s)
  show ?case
    unfolding evaluateAny.simps
    apply (rule sat_bind [OF sat_mono [OF "5.IH"(1), where Q = "\<lambda>(b, s'). ticked s s' \<and> b = test_holds r (i_flags s) t"]])
      apply simp
     apply simp
    apply clarify
    apply (rule sat_if)
    subgoal by auto
    subgoal for b s1 by (rule sat_mono [OF "5.IH"(2)]) (auto intro: ticked_trans simp: ticked_sel)
    done
qed simp_all

text \<open>A branch of a chain: \<^verbatim>\<open>else\<close> always holds.\<close>

definition branch_holds :: "run \<Rightarrow> string list \<Rightarrow> command \<Rightarrow> bool" where
  "branch_holds r flags cmd =
     (cmd_name cmd = ''else'' \<or>
      (case buildTest (r_lib r) (cmd_args cmd) (r_exts r) 0 of
         Inl _ \<Rightarrow> False | Inr t \<Rightarrow> test_holds r flags t))"

definition branch_safe :: "run \<Rightarrow> command \<Rightarrow> bool" where
  "branch_safe r cmd =
     (cmd_name cmd = ''else'' \<or>
      (\<exists>t. buildTest (r_lib r) (cmd_args cmd) (r_exts r) 0 = Inr t \<and> test_safe (r_lib r) t))"

lemma testHolds_sat:
  "sat (\<lambda>e. branch_safe r cmd \<longrightarrow> limit_error e)
     (\<lambda>(b, s'). ticked s s' \<and> b = branch_holds r (i_flags s) cmd) (testHolds r cmd s)"
proof (cases "cmd_name cmd = ''else''")
  case False
  then show ?thesis
    using evaluateTest_sat(1)
    by (cases "buildTest (r_lib r) (cmd_args cmd) (r_exts r) 0")
      (auto simp: testHolds_def branch_holds_def branch_safe_def compiled_def)
qed (simp add: testHolds_def branch_holds_def)

section \<open>The command loop, case by case\<close>

definition is_alt :: "command \<Rightarrow> bool" where
  "is_alt cmd = (cmd_name cmd = ''elsif'' \<or> cmd_name cmd = ''else'')"

definition is_branch :: "command \<Rightarrow> bool" where
  "is_branch cmd = (cmd_name cmd = ''if'' \<or> is_alt cmd)"

lemma commandLoop_stopped: "i_stopped s \<Longrightarrow> commandLoop r cmds c t all s = Inr (all, s)"
  by (cases cmds) simp_all

lemma commandLoop_if:
  "\<not> i_stopped s \<Longrightarrow> cmd_name cmd = ''if'' \<Longrightarrow>
   commandLoop r (cmd # cmds) c t all s =
     res_bind (executeConditional r cmd s) (\<lambda>((taken, actions), s).
       commandLoop r cmds True taken (all @ actions) s)"
  by simp

lemma commandLoop_alt:
  "\<not> i_stopped s \<Longrightarrow> is_alt cmd \<Longrightarrow>
   commandLoop r (cmd # cmds) c t all s =
     (if \<not> c then Inl (RunErrorf ''%s without preceding if'' [cmd_name cmd])
      else if t then commandLoop r cmds (cmd_name cmd \<noteq> ''else'') t all s
      else
        res_bind (executeConditional r cmd s) (\<lambda>((taken, actions), s).
          commandLoop r cmds (cmd_name cmd \<noteq> ''else'') taken (all @ actions) s))"
  by (auto simp: is_alt_def)

lemma commandLoop_require:
  "\<not> i_stopped s \<Longrightarrow> cmd_name cmd = ''require'' \<Longrightarrow>
   commandLoop r (cmd # cmds) c t all s = commandLoop r cmds False t all s"
  by simp

lemma commandLoop_action:
  "\<not> i_stopped s \<Longrightarrow> \<not> is_branch cmd \<Longrightarrow> cmd_name cmd \<noteq> ''require'' \<Longrightarrow>
   commandLoop r (cmd # cmds) c t all s =
     res_bind (executeCommand r cmd s) (\<lambda>(actions, s). commandLoop r cmds False t (all @ actions) s)"
  by (simp add: is_branch_def is_alt_def)

lemma executeCommand_action:
  "\<not> is_branch cmd \<Longrightarrow> cmd_name cmd \<noteq> ''require'' \<Longrightarrow>
   executeCommand r cmd s =
     res_bind (tick r 1 s) (\<lambda>(_, s).
       res_bind (compiled (compileCommand (r_lib r) cmd (r_exts r))) (\<lambda>pa. executeAction r cmd pa s))"
  by (simp add: executeCommand.simps is_branch_def is_alt_def)

lemmas commandLoop_cases = commandLoop_stopped commandLoop_if commandLoop_alt commandLoop_require
  commandLoop_action

text \<open>The induction that follows the nesting: a property of command lists that
  may use itself for the blocks of the branches.\<close>

lemma commands_induct [case_names Nil Cons]:
  assumes "P []"
    and "\<And>cmd cmds. (\<And>block. cmd_block cmd = Some block \<Longrightarrow> P block) \<Longrightarrow> P cmds \<Longrightarrow> P (cmd # cmds)"
  shows "P cmds"
proof (induction "size_list size cmds" arbitrary: cmds rule: less_induct)
  case less
  show ?case
  proof (cases cmds)
    case (Cons cmd rest)
    show ?thesis
      unfolding Cons
    proof (rule assms(2))
      show "P block" if "cmd_block cmd = Some block" for block
        using less [of block] block_size [OF that] by (simp add: Cons)
      show "P rest" using less [of rest] by (cases cmd) (simp add: Cons)
    qed
  qed (simp add: assms(1))
qed

section \<open>Invariants of a run\<close>

text \<open>
  The contract of a predicate on the interpreter state and the actions so far:
  charging operations keeps it, and so does every action command executed
  while the run is not stopped. Then every run keeps it, whatever the script.
\<close>

locale run_invariant =
  fixes r :: run
    and J :: "interp \<Rightarrow> action list \<Rightarrow> bool"
  assumes J_tick: "J s as \<Longrightarrow> ticked s s' \<Longrightarrow> J s' as"
    and J_action: "J s as \<Longrightarrow> \<not> i_stopped s \<Longrightarrow> executeAction r cmd pa s = Inr (bs, s') \<Longrightarrow> J s' (as @ bs)"
begin

lemma J_test: "J s as \<Longrightarrow> testHolds r cmd s = Inr (b, s') \<Longrightarrow> J s' as"
  using testHolds_sat [of r cmd s] J_tick by auto

lemma J_conditional:
  assumes "J s as" "executeConditional r cmd s = Inr ((b, bs), s')"
    and "\<And>block s as bs s'. cmd_block cmd = Some block \<Longrightarrow> J s as \<Longrightarrow>
      commandLoop r block False False [] s = Inr (bs, s') \<Longrightarrow> J s' (as @ bs)"
  shows "J s' (as @ bs)"
proof -
  obtain b1 s1 where t: "testHolds r cmd s = Inr (b1, s1)"
    using assms(2) by (auto simp: executeConditional.simps res_simps)
  then have "J s1 as" using assms(1) J_test by blast
  then show ?thesis
    using assms(2,3) t
    by (auto simp: executeConditional.simps executeCommands.simps res_simps split: option.splits if_splits)
qed

lemma run_J:
  "J s (as @ all) \<Longrightarrow> commandLoop r cmds c t all s = Inr (bs, s') \<Longrightarrow> J s' (as @ bs)"
proof (induction cmds arbitrary: c t all s as bs s' rule: commands_induct)
  case (Cons cmd cmds)
  have cond: "J s2 (as @ all @ bs1)" if "executeConditional r cmd s = Inr ((b, bs1), s2)" for b bs1 s2
    using J_conditional [OF Cons.prems(1) that] Cons.IH(1) [where all = "[]"] by simp
  show ?case
  proof (cases "i_stopped s")
    case True
    then show ?thesis using Cons.prems by (simp add: commandLoop_stopped)
  next
    case False
    consider "cmd_name cmd = ''if''" | "is_alt cmd" | "cmd_name cmd = ''require''"
      | "\<not> is_branch cmd" "cmd_name cmd \<noteq> ''require''" by (auto simp: is_branch_def)
    then show ?thesis
    proof cases
      case 1
      obtain b bs1 s1 where c: "executeConditional r cmd s = Inr ((b, bs1), s1)"
          "commandLoop r cmds True b (all @ bs1) s1 = Inr (bs, s')"
        using Cons.prems(2) by (auto simp: commandLoop_if [OF False 1] res_simps simp del: commandLoop.simps)
      show ?thesis by (rule Cons.IH(2) [OF cond [OF c(1)] c(2)])
    next
      case 2
      show ?thesis
      proof (cases t)
        case True
        then show ?thesis
          using Cons.prems Cons.IH(2) by (auto simp: commandLoop_alt [OF False 2] simp del: commandLoop.simps split: if_splits)
      next
        case nt: False
        obtain b bs1 s1 c' where c: "executeConditional r cmd s = Inr ((b, bs1), s1)"
            "commandLoop r cmds c' b (all @ bs1) s1 = Inr (bs, s')"
          using Cons.prems(2) nt
          by (auto simp: commandLoop_alt [OF False 2] res_simps simp del: commandLoop.simps split: if_splits)
        show ?thesis by (rule Cons.IH(2) [OF cond [OF c(1)] c(2)])
      qed
    next
      case 3
      then show ?thesis
        using Cons.prems Cons.IH(2) by (simp only: commandLoop_require [OF False])
    next
      case 4
      obtain bs1 s1 s2 pa where c: "tick r 1 s = Inr ((), s1)" "executeAction r cmd pa s1 = Inr (bs1, s2)"
          "commandLoop r cmds False t (all @ bs1) s2 = Inr (bs, s')"
        using Cons.prems(2)
        by (auto simp: commandLoop_action [OF False 4] executeCommand_action [OF 4] res_simps simp del: commandLoop.simps)
      have t1: "ticked s s1" using c(1) tick_sat [of s r 1] by simp
      have "J s2 ((as @ all) @ bs1)"
        using J_action [OF J_tick [OF Cons.prems(1) t1] _ c(2)] False ticked_sel [OF t1] by simp
      then show ?thesis using Cons.IH(2) c(3) by simp
    qed
  qed
qed simp

lemma runs_J: "J s [] \<Longrightarrow> executeCommands r cmds s = Inr (bs, s') \<Longrightarrow> J s' bs"
  using run_J [of s "[]" "[]"] by (simp add: executeCommands.simps)

end

section \<open>What the actions of a run satisfy\<close>

definition flags_ok :: "string list \<Rightarrow> bool" where
  "flags_ok xs = (length xs \<le> maxFlags \<and> distinct (map to_lower xs) \<and> list_all validFlag xs)"

definition flag_string :: "string \<Rightarrow> bool" where
  "flag_string f = (\<exists>xs. flags_ok xs \<and> f = str_join xs '' '')"

definition vacation_ok :: "vacation \<Rightarrow> bool" where
  "vacation_ok v =
     ((vc_Subject v \<noteq> [] \<or> vc_Body v \<noteq> []) \<and> vc_Days v \<le> MaxVacationDays \<and>
      (\<not> vc_SecondsSet v \<longrightarrow> 1 \<le> vc_Days v) \<and> vc_Seconds v \<le> MaxVacationDays * 86400)"

fun action_ok :: "action \<Rightarrow> bool" where
  "action_ok (KeepAction f) = flag_string f"
| "action_ok (FileintoAction folder copy f) = (folder \<noteq> [] \<and> validFileintoFolder folder \<and> flag_string f)"
| "action_ok (VacationAction v) = vacation_ok v"
| "action_ok _ = True"

fun redirects_of :: "action list \<Rightarrow> string list" where
  "redirects_of [] = []"
| "redirects_of (RedirectAction addr copy # as) = addr # redirects_of as"
| "redirects_of (_ # as) = redirects_of as"

fun handles_of :: "golib \<Rightarrow> action list \<Rightarrow> string list" where
  "handles_of lib [] = []"
| "handles_of lib (VacationAction v # as) = vacationHandle lib v # handles_of lib as"
| "handles_of lib (_ # as) = handles_of lib as"

lemma redirects_of_append [simp]: "redirects_of (as @ bs) = redirects_of as @ redirects_of bs"
  by (induction as rule: redirects_of.induct) auto

lemma handles_of_append [simp]: "handles_of lib (as @ bs) = handles_of lib as @ handles_of lib bs"
  by (induction as rule: handles_of.induct) auto

lemma normFields_ok:
  "flags_ok out \<Longrightarrow> length out < maxFlags \<Longrightarrow> flags_ok (normFields fs out)"
proof (induction fs out rule: normFields.induct)
  case (2 f fs out)
  then show ?case by (auto simp: flags_ok_def)
qed simp

lemma flags_ok_Nil [simp]: "flags_ok []"
  by (simp add: flags_ok_def)

lemma normFlags_ok: "flags_ok (normFlags xs)"
  unfolding normFlags_def by (rule normFields_ok) (simp_all add: maxFlags_def)

lemma flags_ok_filter: "flags_ok flags \<Longrightarrow> flags_ok (filter P flags)"
  using order_trans [OF length_filter_le [of P flags]]
  by (simp add: flags_ok_def list_all_iff distinct_map_filter)

lemma editFlags_ok: "flags_ok flags \<Longrightarrow> flags_ok (editFlags op xs flags)"
  by (simp add: editFlags_def Let_def normFlags_ok flags_ok_filter)

lemma actionFlags_ok: "flags_ok (i_flags s) \<Longrightarrow> flag_string (actionFlags s pa)"
  unfolding actionFlags_def flag_string_def using normFlags_ok by auto

lemma clampVacation_ok:
  "vc_Subject v \<noteq> [] \<or> vc_Body v \<noteq> [] \<Longrightarrow> vacation_ok (clampVacation v)"
  by (auto simp: vacation_ok_def clampVacation_def Let_def MaxVacationDays_def)

definition run_ok :: "run \<Rightarrow> interp \<Rightarrow> action list \<Rightarrow> bool" where
  "run_ok r s as =
     (flags_ok (i_flags s) \<and> list_all action_ok as \<and>
      redirects_of as = i_redirected s \<and> distinct (map to_lower (i_redirected s)) \<and>
      distinct (handles_of (r_lib r) as) \<and> set (handles_of (r_lib r) as) = i_vacHandles s \<and>
      i_ops s \<le> maxRunOps \<and>
      (StopAction \<in> set as \<longleftrightarrow> i_stopped s) \<and> (i_stopped s \<longrightarrow> last as = StopAction))"

lemma run_ok_tick:
  assumes "run_ok r s as" "ticked s s'"
  shows "run_ok r s' as"
proof -
  have "i_ops s \<le> maxRunOps \<Longrightarrow> i_ops s' \<le> maxRunOps" using assms(2) by (auto simp: ticked_def)
  then show ?thesis using assms(1) unfolding run_ok_def ticked_sel [OF assms(2)] by blast
qed

lemma run_ok_emit:
  assumes "run_ok r s as" "\<not> i_stopped s" "action_ok a" "redirects_of [a] = []" "handles_of (r_lib r) [a] = []"
    "a \<noteq> StopAction"
  shows "run_ok r s (as @ [a])"
  using assms unfolding run_ok_def by simp

lemma run_ok_fileinto:
  assumes "run_ok r s as" "\<not> i_stopped s" "executeFileinto pa s = Inr (bs, s')"
  shows "run_ok r s' (as @ bs)"
proof -
  have fs: "flag_string (actionFlags s pa)" using assms(1) actionFlags_ok by (simp add: run_ok_def)
  obtain folder where "(if folder = [] then Inr ([], s)
     else if \<not> validFileintoFolder folder then Inr ([KeepAction (actionFlags s pa)], s)
     else Inr ([FileintoAction folder (pa_has pa ''copy'') (actionFlags s pa)], s)) =
       (Inr (bs, s') :: action list iresult)"
    using assms(3) unfolding executeFileinto_def res_bind_eq_Inr by blast
  then show ?thesis
    using assms(1,2) fs by (auto intro!: run_ok_emit split: if_splits)
qed

lemma run_ok_redirect:
  assumes "run_ok r s as" "\<not> i_stopped s" "executeRedirect r pa s = Inr (bs, s')"
  shows "run_ok r s' (as @ bs)"
proof -
  have new: "run_ok r (s\<lparr>i_redirected := i_redirected s @ [addr]\<rparr>) (as @ [RedirectAction addr copy])"
    if "\<not> (\<exists>prev \<in> set (i_redirected s). equal_fold prev addr)" for addr copy
    using assms(1,2) that unfolding run_ok_def equal_fold_def by auto
  show ?thesis
    using assms(1,3) new unfolding executeRedirect_def res_bind_eq_Inr
    by (fastforce split: if_splits option.splits)
qed

lemma clampVacation_text [simp]:
  "vc_Subject (clampVacation v) = vc_Subject v" "vc_Body (clampVacation v) = vc_Body v"
  by (simp_all add: clampVacation_def Let_def)

lemma run_ok_vacation:
  assumes "run_ok r s as" "\<not> i_stopped s" "executeVacation r cmd s = (bs, s')"
  shows "run_ok r s' (as @ bs)"
proof -
  define v where "v = clampVacation (vacationArgs (fullArgs cmd) defaultVacation)"
  have ok: "vacation_ok v" if "\<not> (vc_Subject v = [] \<and> vc_Body v = [])"
    using that unfolding v_def by (intro clampVacation_ok) (simp only: clampVacation_text de_Morgan_conj)
  have new: "run_ok r (s\<lparr>i_vacHandles := insert h (i_vacHandles s)\<rparr>) (as @ [VacationAction v])"
    if "vacation_ok v" "h = vacationHandle (r_lib r) v" "h \<notin> i_vacHandles s" for h
    using assms(1,2) that unfolding run_ok_def by auto
  show ?thesis
    using assms(1,3) ok new unfolding executeVacation_def v_def [symmetric] Let_def
    by (simp only: prod.inject split: if_splits) auto
qed

lemma run_ok_action:
  assumes ok: "run_ok r s as" and ns: "\<not> i_stopped s" and act: "executeAction r cmd pa s = Inr (bs, s')"
  shows "run_ok r s' (as @ bs)"
proof -
  have stop: "run_ok r (s\<lparr>i_stopped := True\<rparr>) (as @ [StopAction])"
    using ok ns unfolding run_ok_def by simp
  have keep: "run_ok r s (as @ [KeepAction (actionFlags s pa)])"
    using ok ns actionFlags_ok by (intro run_ok_emit) (simp_all add: run_ok_def)
  have edit: "run_ok r (s\<lparr>i_flags := editFlags op xs (i_flags s)\<rparr>) as" for op xs
    using ok editFlags_ok unfolding run_ok_def by simp
  have discard: "run_ok r s (as @ [DiscardAction])" by (rule run_ok_emit [OF ok ns]) simp_all
  have reject: "run_ok r s (as @ [RejectAction m])" for m by (rule run_ok_emit [OF ok ns]) simp_all
  show ?thesis
    using act unfolding executeAction_def Let_def
    apply (elim if_eqE)
    subgoal using stop by (metis sum.inject(2) prod.inject)
    subgoal using discard by (metis sum.inject(2) prod.inject)
    subgoal using keep by (metis sum.inject(2) prod.inject)
    subgoal using run_ok_fileinto [OF ok ns] by blast
    subgoal using run_ok_redirect [OF ok ns] by blast
    subgoal unfolding res_bind_eq_Inr using reject by (metis sum.inject(2) prod.inject)
    subgoal using run_ok_vacation [OF ok ns, of cmd bs s'] by (simp only: sum.inject)
    subgoal unfolding res_bind_eq_Inr using edit by (metis sum.inject(2) prod.inject append_Nil2)
    subgoal by (simp only: sum.distinct)
    done
qed

interpretation ok: run_invariant r "run_ok r" for r
  by unfold_locales (blast intro: run_ok_tick run_ok_action)+

section \<open>The result of a run\<close>

definition actions_ok :: "golib \<Rightarrow> action list \<Rightarrow> bool" where
  "actions_ok lib as =
     (as \<noteq> [] \<and> length as \<le> maxActions + 1 \<and> list_all action_ok as \<and>
      length (redirects_of as) \<le> maxRedirects \<and> distinct (map to_lower (redirects_of as)) \<and>
      distinct (handles_of lib as) \<and>
      (list_ex is_delivery as \<longrightarrow> \<not> list_ex is_reject as \<and> DiscardAction \<notin> set as))"

lemma redirects_of_length: "length (redirects_of as) = length (filter is_redirect as)"
  by (induction as rule: redirects_of.induct) (auto simp: is_redirect_def)

lemma redirects_of_filter: "redirects_of (filter (\<lambda>a. a \<noteq> DiscardAction) as) = redirects_of as"
  by (induction as rule: redirects_of.induct) auto

lemma handles_of_filter: "handles_of lib (filter (\<lambda>a. a \<noteq> DiscardAction) as) = handles_of lib as"
  by (induction as rule: redirects_of.induct) auto

lemma dropCancelledDiscard_lists:
  "redirects_of (dropCancelledDiscard as) = redirects_of as"
  "handles_of lib (dropCancelledDiscard as) = handles_of lib as"
  "list_all action_ok as \<Longrightarrow> list_all action_ok (dropCancelledDiscard as)"
  by (auto simp: dropCancelledDiscard_def redirects_of_filter handles_of_filter list_all_iff)

lemma dropCancelledDiscard_delivers:
  "list_ex is_delivery (dropCancelledDiscard as) \<Longrightarrow> DiscardAction \<notin> set (dropCancelledDiscard as)"
  by (auto simp: dropCancelledDiscard_def list_ex_iff)

lemma copiesOnly_Some:
  "copiesOnly as b = Some c \<Longrightarrow> \<not> list_ex is_reject as \<and> DiscardAction \<notin> set as"
  by (induction as b rule: copiesOnly.induct) (auto simp: is_reject_def split: action.splits if_splits)

lemma flag_string_join: "flags_ok xs \<Longrightarrow> flag_string (str_join xs '' '')"
  by (auto simp: flag_string_def)

lemma keepWithCopies_ok:
  assumes "actions_ok lib as" "length as \<le> maxActions" "flag_string f"
  shows "actions_ok lib (keepWithCopies as f)"
proof (cases "keepWithCopies as f = as")
  case False
  then have eq: "keepWithCopies as f = as @ [KeepAction f]" "copiesOnly as False = Some True"
    by (auto simp: keepWithCopies_def split: option.splits if_splits)
  show ?thesis
    using assms copiesOnly_Some [OF eq(2)] unfolding eq(1)
    by (simp add: actions_ok_def is_reject_def)
qed (simp add: assms)

lemma checkActions_ok:
  assumes "checkActions as = Inr u"
  shows "length as \<le> maxActions" "length (redirects_of as) \<le> maxRedirects"
    "list_ex is_delivery as \<Longrightarrow> \<not> list_ex is_reject as"
  using assms by (auto simp: checkActions_def Let_def redirects_of_length list_ex_iff split: if_splits)

lemma run_ok_start: "run_ok r interp0 []"
  by (simp add: run_ok_def interp0_def)

definition finish :: "action list \<Rightarrow> string list \<Rightarrow> action list" where
  \<comment> \<open>what a run makes of the actions its commands gave and the flags they left\<close>
  "finish all0 flags =
     (let all = dropCancelledDiscard all0 in
      if all = [] then [KeepAction (str_join flags '' '')]
      else keepWithCopies all (str_join flags '' ''))"

lemma runScript_Inr:
  "runScript lib expired sc msg = Inr as \<longleftrightarrow>
     (\<exists>exts all0 s. (case s_exts sc of Some e \<Rightarrow> Inr e | None \<Rightarrow> compiled (checkScript lib sc)) = Inr exts \<and>
        executeCommands \<lparr>r_lib = lib, r_msg = msg, r_exts = exts, r_expired = expired\<rparr>
          (s_Commands sc) interp0 = Inr (all0, s) \<and>
        checkActions (dropCancelledDiscard all0) = Inr () \<and> as = finish all0 (i_flags s))"
proof -
  have fin: "(if b then Inr x else Inr y) = Inr as \<longleftrightarrow> as = (if b then x else y)" for b and x y :: "action list"
    by auto
  show ?thesis
    unfolding runScript_def res_bind_eq_Inr Let_def split_def fin finish_def by auto
qed

lemma runScript_ok:
  assumes "runScript lib expired sc msg = Inr as"
  shows "actions_ok lib as"
proof -
  obtain exts all0 s where run: "executeCommands \<lparr>r_lib = lib, r_msg = msg, r_exts = exts, r_expired = expired\<rparr>
        (s_Commands sc) interp0 = Inr (all0, s)"
      and chk: "checkActions (dropCancelledDiscard all0) = Inr ()"
      and as: "as = finish all0 (i_flags s)"
    using assms unfolding runScript_Inr by blast
  note ok = ok.runs_J [OF run_ok_start run, unfolded run_ok_def, simplified]
  have flags: "flag_string (str_join (i_flags s) '' '')" using ok flag_string_join by blast
  show ?thesis
  proof (cases "dropCancelledDiscard all0 = []")
    case True
    then show ?thesis using as flags by (simp add: finish_def actions_ok_def is_reject_def)
  next
    case False
    have "actions_ok lib (dropCancelledDiscard all0)"
      using False ok checkActions_ok [OF chk] dropCancelledDiscard_delivers [of all0]
      by (simp add: actions_ok_def dropCancelledDiscard_lists)
    then show ?thesis using keepWithCopies_ok checkActions_ok(1) [OF chk] flags False as
      by (simp add: finish_def)
  qed
qed

text \<open>C10. Whatever script runs on whatever message, and whether or not the run
  fails, the actions handed to delivery are well formed: at least one and at
  most 257 of them, no reject or discard beside a delivery, at most 16
  redirects to addresses distinct up to case, at most one vacation reply per
  handle, every vacation interval within its bounds, every folder name free of
  traversal, and every flag list made of at most 64 valid flags distinct up to
  case.\<close>

theorem Execute_actions_ok: "actions_ok lib (fst (Execute lib expired sc msg))"
  using runScript_ok flag_string_join [OF flags_ok_Nil]
  by (auto simp: Execute_def actions_ok_def is_reject_def split: sum.splits)

section \<open>The meaning of a script\<close>

text \<open>
  The specification: a chain is an \<^verbatim>\<open>if\<close> with the \<^verbatim>\<open>elsif\<close> and \<^verbatim>\<open>else\<close> commands
  that follow it; the block of its first branch that holds runs, and execution
  goes on after the chain. No operations are charged, nothing fails, and the
  state has no operation counters.
\<close>

definition untick :: "interp \<Rightarrow> interp" where
  "untick s = s\<lparr>i_ops := 0, i_sinceClock := 0\<rparr>"

definition act :: "run \<Rightarrow> command \<Rightarrow> interp \<Rightarrow> action list \<times> interp" where
  "act r cmd s =
     (case compileCommand (r_lib r) cmd (r_exts r) of
        Inl _ \<Rightarrow> ([], s)
      | Inr pa \<Rightarrow> (case executeAction r cmd pa s of Inl _ \<Rightarrow> ([], s) | Inr res \<Rightarrow> res))"

definition block_of :: "command \<Rightarrow> command list" where
  "block_of cmd = (case cmd_block cmd of None \<Rightarrow> [] | Some b \<Rightarrow> b)"

lemma block_of_size: "cmd \<in> set cmds \<Longrightarrow> size_list size (block_of cmd) < size_list size cmds"
proof (induction cmds)
  case (Cons c cmds)
  have "size_list size (block_of c) < size c"
    using block_size [of c] by (cases c) (auto simp: block_of_def split: option.splits)
  then show ?case using Cons by auto
qed simp

lemma size_dropWhile: "size_list size (dropWhile P cmds) \<le> size_list size cmds"
  by (induction cmds) auto

lemma find_mem: "find P xs = Some x \<Longrightarrow> x \<in> set xs \<and> P x"
  by (auto simp: find_Some_iff)

function meaning :: "run \<Rightarrow> command list \<Rightarrow> interp \<Rightarrow> action list \<times> interp" where
  "meaning r [] s = ([], s)"
| "meaning r (cmd # cmds) s =
     (if i_stopped s then ([], s)
      else if cmd_name cmd = ''if'' then
        (case find (branch_holds r (i_flags s)) (cmd # takeWhile is_alt cmds) of
           None \<Rightarrow> meaning r (dropWhile is_alt cmds) s
         | Some b \<Rightarrow>
             (let (as, s') = meaning r (block_of b) s;
                  (bs, s'') = meaning r (dropWhile is_alt cmds) s'
              in (as @ bs, s'')))
      else if cmd_name cmd = ''require'' then meaning r cmds s
      else
        (let (as, s') = act r cmd s; (bs, s'') = meaning r cmds s' in (as @ bs, s'')))"
  by pat_completeness auto
termination
proof (relation "measure (\<lambda>(_, cmds, _). size_list size cmds)", goal_cases)
  case (3 r cmd cmds s b)
  then have "b = cmd \<or> b \<in> set cmds"
    using find_mem [of "branch_holds r (i_flags s)" "cmd # takeWhile is_alt cmds" b] set_takeWhileD by fastforce
  then have "size_list size (block_of b) < size_list size (cmd # cmds)"
    using block_of_size [of b "cmd # cmds"] by auto
  then show ?case by simp
qed (simp_all add: le_imp_less_Suc size_dropWhile trans_le_add2)

declare meaning.simps(2) [simp del]

definition and_then :: "action list \<times> interp \<Rightarrow> (interp \<Rightarrow> action list \<times> interp) \<Rightarrow> action list \<times> interp" where
  "and_then p f = (let (as, s) = p; (bs, s') = f s in (as @ bs, s'))"

definition chain :: "run \<Rightarrow> command list \<Rightarrow> command list \<Rightarrow> interp \<Rightarrow> action list \<times> interp" where
  \<comment> \<open>the branches of a chain and what follows it\<close>
  "chain r branches rest s =
     (case find (branch_holds r (i_flags s)) branches of
        None \<Rightarrow> meaning r rest s
      | Some b \<Rightarrow> and_then (meaning r (block_of b) s) (meaning r rest))"

definition rest_meaning :: "run \<Rightarrow> bool \<Rightarrow> bool \<Rightarrow> command list \<Rightarrow> interp \<Rightarrow> action list \<times> interp" where
  \<comment> \<open>the meaning of the rest of a block inside or outside a chain\<close>
  "rest_meaning r c t cmds s =
     (if \<not> c then meaning r cmds s
      else chain r (if t then [] else takeWhile is_alt cmds) (dropWhile is_alt cmds) s)"

lemma meaning_stopped [simp]: "i_stopped s \<Longrightarrow> meaning r cmds s = ([], s)"
  by (cases cmds) (simp_all add: meaning.simps)

lemma meaning_if:
  "\<not> i_stopped s \<Longrightarrow> cmd_name cmd = ''if'' \<Longrightarrow>
   meaning r (cmd # cmds) s = chain r (cmd # takeWhile is_alt cmds) (dropWhile is_alt cmds) s"
  by (simp add: meaning.simps chain_def and_then_def split: option.splits)

lemma meaning_require:
  "\<not> i_stopped s \<Longrightarrow> cmd_name cmd = ''require'' \<Longrightarrow> meaning r (cmd # cmds) s = meaning r cmds s"
  by (simp add: meaning.simps)

lemma meaning_action:
  "\<not> i_stopped s \<Longrightarrow> \<not> is_branch cmd \<Longrightarrow> cmd_name cmd \<noteq> ''require'' \<Longrightarrow>
   meaning r (cmd # cmds) s = and_then (act r cmd s) (meaning r cmds)"
  by (simp add: meaning.simps and_then_def is_branch_def)

lemma rest_meaning_other:
  "\<not> is_alt cmd \<Longrightarrow> rest_meaning r c t (cmd # cmds) s = meaning r (cmd # cmds) s"
  by (simp add: rest_meaning_def chain_def)

lemma rest_meaning_stopped: "i_stopped s \<Longrightarrow> \<not> (c \<and> \<not> t) \<Longrightarrow> rest_meaning r c t cmds s = ([], s)"
  by (auto simp: rest_meaning_def chain_def)

lemma untick_sel [simp]:
  "i_stopped (untick s) = i_stopped s" "i_flags (untick s) = i_flags s"
  "i_redirected (untick s) = i_redirected s" "i_vacHandles (untick s) = i_vacHandles s"
  by (simp_all add: untick_def)

lemma untick_upd:
  "untick (s\<lparr>i_stopped := b\<rparr>) = untick s\<lparr>i_stopped := b\<rparr>"
  "untick (s\<lparr>i_flags := fs\<rparr>) = untick s\<lparr>i_flags := fs\<rparr>"
  "untick (s\<lparr>i_redirected := rs\<rparr>) = untick s\<lparr>i_redirected := rs\<rparr>"
  "untick (s\<lparr>i_vacHandles := hs\<rparr>) = untick s\<lparr>i_vacHandles := hs\<rparr>"
  by (simp_all add: untick_def)

lemma untick_ticked: "ticked s s' \<Longrightarrow> untick s' = untick s"
  by (auto simp: ticked_def untick_def)

lemma executeAction_untick:
  "executeAction r cmd pa (untick s) = map_sum id (\<lambda>(as, s'). (as, untick s')) (executeAction r cmd pa s)"
proof -
  have flags: "actionFlags (untick s) pa = actionFlags s pa" by (simp add: actionFlags_def)
  have bind: "map_sum id g (res_bind m f) = res_bind m (\<lambda>x. map_sum id g (f x))"
    for g m and f :: "'x \<Rightarrow> run_error + action list \<times> interp" by (cases m) simp_all
  show ?thesis
    unfolding executeAction_def executeFileinto_def executeRedirect_def executeVacation_def Let_def flags
    by (simp add: bind untick_upd if_distrib [of "map_sum id _"] if_distrib [of "\<lambda>p. case p of (as, s') \<Rightarrow> (as, untick s')"]
        option.case_distrib [of "map_sum id _"] cong: if_cong option.case_cong)
qed

lemma act_refines:
  assumes "compileCommand (r_lib r) cmd (r_exts r) = Inr pa" "executeAction r cmd pa s = Inr (as, s')"
  shows "act r cmd (untick s) = (as, untick s')"
  using assms by (simp add: act_def executeAction_untick)

lemma conditional_refines:
  assumes "executeConditional r cmd s = Inr ((b, as), s')"
    and "\<And>block s as s'. cmd_block cmd = Some block \<Longrightarrow>
      commandLoop r block False False [] s = Inr (as, s') \<Longrightarrow> meaning r block (untick s) = (as, untick s')"
  shows "b = branch_holds r (i_flags s) cmd"
    "b \<Longrightarrow> meaning r (block_of cmd) (untick s) = (as, untick s')"
    "\<not> b \<Longrightarrow> as = [] \<and> untick s' = untick s"
proof -
  obtain b1 s1 where t: "testHolds r cmd s = Inr (b1, s1)"
    using assms(1) by (auto simp: executeConditional.simps res_simps)
  have t1: "ticked s s1" "b1 = branch_holds r (i_flags s) cmd"
    using testHolds_sat [of r cmd s] t by auto
  have u: "untick s1 = untick s" by (rule untick_ticked [OF t1(1)])
  have all: "b = b1 \<and> (b \<longrightarrow> meaning r (block_of cmd) (untick s) = (as, untick s')) \<and>
    (\<not> b \<longrightarrow> as = [] \<and> untick s' = untick s)"
  proof (cases "cmd_block cmd")
    case None
    then show ?thesis using assms(1) t u by (auto simp: executeConditional.simps block_of_def)
  next
    case (Some block)
    show ?thesis
    proof (cases b1)
      case True
      then have b: "b" and run: "commandLoop r block False False [] s1 = Inr (as, s')"
        using assms(1) t Some by (auto simp: executeConditional.simps executeCommands.simps res_simps)
      then show ?thesis using assms(2) [OF Some run] True Some u by (simp add: block_of_def)
    next
      case False
      then show ?thesis using assms(1) t Some u by (auto simp: executeConditional.simps)
    qed
  qed
  show "b = branch_holds r (i_flags s) cmd" using all t1 by simp
  show "b \<Longrightarrow> meaning r (block_of cmd) (untick s) = (as, untick s')" using all by simp
  show "\<not> b \<Longrightarrow> as = [] \<and> untick s' = untick s" using all by simp
qed

text \<open>After a chain the loop meets no further branch of it.\<close>

lemma loop_leaves_chain:
  assumes "commandLoop r cmds False t all s = Inr res"
  shows "meaning r cmds (untick s) = meaning r (dropWhile is_alt cmds) (untick s)"
proof (cases "i_stopped s \<or> cmds = [] \<or> \<not> is_alt (hd cmds)")
  case True
  then show ?thesis by (cases cmds) auto
next
  case False
  then obtain cmd rest where "cmds = cmd # rest" "is_alt cmd" by (cases cmds) auto
  then show ?thesis using assms False commandLoop_alt [of s cmd r rest False t all] by simp
qed

lemma taken_rest:
  assumes "commandLoop r cmds c True all s = Inr res"
  shows "rest_meaning r c True cmds (untick s) = meaning r (dropWhile is_alt cmds) (untick s)"
  using assms loop_leaves_chain [of r cmds True all s res]
  by (cases c) (simp_all add: rest_meaning_def chain_def)

text \<open>One branch of a chain: taken, the rest of the chain is passed over; not
  taken, the search goes on.\<close>

lemma branch_refines:
  assumes cond: "executeConditional r cmd s = Inr ((b, as1), s1)" and ns: "\<not> i_stopped s"
    and loop: "commandLoop r cmds c b (all @ as1) s1 = Inr (bs, s')"
    and c: "\<not> b \<Longrightarrow> c"
    and block: "\<And>block s as s'. cmd_block cmd = Some block \<Longrightarrow>
      commandLoop r block False False [] s = Inr (as, s') \<Longrightarrow> meaning r block (untick s) = (as, untick s')"
    and rest: "\<not> (c \<and> \<not> b \<and> i_stopped s1) \<Longrightarrow>
      \<exists>as. rest_meaning r c b cmds (untick s1) = (as, untick s') \<and> bs = (all @ as1) @ as"
  shows "\<exists>as. chain r (cmd # takeWhile is_alt cmds) (dropWhile is_alt cmds) (untick s) = (as, untick s') \<and>
    bs = all @ as"
proof -
  have holds: "b = branch_holds r (i_flags s) cmd"
    by (rule conditional_refines(1) [OF cond block])
  show ?thesis
  proof (cases b)
    case True
    have run: "meaning r (block_of cmd) (untick s) = (as1, untick s1)"
      by (rule conditional_refines(2) [OF cond block True])
    obtain as2 where as2: "rest_meaning r c b cmds (untick s1) = (as2, untick s')" "bs = (all @ as1) @ as2"
      using rest True by auto
    have "meaning r (dropWhile is_alt cmds) (untick s1) = (as2, untick s')"
      using as2(1) taken_rest [of r cmds c "all @ as1" s1] loop True by simp
    then have "chain r (cmd # takeWhile is_alt cmds) (dropWhile is_alt cmds) (untick s) = (as1 @ as2, untick s')"
      using holds True run by (simp add: chain_def and_then_def)
    then show ?thesis using as2(2) by auto
  next
    case False
    have as1: "as1 = []" "untick s1 = untick s"
      using conditional_refines(3) [OF cond block False] by blast+
    have "\<not> i_stopped s1" using ns as1(2) untick_sel(1) by metis
    then obtain as where as: "rest_meaning r True False cmds (untick s) = (as, untick s')" "bs = all @ as"
      using rest c [OF False] False as1 by auto
    have "chain r (cmd # takeWhile is_alt cmds) (dropWhile is_alt cmds) (untick s) =
        rest_meaning r True False cmds (untick s)"
      using holds False by (simp add: rest_meaning_def chain_def)
    then show ?thesis using as by simp
  qed
qed

text \<open>A command list whose loop refines its meaning, inside or outside a chain; the
  cases of the loop for the head of the list.\<close>

definition refined :: "run \<Rightarrow> command list \<Rightarrow> bool" where
  "refined r cmds =
     (\<forall>c t all s bs s'. commandLoop r cmds c t all s = Inr (bs, s') \<longrightarrow> \<not> (c \<and> \<not> t \<and> i_stopped s) \<longrightarrow>
        (\<exists>as. rest_meaning r c t cmds (untick s) = (as, untick s') \<and> bs = all @ as))"

lemma refinedD:
  "refined r cmds \<Longrightarrow> commandLoop r cmds c t all s = Inr (bs, s') \<Longrightarrow> \<not> (c \<and> \<not> t \<and> i_stopped s) \<Longrightarrow>
     \<exists>as. rest_meaning r c t cmds (untick s) = (as, untick s') \<and> bs = all @ as"
  unfolding refined_def by blast

lemma refined_block:
  "refined r block \<Longrightarrow> commandLoop r block False False [] s = Inr (as, s') \<Longrightarrow>
     meaning r block (untick s) = (as, untick s')"
  using refinedD [of r block False False "[]" s as s'] by (simp add: rest_meaning_def)

lemma refined_if:
  assumes "\<And>block. cmd_block cmd = Some block \<Longrightarrow> refined r block" "refined r cmds"
    and "cmd_name cmd = ''if''" and ns: "\<not> i_stopped s"
    and loop: "commandLoop r (cmd # cmds) c t all s = Inr (bs, s')"
  shows "\<exists>as. rest_meaning r c t (cmd # cmds) (untick s) = (as, untick s') \<and> bs = all @ as"
proof -
  obtain b as1 s1 where step: "executeConditional r cmd s = Inr ((b, as1), s1)"
      "commandLoop r cmds True b (all @ as1) s1 = Inr (bs, s')"
    using loop by (auto simp: commandLoop_if [OF ns assms(3)] res_simps simp del: commandLoop.simps)
  have "\<not> is_alt cmd" using assms(3) by (simp add: is_alt_def)
  then have eq: "rest_meaning r c t (cmd # cmds) (untick s) =
      chain r (cmd # takeWhile is_alt cmds) (dropWhile is_alt cmds) (untick s)"
    using assms(3) ns by (simp add: rest_meaning_other meaning_if)
  show ?thesis
    unfolding eq
    by (rule branch_refines [OF step(1) ns step(2)], simp, erule refined_block [OF assms(1)], assumption,
        erule refinedD [OF assms(2) step(2)])
qed

lemma refined_alt:
  assumes blocks: "\<And>block. cmd_block cmd = Some block \<Longrightarrow> refined r block" and rest: "refined r cmds"
    and alt: "is_alt cmd" and ns: "\<not> i_stopped s"
    and loop: "commandLoop r (cmd # cmds) c t all s = Inr (bs, s')"
  shows "\<exists>as. rest_meaning r c t (cmd # cmds) (untick s) = (as, untick s') \<and> bs = all @ as"
proof -
  define c' where "c' = (cmd_name cmd \<noteq> ''else'')"
  have c: "c" using loop by (auto simp: commandLoop_alt [OF ns alt] simp del: commandLoop.simps split: if_splits)
  show ?thesis
  proof (cases t)
    case True
    have step: "commandLoop r cmds c' True all s = Inr (bs, s')"
      using loop c True by (simp add: commandLoop_alt [OF ns alt] c'_def del: commandLoop.simps)
    have "rest_meaning r c t (cmd # cmds) (untick s) = rest_meaning r c' True cmds (untick s)"
      using taken_rest [OF step] c True alt by (simp add: rest_meaning_def chain_def)
    then show ?thesis using refinedD [OF rest step] by simp
  next
    case False
    obtain b as1 s1 where step: "executeConditional r cmd s = Inr ((b, as1), s1)"
        "commandLoop r cmds c' b (all @ as1) s1 = Inr (bs, s')"
      using loop c False
      by (auto simp: commandLoop_alt [OF ns alt] c'_def [symmetric] res_simps simp del: commandLoop.simps)
    have "b = branch_holds r (i_flags s) cmd"
      by (rule conditional_refines(1) [OF step(1)]) (erule refined_block [OF blocks], assumption)
    then have c': "\<not> b \<Longrightarrow> c'" by (auto simp: branch_holds_def c'_def)
    have eq: "rest_meaning r c t (cmd # cmds) (untick s) =
        chain r (cmd # takeWhile is_alt cmds) (dropWhile is_alt cmds) (untick s)"
      using c False alt by (simp add: rest_meaning_def)
    show ?thesis
      unfolding eq
      by (rule branch_refines [OF step(1) ns step(2)], erule c', erule refined_block [OF blocks], assumption,
          erule refinedD [OF rest step(2)])
  qed
qed

lemma refined_action:
  assumes rest: "refined r cmds" and cmd: "\<not> is_branch cmd" "cmd_name cmd \<noteq> ''require''"
    and ns: "\<not> i_stopped s" and loop: "commandLoop r (cmd # cmds) c t all s = Inr (bs, s')"
  shows "\<exists>as. rest_meaning r c t (cmd # cmds) (untick s) = (as, untick s') \<and> bs = all @ as"
proof -
  obtain pa as1 s1 s2 where step: "tick r 1 s = Inr ((), s1)"
      "compileCommand (r_lib r) cmd (r_exts r) = Inr pa" "executeAction r cmd pa s1 = Inr (as1, s2)"
      "commandLoop r cmds False t (all @ as1) s2 = Inr (bs, s')"
    using loop
    by (auto simp: commandLoop_action [OF ns cmd] executeCommand_action [OF cmd] res_simps compiled_def
        map_sum_def simp del: commandLoop.simps split: sum.splits)
  have "untick s1 = untick s" using step(1) tick_sat [of s r 1] untick_ticked by auto
  then have "act r cmd (untick s) = (as1, untick s2)" using act_refines [OF step(2,3)] by simp
  moreover have "\<not> is_alt cmd" using cmd by (simp add: is_branch_def)
  moreover obtain as2 where "meaning r cmds (untick s2) = (as2, untick s')" "bs = (all @ as1) @ as2"
    using refinedD [OF rest step(4)] by (auto simp: rest_meaning_def)
  ultimately show ?thesis
    using cmd ns by (simp add: rest_meaning_other meaning_action and_then_def)
qed

lemma loop_refines: "refined r cmds"
proof (induction cmds rule: commands_induct)
  case Nil
  then show ?case by (auto simp: refined_def rest_meaning_def chain_def)
next
  case (Cons cmd cmds)
  show ?case
    unfolding refined_def
  proof (intro allI impI)
    fix c t all s bs s'
    assume loop: "commandLoop r (cmd # cmds) c t all s = Inr (bs, s')" and st: "\<not> (c \<and> \<not> t \<and> i_stopped s)"
    consider "i_stopped s" | "\<not> i_stopped s" "cmd_name cmd = ''if''" | "\<not> i_stopped s" "is_alt cmd"
      | "\<not> i_stopped s" "cmd_name cmd = ''require''"
      | "\<not> i_stopped s" "\<not> is_branch cmd" "cmd_name cmd \<noteq> ''require''" by (auto simp: is_branch_def)
    then show "\<exists>as. rest_meaning r c t (cmd # cmds) (untick s) = (as, untick s') \<and> bs = all @ as"
    proof cases
      case 1
      then show ?thesis
        using loop st rest_meaning_stopped [of "untick s" c t] by (simp add: commandLoop_stopped)
    next
      case 4
      have step: "commandLoop r cmds False t all s = Inr (bs, s')"
        using loop by (simp only: commandLoop_require [OF 4])
      have "\<not> is_alt cmd" using 4 by (simp add: is_alt_def)
      then have "rest_meaning r c t (cmd # cmds) (untick s) = rest_meaning r False t cmds (untick s)"
        using 4 by (simp add: rest_meaning_other meaning_require) (simp add: rest_meaning_def)
      then show ?thesis using refinedD [OF Cons.IH(2) step] by simp
    qed (rule refined_if [OF Cons.IH] refined_alt [OF Cons.IH] refined_action [OF Cons.IH(2)]; (assumption | rule loop))+
  qed
qed

text \<open>A small message and two scripts for the witnesses.\<close>

definition demo_message :: message where
  "demo_message = \<lparr>mc_From = ''a@example.org'', mc_To = [''b@example.net''],
     mc_Headers = [(''Subject'', [''Hello''])], mc_Body = [], mc_Size = 20, mc_BodyIsFullMessage = False\<rparr>"

definition demo_branches :: string where
  "demo_branches = ''require \"imap4flags\"; if size :over 100 { discard; } '' @
     ''elsif header :contains \"subject\" \"hell\" { addflag \"Seen\"; keep; } else { stop; } stop; discard;''"

definition demo_conflict :: string where
  "demo_conflict = ''require \"reject\"; reject \"no\"; keep;''"

definition demo_cmds :: "command list" where
  "demo_cmds = (case Parse demo_branches of Inr cmds \<Rightarrow> cmds | Inl _ \<Rightarrow> [])"

definition demo_interp :: run where
  "demo_interp = \<lparr>r_lib = plain_lib, r_msg = demo_message, r_exts = {''imap4flags''}, r_expired = (\<lambda>_. False)\<rparr>"

text \<open>C8. Execution refines the declarative meaning: when a list of commands runs
  to its end, its actions and the state it leaves are those of the meaning, in
  which of every \<^verbatim>\<open>if\<close>/\<^verbatim>\<open>elsif\<close>/\<^verbatim>\<open>else\<close> chain exactly the first branch that holds
  runs and a test holds when some value matches some key. The flags that track
  chains, the early exits of the matching loops and the accounting of
  operations leave no trace in the result.\<close>

theorem executeCommands_meaning:
  assumes "executeCommands r cmds s = Inr (as, s')"
  shows "meaning r cmds (untick s) = (as, untick s')"
  using refined_block [OF loop_refines] assms by (simp add: executeCommands.simps)

theorem executeCommands_meaning_witness:
  "let s' = interp0\<lparr>i_stopped := True, i_flags := [''Seen''], i_ops := 6, i_sinceClock := 6\<rparr>
   in executeCommands demo_interp demo_cmds interp0 = Inr ([KeepAction ''Seen'', StopAction], s') \<and>
     meaning demo_interp demo_cmds (untick interp0) = ([KeepAction ''Seen'', StopAction], untick s')"
proof -
  have run: "executeCommands demo_interp demo_cmds interp0 = Inr ([KeepAction ''Seen'', StopAction],
      interp0\<lparr>i_stopped := True, i_flags := [''Seen''], i_ops := 6, i_sinceClock := 6\<rparr>)"
    by code_simp
  from executeCommands_meaning [OF run] run show ?thesis by (simp add: Let_def)
qed

section \<open>Scripts that compiled\<close>

lemma flag_pos:
  assumes "map_of cmdSpecs name = Some spec" "name \<in> {''addflag'', ''setflag'', ''removeflag''}"
    and "args_fit spec e pa"
  shows "\<exists>v. pos_at pa 0 = Inr v"
proof -
  have "cs_pos spec = [KStrList]"
    using assms(1,2) by (auto simp: cmdSpecs_def plain_def)
  then obtain v where "pa_pos pa = [v]"
    using assms(3) by (auto simp: args_fit_def list_all2_Cons2)
  then show ?thesis by (simp add: pos_at_def)
qed

lemma cmdSpecs_names:
  "map_of cmdSpecs name = Some spec \<Longrightarrow> name \<noteq> ''require'' \<Longrightarrow>
     name \<in> {''stop'', ''discard'', ''keep'', ''vacation''} \<or>
     name \<in> {''redirect'', ''fileinto'', ''reject''} \<or> name \<in> {''addflag'', ''setflag'', ''removeflag''}"
  unfolding cmdSpecs_def by (simp add: split: if_splits)

lemma executeAction_safe:
  assumes "command_fits (r_lib r) e cmd pa"
  shows "\<exists>res. executeAction r cmd pa s = Inr res"
proof -
  obtain spec where spec: "map_of cmdSpecs (cmd_name cmd) = Some spec" "args_fit spec (vacationEnv cmd e) pa"
      and nr: "cmd_name cmd \<noteq> ''require''"
      and redir: "cmd_name cmd = ''redirect'' \<Longrightarrow>
        \<exists>a. res_bind (pos_at pa 0) as_string = Inr a \<and> mail_ParseAddress (r_lib r) a \<noteq> None"
    using assms unfolding command_fits_def by blast
  from cmdSpecs_names [OF spec(1) nr] show ?thesis
  proof (elim disjE)
    assume "cmd_name cmd \<in> {''stop'', ''discard'', ''keep'', ''vacation''}"
    then show ?thesis by (auto simp: executeAction_def)
  next
    assume n: "cmd_name cmd \<in> {''redirect'', ''fileinto'', ''reject''}"
    obtain a where a: "res_bind (pos_at pa 0) as_string = Inr a"
      using redirect_pos [OF spec(1) n spec(2)] by blast
    then have "cmd_name cmd = ''redirect'' \<Longrightarrow> mail_ParseAddress (r_lib r) a \<noteq> None"
      using redir by auto
    then show ?thesis
      using n a by (auto simp: executeAction_def executeFileinto_def executeRedirect_def compiled_def)
  next
    assume n: "cmd_name cmd \<in> {''addflag'', ''setflag'', ''removeflag''}"
    obtain v where "pos_at pa 0 = Inr v" using flag_pos [OF spec(1) n spec(2)] by blast
    then show ?thesis using n by (auto simp: executeAction_def compiled_def)
  qed
qed

lemma executeCommand_safe:
  assumes "compileCommand (r_lib r) cmd (r_exts r) = Inr pa" "\<not> is_branch cmd" "cmd_name cmd \<noteq> ''require''"
  shows "sat limit_error (\<lambda>_. True) (executeCommand r cmd s)"
proof -
  have "command_fits (r_lib r) (r_exts r) cmd pa"
    using compileCommand_csat [of "r_lib r" "r_exts r" cmd] assms(1) by simp
  note safe = executeAction_safe [OF this]
  show ?thesis
    unfolding executeCommand_action [OF assms(2,3)]
  proof (rule sat_bind [OF tick_sat], clarify)
    fix s1
    show "sat limit_error (\<lambda>_. True) (res_bind (compiled (compileCommand (r_lib r) cmd (r_exts r)))
        (\<lambda>pa. executeAction r cmd pa s1))"
      using safe [of s1] assms(1) by (auto simp: compiled_def)
  qed
qed

lemma executeConditional_safe:
  assumes law: "regexp_fold_law (r_lib r)" and chk: "checkBranch (r_lib r) cmd (r_exts r) = Inr ()"
    and blk: "cmd_block cmd = Some block"
    and run: "\<And>s. sat limit_error (\<lambda>_. True) (commandLoop r block False False [] s)"
  shows "sat limit_error (\<lambda>_. True) (executeConditional r cmd s)"
proof -
  have "branch_safe r cmd"
    using checkBranch_test [OF chk] law by (auto simp: branch_safe_def test_safe_def)
  then have test: "sat limit_error (\<lambda>_. True) (testHolds r cmd s)"
    using testHolds_sat [of r cmd s] by (auto intro: sat_mono)
  show ?thesis
    unfolding executeConditional.simps blk option.case executeCommands.simps
    by (rule sat_bind [OF test], clarify, rule sat_if, simp, rule sat_bind [OF run], auto)
qed

lemma loop_safe:
  assumes law: "regexp_fold_law (r_lib r)"
    and "checkLoop (r_lib r) cmds (r_exts r) d prev = Inr ()" "prev = ''if'' \<or> prev = ''elsif'' \<Longrightarrow> c"
  shows "sat limit_error (\<lambda>_. True) (commandLoop r cmds c t all s)"
  using assms(2,3)
proof (induction cmds arbitrary: c t all s d prev rule: commands_induct)
  case (Cons cmd cmds)
  note chk = Cons.prems(1) [unfolded checkLoop_Cons, THEN conjunct1]
  note rest = Cons.prems(1) [unfolded checkLoop_Cons, THEN conjunct2]
  have loop: "sat limit_error (\<lambda>_. True) (commandLoop r cmds c' t' all' s')"
    if "is_branch cmd \<Longrightarrow> cmd_name cmd \<noteq> ''else'' \<Longrightarrow> c'" for c' t' all' s'
    by (rule Cons.IH(2) [OF rest], rule that) (auto simp: is_branch_def is_alt_def)
  show ?case
  proof (cases "i_stopped s")
    case True
    then show ?thesis by (simp add: commandLoop_stopped)
  next
    case ns: False
    show ?thesis
    proof (cases "is_branch cmd")
      case True
      obtain block where b: "cmd_name cmd = ''if'' \<or> prev = ''if'' \<or> prev = ''elsif''"
          "cmd_block cmd = Some block" "checkBranch (r_lib r) cmd (r_exts r) = Inr ()"
          "checkCommands (r_lib r) block (r_exts r) (d + 1) = Inr ()"
        using chk True checkCommand_branch [of cmd "r_lib r" "r_exts r" d prev]
        by (auto simp: is_branch_def is_alt_def)
      have run: "sat limit_error (\<lambda>_. True) (commandLoop r block False False [] s)" for s
        by (rule Cons.IH(1) [OF b(2), of "d + 1" "[]"]) (use b(4) in \<open>simp_all add: checkCommands_Inr\<close>)
      note cond = executeConditional_safe [OF law b(3,2) run]
      show ?thesis
      proof (cases "is_alt cmd")
        case alt: True
        then have c using b(1) Cons.prems(2) by (auto simp: is_alt_def)
        then show ?thesis
          unfolding commandLoop_alt [OF ns alt]
          by (auto intro!: sat_if sat_bind [OF cond] loop)
      next
        case False
        then have n: "cmd_name cmd = ''if''" using True by (simp add: is_branch_def)
        show ?thesis
          unfolding commandLoop_if [OF ns n] by (auto intro!: sat_bind [OF cond] loop)
      qed
    next
      case False
      then obtain pa where c: "cmd_name cmd \<noteq> ''require''" "compileCommand (r_lib r) cmd (r_exts r) = Inr pa"
        using chk checkCommand_action [of cmd "r_lib r" "r_exts r" d prev] by (auto simp: is_branch_def is_alt_def)
      show ?thesis
        unfolding commandLoop_action [OF ns False c(1)]
        by (auto intro!: sat_bind [OF executeCommand_safe [OF c(2) False c(1)]] loop simp: False)
    qed
  qed
qed simp

lemma requires_loop:
  assumes "\<forall>c \<in> set pre. cmd_name c = ''require'' \<and> cmd_block c = None" "\<not> i_stopped s"
  shows "commandLoop r (pre @ rest) False t all s = commandLoop r rest False t all s"
  using assms(1) by (induction pre) (simp_all add: commandLoop_require assms(2) del: commandLoop.simps)

definition conflict_error :: "run_error \<Rightarrow> bool" where
  \<comment> \<open>the refusals of the actions as a whole\<close>
  "conflict_error e = (\<exists>as. checkActions as = Inl e)"

lemma runScript_safe:
  assumes law: "regexp_fold_law lib" and sc: "Compile lib source = Inr sc"
  shows "sat (\<lambda>e. limit_error e \<or> conflict_error e) (\<lambda>_. True) (runScript lib expired sc msg)"
proof -
  obtain e where e: "s_exts sc = Some e" "script_ok lib e (s_Commands sc)"
    using Compile_csat [of source lib] sc by auto
  then obtain pre rest where cmds: "s_Commands sc = pre @ rest"
      and pre: "\<forall>c \<in> set pre. cmd_name c = ''require'' \<and> cmd_block c = None"
      and chk: "checkLoop lib rest e 0 [] = Inr ()"
    unfolding script_ok_def by blast
  let ?r = "\<lparr>r_lib = lib, r_msg = msg, r_exts = e, r_expired = expired\<rparr>"
  have "sat limit_error (\<lambda>_. True) (commandLoop ?r rest False False [] interp0)"
    using loop_safe [of ?r rest 0 "[]" False] law chk by simp
  then have run: "sat (\<lambda>e. limit_error e \<or> conflict_error e) (\<lambda>_. True) (executeCommands ?r (s_Commands sc) interp0)"
    unfolding cmds executeCommands.simps
    by (subst requires_loop [OF pre]) (auto simp: interp0_def intro: sat_mono)
  have fin: "sat (\<lambda>e. limit_error e \<or> conflict_error e) (\<lambda>_. True) (checkActions as)" for as
    by (auto simp: sat_def conflict_error_def split: sum.splits)
  show ?thesis
    unfolding runScript_def e(1) option.case res_bind_simps Let_def
    by (rule sat_bind [OF run], clarify, rule sat_bind [OF fin], rule sat_if) simp_all
qed

text \<open>C9. A script that compiled fails at run time only by a limit: too many
  operations, the deadline, a wildcard pattern too expensive to match, or a
  list of actions that is too long or contradictory. No test, argument, branch
  or pattern it was validated with can be found wrong while it runs. (For the
  regular expressions: a pattern that compiles also compiles with the
  case-folding flag in front.)\<close>

theorem compiled_fails_only_by_limits:
  assumes "regexp_fold_law lib" "Compile lib source = Inr sc" "runScript lib expired sc msg = Inl e"
  shows "e \<in> {OpLimit, TimeLimit, GlobLimit} \<or> (\<exists>as. checkActions as = Inl e)"
  using runScript_safe [OF assms(1,2), of expired msg] assms(3)
  by (simp add: limit_error_def conflict_error_def)

theorem compiled_fails_only_by_limits_witness:
  "let sc = \<lparr>s_Commands = [Command ''require'' [] [StringValue ''reject'' False True False] None,
         Command ''reject'' [] [StringValue ''no'' False True False] None, Command ''keep'' [] [] None],
        s_exts = Some {''reject''}\<rparr>;
     e = RunErrorf ''reject conflicts with keep/fileinto/redirect'' []
   in regexp_fold_law plain_lib \<and> Compile plain_lib demo_conflict = Inr sc \<and>
     runScript plain_lib (\<lambda>_. False) sc demo_message = Inl e \<and>
     (e \<in> {OpLimit, TimeLimit, GlobLimit} \<or> (\<exists>as. checkActions as = Inl e))"
proof -
  let ?sc = "\<lparr>s_Commands = [Command ''require'' [] [StringValue ''reject'' False True False] None,
         Command ''reject'' [] [StringValue ''no'' False True False] None, Command ''keep'' [] [] None],
        s_exts = Some {''reject''}\<rparr>"
  let ?e = "RunErrorf ''reject conflicts with keep/fileinto/redirect'' []"
  have law: "regexp_fold_law plain_lib" by (simp add: regexp_fold_law_def plain_lib_def)
  have sc: "Compile plain_lib demo_conflict = Inr ?sc" by code_simp
  have run: "runScript plain_lib (\<lambda>_. False) ?sc demo_message = Inl ?e" by code_simp
  show ?thesis
    unfolding Let_def by (intro conjI law sc run compiled_fails_only_by_limits [OF law sc run])
qed

end
