(* ===== verification/Sieve_Manager.thy ===== *)
theory Sieve_Manager
  imports Sieve_Interp "HOL-Library.Finite_Map"
begin

text \<open>
  The Sieve script manager (\<^verbatim>\<open>src/internal/sieve/manager.go\<close>): the scripts of every
  user, the choice of the active one, their persistence, and the cache that
  limits vacation replies.

  Go maps are finite maps. The mutexes are not modelled: each method runs under
  one, so a run of the manager is a sequence of its operations. What the manager
  takes from packages outside the repository is the record \<open>mlib\<close>: the JSON
  codec of one record, the order in which a loop visits a map, and the bbolt
  database (a state of any type \<open>'db\<close> with its transactions, each of which may
  fail). Warnings are logged only and left out. Times and durations are
  nanoseconds.
\<close>

section \<open>State\<close>

record stored =
  ss_Name :: string
  ss_Source :: string
  ss_Script :: script

type_synonym scripts = "(string, stored) fmap"

record scriptRecord =
  sr_Version :: int
  sr_Active :: string
  sr_Scripts :: "(string \<times> string) list"

record 'db mlib =
  ml_go :: golib
  json_Marshal :: "scriptRecord \<Rightarrow> string + string"
    \<comment> \<open>\<^verbatim>\<open>json.Marshal\<close>: the error or the text\<close>
  json_Unmarshal :: "string \<Rightarrow> scriptRecord option"
  map_range :: "scripts \<Rightarrow> string list"
    \<comment> \<open>the keys in the order \<^verbatim>\<open>for range\<close> visits them\<close>
  bolt_create :: "'db \<Rightarrow> string option \<times> 'db"
    \<comment> \<open>begin a transaction and \<^verbatim>\<open>CreateBucketIfNotExists\<close>\<close>
  bolt_entries :: "'db \<Rightarrow> (string \<times> string) list"
    \<comment> \<open>what \<^verbatim>\<open>ForEach\<close> on the bucket visits\<close>
  bolt_commit :: "'db \<Rightarrow> string option \<times> 'db"
  bolt_put :: "string \<Rightarrow> string \<Rightarrow> 'db \<Rightarrow> string option \<times> 'db"
    \<comment> \<open>\<^verbatim>\<open>Update\<close> with one \<^verbatim>\<open>Put\<close>\<close>
  bolt_delete :: "string \<Rightarrow> 'db \<Rightarrow> string option \<times> 'db"

record 'db manager =
  m_scripts :: "(string, scripts) fmap"
  m_activeScripts :: "(string, string) fmap"
  m_store :: "'db option"
  m_vacationCache :: "(string, int) fmap"
  m_vacationMaxSize :: nat
  m_vacationAccessor :: "string list"

datatype merror =
    ErrCompile compile_error
  | ErrQuotaMaxScripts
  | ErrQuotaStorage
  | ErrNoSuchScript string
  | ErrNoScripts
  | ErrScriptNotFound
  | ErrScriptActive
  | ErrScriptExists
  | ErrScriptStorage string
  | ErrNilStore
  | ErrLoad string

type_synonym 'db mresult = "merror option \<times> 'db manager"

definition NewManager :: "'db manager" where
  "NewManager = \<lparr>m_scripts = fmempty, m_activeScripts = fmempty, m_store = None,
     m_vacationCache = fmempty, m_vacationMaxSize = 10000, m_vacationAccessor = []\<rparr>"

definition maxScriptsPerUser :: nat where "maxScriptsPerUser = 100"
definition maxScriptStoragePerUser :: nat where "maxScriptStoragePerUser = 10 * 1024 * 1024"
definition scriptRecordVersion :: int where "scriptRecordVersion = 1"

text \<open>\<^verbatim>\<open>len\<close> of a map, and a lookup that reads a missing map as the empty one.\<close>

definition fm_len :: "('k, 'v) fmap \<Rightarrow> nat" where
  "fm_len m = fcard (fmdom m)"

definition userScripts :: "'db manager \<Rightarrow> string \<Rightarrow> scripts" where
  "userScripts m u = (case fmlookup (m_scripts m) u of None \<Rightarrow> fmempty | Some us \<Rightarrow> us)"

section \<open>Persistence\<close>

definition CompileScript :: "'db mlib \<Rightarrow> string \<Rightarrow> compile_error + script" where
  "CompileScript L source = Compile (ml_go L) source"

definition ValidateScript :: "'db mlib \<Rightarrow> string \<Rightarrow> compile_error option" where
  "ValidateScript L source = (case CompileScript L source of Inl err \<Rightarrow> Some err | Inr _ \<Rightarrow> None)"

definition source_of :: "scripts \<Rightarrow> string \<Rightarrow> string" where
  "source_of us n = (case fmlookup us n of None \<Rightarrow> [] | Some st \<Rightarrow> ss_Source st)"

definition scriptRecordOf :: "'db mlib \<Rightarrow> scripts \<Rightarrow> string option \<Rightarrow> scriptRecord" where
  "scriptRecordOf L us active =
     \<lparr>sr_Version = scriptRecordVersion,
      sr_Active = (case active of None \<Rightarrow> [] | Some n \<Rightarrow> n),
      sr_Scripts = map (\<lambda>n. (n, source_of us n)) (map_range L us)\<rparr>"

definition saveUserLocked :: "'db mlib \<Rightarrow> string \<Rightarrow> 'db manager \<Rightarrow> 'db \<Rightarrow> string option \<times> 'db" where
  "saveUserLocked L u m db =
     (let us = userScripts m u in
      if fm_len us = 0 then bolt_delete L u db
      else
        (case json_Marshal L (scriptRecordOf L us (fmlookup (m_activeScripts m) u)) of
           Inl err \<Rightarrow> (Some err, db)
         | Inr raw \<Rightarrow> bolt_put L u raw db))"

definition restore :: "'k \<Rightarrow> 'v option \<Rightarrow> ('k, 'v) fmap \<Rightarrow> ('k, 'v) fmap" where
  "restore k prev m = (case prev of None \<Rightarrow> fmdrop k m | Some v \<Rightarrow> fmupd k v m)"

text \<open>\<^verbatim>\<open>mutateUser\<close>: \<open>fn\<close> is the function argument, applied to the manager.\<close>

definition mutateUser ::
  "'db mlib \<Rightarrow> string \<Rightarrow> ('db manager \<Rightarrow> 'db mresult) \<Rightarrow> 'db manager \<Rightarrow> 'db mresult" where
  "mutateUser L u fn m =
     (case m_store m of
        None \<Rightarrow> fn m
      | Some db \<Rightarrow>
          if u = [] then fn m
          else
            (case fn m of
               (Some err, m') \<Rightarrow> (Some err, m')
             | (None, m') \<Rightarrow>
                 (case saveUserLocked L u m' db of
                    (None, db') \<Rightarrow> (None, m'\<lparr>m_store := Some db'\<rparr>)
                  | (Some err, db') \<Rightarrow>
                      (Some (ErrScriptStorage err),
                       m'\<lparr>m_scripts := restore u (fmlookup (m_scripts m) u) (m_scripts m'),
                          m_activeScripts :=
                            restore u (fmlookup (m_activeScripts m) u) (m_activeScripts m'),
                          m_store := Some db'\<rparr>))))"

text \<open>\<^verbatim>\<open>loadRecordLocked\<close>; \<open>loadScripts\<close> is its loop over the entries.\<close>

fun loadScripts :: "'db mlib \<Rightarrow> (string \<times> string) list \<Rightarrow> scripts \<Rightarrow> scripts" where
  "loadScripts L [] us = us"
| "loadScripts L ((name, source) # es) us =
     (case CompileScript L source of
        Inl _ \<Rightarrow> loadScripts L es us
      | Inr sc \<Rightarrow>
          loadScripts L es
            (fmupd name \<lparr>ss_Name = name, ss_Source = source, ss_Script = sc\<rparr> us))"

definition loadRecordLocked ::
  "'db mlib \<Rightarrow> string \<Rightarrow> string \<Rightarrow> 'db manager \<Rightarrow> 'db manager" where
  "loadRecordLocked L u raw m =
     (if fmlookup (m_scripts m) u \<noteq> None then m
      else
        (case json_Unmarshal L raw of
           None \<Rightarrow> m
         | Some rec \<Rightarrow>
             if sr_Version rec \<noteq> scriptRecordVersion then m
             else
               (let us = loadScripts L (sr_Scripts rec) fmempty in
                if fm_len us = 0 then m
                else
                  (let m = m\<lparr>m_scripts := fmupd u us (m_scripts m)\<rparr> in
                   if fmlookup us (sr_Active rec) \<noteq> None \<and> sr_Active rec \<noteq> []
                   then m\<lparr>m_activeScripts := fmupd u (sr_Active rec) (m_activeScripts m)\<rparr>
                   else m))))"

definition AttachStore :: "'db mlib \<Rightarrow> 'db option \<Rightarrow> 'db manager \<Rightarrow> 'db mresult" where
  "AttachStore L bolt m =
     (case bolt of
        None \<Rightarrow> (Some ErrNilStore, m)
      | Some db \<Rightarrow>
          (case m_store m of
             Some _ \<Rightarrow> (None, m)
           | None \<Rightarrow>
               (case bolt_create L db of
                  (Some err, _) \<Rightarrow> (Some (ErrLoad err), m)
                | (None, db1) \<Rightarrow>
                    (let m1 = fold (\<lambda>(k, v). loadRecordLocked L k v) (bolt_entries L db1) m in
                     case bolt_commit L db1 of
                       (Some err, _) \<Rightarrow> (Some (ErrLoad err), m1)
                     | (None, db2) \<Rightarrow> (None, m1\<lparr>m_store := Some db2\<rparr>)))))"

definition StoreAttached :: "'db manager \<Rightarrow> bool" where
  "StoreAttached m = (case m_store m of None \<Rightarrow> False | Some _ \<Rightarrow> True)"

section \<open>Scripts\<close>

definition checkScriptQuotaLocked :: "'db manager \<Rightarrow> string \<Rightarrow> string \<Rightarrow> nat \<Rightarrow> merror option" where
  "checkScriptQuotaLocked m u name octets =
     (let us = userScripts m u in
      if fmlookup us name = None \<and> fm_len us \<ge> maxScriptsPerUser then Some ErrQuotaMaxScripts
      else
        (let total = octets + (\<Sum>n \<in> fset (fmdom us) - {name}. length (source_of us n)) in
         if total > maxScriptStoragePerUser then Some ErrQuotaStorage else None))"

definition haveSpace :: "'db manager \<Rightarrow> string \<Rightarrow> string \<Rightarrow> nat \<Rightarrow> merror option" where
  "haveSpace m u name octets = checkScriptQuotaLocked m u name octets"

text \<open>The functions that the operations hand to \<^verbatim>\<open>mutateUser\<close>.\<close>

definition storeFn ::
  "string \<Rightarrow> string \<Rightarrow> string \<Rightarrow> script \<Rightarrow> bool \<Rightarrow> 'db manager \<Rightarrow> 'db mresult" where
  "storeFn u name source sc enforceQuota m =
     (case (if enforceQuota then checkScriptQuotaLocked m u name (length source) else None) of
        Some err \<Rightarrow> (Some err, m)
      | None \<Rightarrow>
          (None, m\<lparr>m_scripts :=
             fmupd u
               (fmupd name \<lparr>ss_Name = name, ss_Source = source, ss_Script = sc\<rparr> (userScripts m u))
               (m_scripts m)\<rparr>))"

definition activateFn :: "string \<Rightarrow> string \<Rightarrow> 'db manager \<Rightarrow> 'db mresult" where
  "activateFn u name m =
     (case fmlookup (m_scripts m) u of
        None \<Rightarrow> (Some ErrNoScripts, m)
      | Some us \<Rightarrow>
          if fmlookup us name = None then (Some (ErrNoSuchScript name), m)
          else (None, m\<lparr>m_activeScripts := fmupd u name (m_activeScripts m)\<rparr>))"

definition deleteFn :: "string \<Rightarrow> string \<Rightarrow> 'db manager \<Rightarrow> 'db mresult" where
  "deleteFn u name m =
     (case fmlookup (m_scripts m) u of
        None \<Rightarrow> (None, m)
      | Some us \<Rightarrow>
          (let m = m\<lparr>m_scripts := fmupd u (fmdrop name us) (m_scripts m)\<rparr> in
           if (case fmlookup (m_activeScripts m) u of None \<Rightarrow> [] | Some n \<Rightarrow> n) = name
           then (None, m\<lparr>m_activeScripts := fmdrop u (m_activeScripts m)\<rparr>)
           else (None, m)))"

definition deleteInactiveFn :: "string \<Rightarrow> string \<Rightarrow> 'db manager \<Rightarrow> 'db mresult" where
  "deleteInactiveFn u name m =
     (if fmlookup (userScripts m u) name = None then (Some ErrScriptNotFound, m)
      else if fmlookup (m_activeScripts m) u = Some name then (Some ErrScriptActive, m)
      else (None, m\<lparr>m_scripts := fmupd u (fmdrop name (userScripts m u)) (m_scripts m)\<rparr>))"

definition deactivateFn :: "string \<Rightarrow> 'db manager \<Rightarrow> 'db mresult" where
  "deactivateFn u m = (None, m\<lparr>m_activeScripts := fmdrop u (m_activeScripts m)\<rparr>)"

definition renameFn :: "string \<Rightarrow> string \<Rightarrow> string \<Rightarrow> 'db manager \<Rightarrow> 'db mresult" where
  "renameFn u oldName newName m =
     (case fmlookup (userScripts m u) oldName of
        None \<Rightarrow> (Some ErrScriptNotFound, m)
      | Some st \<Rightarrow>
          if fmlookup (userScripts m u) newName \<noteq> None then (Some ErrScriptExists, m)
          else
            (let us = fmdrop oldName (fmupd newName (st\<lparr>ss_Name := newName\<rparr>) (userScripts m u));
                 m' = m\<lparr>m_scripts := fmupd u us (m_scripts m)\<rparr>
             in if fmlookup (m_activeScripts m) u = Some oldName
                then (None, m'\<lparr>m_activeScripts := fmupd u newName (m_activeScripts m)\<rparr>)
                else (None, m')))"

definition storeScript ::
  "'db mlib \<Rightarrow> string \<Rightarrow> string \<Rightarrow> string \<Rightarrow> bool \<Rightarrow> 'db manager \<Rightarrow> 'db mresult" where
  "storeScript L u name source enforceQuota m =
     (case CompileScript L source of
        Inl err \<Rightarrow> (Some (ErrCompile err), m)
      | Inr sc \<Rightarrow> mutateUser L u (storeFn u name source sc enforceQuota) m)"

definition StoreScript :: "'db mlib \<Rightarrow> string \<Rightarrow> string \<Rightarrow> string \<Rightarrow> 'db manager \<Rightarrow> 'db mresult" where
  "StoreScript L u name source m = storeScript L u name source False m"

definition SetActiveScriptByName :: "'db mlib \<Rightarrow> string \<Rightarrow> string \<Rightarrow> 'db manager \<Rightarrow> 'db mresult" where
  "SetActiveScriptByName L u name m = mutateUser L u (activateFn u name) m"

definition SetActiveScript ::
  "'db mlib \<Rightarrow> string \<Rightarrow> string \<Rightarrow> string \<Rightarrow> 'db manager \<Rightarrow> 'db mresult" where
  "SetActiveScript L u name source m =
     (case StoreScript L u name source m of
        (Some err, m') \<Rightarrow> (Some err, m')
      | (None, m') \<Rightarrow> SetActiveScriptByName L u name m')"

definition DeleteScript :: "'db mlib \<Rightarrow> string \<Rightarrow> string \<Rightarrow> 'db manager \<Rightarrow> 'db manager" where
  "DeleteScript L u name m = snd (mutateUser L u (deleteFn u name) m)"

definition deleteInactiveScript :: "'db mlib \<Rightarrow> string \<Rightarrow> string \<Rightarrow> 'db manager \<Rightarrow> 'db mresult" where
  "deleteInactiveScript L u name m = mutateUser L u (deleteInactiveFn u name) m"

definition deactivateScript :: "'db mlib \<Rightarrow> string \<Rightarrow> 'db manager \<Rightarrow> 'db mresult" where
  "deactivateScript L u m = mutateUser L u (deactivateFn u) m"

definition renameScript ::
  "'db mlib \<Rightarrow> string \<Rightarrow> string \<Rightarrow> string \<Rightarrow> 'db manager \<Rightarrow> 'db mresult" where
  "renameScript L u oldName newName m = mutateUser L u (renameFn u oldName newName) m"

section \<open>Queries and delivery\<close>

definition GetActiveScript :: "'db manager \<Rightarrow> string \<Rightarrow> script option" where
  "GetActiveScript m u =
     (case fmlookup (m_activeScripts m) u of
        None \<Rightarrow> None
      | Some activeName \<Rightarrow>
          (case fmlookup (m_scripts m) u of
             None \<Rightarrow> None
           | Some us \<Rightarrow> map_option ss_Script (fmlookup us activeName)))"

definition HasActiveScript :: "'db manager \<Rightarrow> string \<Rightarrow> bool" where
  "HasActiveScript m u = (fmlookup (m_activeScripts m) u \<noteq> None)"

definition GetActiveScriptName :: "'db manager \<Rightarrow> string \<Rightarrow> string" where
  "GetActiveScriptName m u = (case fmlookup (m_activeScripts m) u of None \<Rightarrow> [] | Some n \<Rightarrow> n)"

text \<open>\<^verbatim>\<open>sort.Strings\<close>: insertion sort gives the sorted list, which is unique for
  the distinct keys of a map.\<close>

fun insert_string :: "string \<Rightarrow> string list \<Rightarrow> string list" where
  "insert_string x [] = [x]"
| "insert_string x (y # ys) = (if str_compare x y \<le> 0 then x # y # ys else y # insert_string x ys)"

definition sort_strings :: "string list \<Rightarrow> string list" where
  "sort_strings xs = foldr insert_string xs []"

definition ListScripts :: "'db mlib \<Rightarrow> 'db manager \<Rightarrow> string \<Rightarrow> string list" where
  "ListScripts L m u =
     (case fmlookup (m_scripts m) u of
        None \<Rightarrow> []
      | Some us \<Rightarrow> sort_strings (map_range L us))"

definition GetScript :: "'db manager \<Rightarrow> string \<Rightarrow> string \<Rightarrow> script option" where
  "GetScript m u name =
     (case fmlookup (m_scripts m) u of
        None \<Rightarrow> None
      | Some us \<Rightarrow> map_option ss_Script (fmlookup us name))"

definition scriptSource :: "'db manager \<Rightarrow> string \<Rightarrow> string \<Rightarrow> string option" where
  "scriptSource m u name = map_option ss_Source (fmlookup (userScripts m u) name)"

definition GetScriptSource :: "'db manager \<Rightarrow> string \<Rightarrow> string \<Rightarrow> string" where
  "GetScriptSource m u name =
     (case fmlookup (m_scripts m) u of
        None \<Rightarrow> []
      | Some us \<Rightarrow> source_of us name)"

text \<open>\<^verbatim>\<open>ProcessMessage\<close>; the error it returns is always nil.\<close>

definition ProcessMessage ::
  "'db mlib \<Rightarrow> (nat \<Rightarrow> bool) \<Rightarrow> 'db manager \<Rightarrow> string \<Rightarrow> message \<Rightarrow> action list" where
  "ProcessMessage L expired m u msg =
     (case GetActiveScript m u of
        None \<Rightarrow> [KeepAction []]
      | Some sc \<Rightarrow>
          (case Execute (ml_go L) expired sc msg of
             (_, Some err) \<Rightarrow> [KeepAction []]
           | (actions, None) \<Rightarrow> actions))"

section \<open>Vacation replies\<close>

abbreviation one_hour :: int where "one_hour \<equiv> 3600000000000"
abbreviation one_day :: int where "one_day \<equiv> 86400000000000"

definition vacationDays :: "int \<Rightarrow> int" where
  "vacationDays days =
     (let days = (if days > MaxVacationDays then MaxVacationDays else days)
      in wrap64 (wrap64 (days * 24) * one_hour))"

definition GetVacationInterval :: "int \<Rightarrow> int" where
  "GetVacationInterval days =
     (let interval = vacationDays days in if interval < one_day then one_day else interval)"

definition ShouldSendVacation :: "int \<Rightarrow> string \<Rightarrow> int \<Rightarrow> 'db manager \<Rightarrow> bool" where
  "ShouldSendVacation now sender days m =
     (case fmlookup (m_vacationCache m) sender of
        None \<Rightarrow> True
      | Some lastSent \<Rightarrow>
          (let interval = vacationDays days;
               interval = (if interval < one_day then one_day else interval)
           in now - lastSent \<ge> interval))"

text \<open>The eviction loop of \<^verbatim>\<open>touchVacationLocked\<close>, and the whole of it.\<close>

fun evict :: "nat \<Rightarrow> string list \<Rightarrow> (string, int) fmap \<Rightarrow> string list \<times> (string, int) fmap" where
  "evict 0 acc cache = (acc, cache)"
| "evict (Suc n) acc cache =
     (case acc of
        [] \<Rightarrow> ([], cache)
      | oldest # rest \<Rightarrow> evict n rest (fmdrop oldest cache))"

definition touchVacationLocked :: "int \<Rightarrow> string \<Rightarrow> 'db manager \<Rightarrow> 'db manager" where
  "touchVacationLocked now sender m =
     (let (acc, cache) =
        (if fmlookup (m_vacationCache m) sender \<noteq> None
         then (remove1 sender (m_vacationAccessor m), m_vacationCache m)
         else if fm_len (m_vacationCache m) \<ge> m_vacationMaxSize m
         then evict (m_vacationMaxSize m div 4) (m_vacationAccessor m) (m_vacationCache m)
         else (m_vacationAccessor m, m_vacationCache m))
      in m\<lparr>m_vacationCache := fmupd sender now cache, m_vacationAccessor := acc @ [sender]\<rparr>)"

definition RecordVacationSent :: "int \<Rightarrow> string \<Rightarrow> 'db manager \<Rightarrow> 'db manager" where
  "RecordVacationSent now sender m = touchVacationLocked now sender m"

definition CheckAndRecordVacationFor ::
  "int \<Rightarrow> int \<Rightarrow> string \<Rightarrow> int \<Rightarrow> 'db manager \<Rightarrow> bool \<times> 'db manager" where
  \<comment> \<open>\<open>now\<close> and \<open>now'\<close>: the clock at the check and at the record\<close>
  "CheckAndRecordVacationFor now now' sender interval m =
     (if interval > 0 \<and>
         (case fmlookup (m_vacationCache m) sender of
            None \<Rightarrow> False | Some lastSent \<Rightarrow> now - lastSent < interval)
      then (False, m)
      else (True, touchVacationLocked now' sender m))"

definition CheckAndRecordVacation ::
  "int \<Rightarrow> int \<Rightarrow> string \<Rightarrow> int \<Rightarrow> 'db manager \<Rightarrow> bool \<times> 'db manager" where
  "CheckAndRecordVacation now now' sender days m =
     (let interval = vacationDays days;
          interval = (if interval < one_day then one_day else interval)
      in CheckAndRecordVacationFor now now' sender interval m)"

end
