(* ===== verification/ManageSieve.thy ===== *)
theory ManageSieve
  imports Sieve_Manager "HOL-Library.List_Lexorder" "HOL-Library.Char_ord"
begin

text \<open>
  The ManageSieve server (\<^verbatim>\<open>src/internal/sieve/managesieve.go\<close>, RFC 5804): the
  protocol by which users manage their scripts.

  A session is the record \<open>session\<close>: the octets still to be read from its
  connection, what was written to it, the authenticated user, whether TLS is
  on, and, by extension, the server state all sessions share (the manager, the
  failed authentications, the number of connections). A handler is a function
  on sessions that ends with a value or an error; \<open>andThen\<close> composes them. The
  record \<open>config\<close> holds what a server is set up with, the clock and the library
  functions: \<open>cf_now k\<close> is the \<open>k\<close>-th reading of the clock. Reading past the end
  of the input is the error of the connection (closed or timed out). Listeners,
  deadlines, tracing and logging are left out.
\<close>

section \<open>Server and sessions\<close>

record 'db server =
  sv_manager :: "'db manager"
  sv_authFailures :: "(string, int list) fmap"
  sv_active :: int
  sv_reads :: nat
    \<comment> \<open>readings taken of the clock\<close>

record 'db session = "'db server" +
  se_in :: string
  se_out :: "string list"
  se_writes :: "nat option"
    \<comment> \<open>writes that still succeed; \<open>None\<close>: all\<close>
  se_user :: string
  se_tls :: bool
  se_ip :: string

record 'db config =
  cf_lib :: "'db mlib"
  cf_tlsCfg :: "(nat \<times> bool \<times> bool) option"
    \<comment> \<open>number of certificates, \<^verbatim>\<open>GetCertificate\<close> and \<^verbatim>\<open>GetConfigForClient\<close> set\<close>
  cf_authHandler :: "(string \<Rightarrow> string \<Rightarrow> bool) option"
  cf_userResolver :: "(string \<Rightarrow> string) option"
  cf_maxAuthFailures :: int
  cf_lockoutDuration :: int
  cf_maxConns :: int
  cf_now :: "nat \<Rightarrow> int"
  cf_range :: "(string, int list) fmap \<Rightarrow> string list"
    \<comment> \<open>the keys in the order \<^verbatim>\<open>for range\<close> visits them\<close>
  cf_handshake :: "string \<Rightarrow> string option"
    \<comment> \<open>the TLS handshake: the decrypted input, by the octets on the wire\<close>
  cf_readError :: string
  cf_writeError :: string
  cf_compileText :: "compile_error \<Rightarrow> string"
    \<comment> \<open>the text \<^verbatim>\<open>fmt\<close> gives the error\<close>

datatype mserr =
    MsNo (no_code: string) (no_msg: string) (no_close: bool)
  | MsErr string
  | MsEOF

type_synonym ('db, 'a) handler = "'db session \<Rightarrow> (mserr + 'a) \<times> 'db session"

definition andThen :: "('db, 'a) handler \<Rightarrow> ('a \<Rightarrow> ('db, 'b) handler) \<Rightarrow> ('db, 'b) handler" where
  "andThen m f s = (case m s of (Inl e, s') \<Rightarrow> (Inl e, s') | (Inr x, s') \<Rightarrow> f x s')"

definition failWith :: "mserr \<Rightarrow> ('db, 'a) handler" where
  "failWith e s = (Inl e, s)"

definition returns :: "'a \<Rightarrow> ('db, 'a) handler" where
  "returns x s = (Inr x, s)"

definition onManager :: "('db manager \<Rightarrow> 'db mresult) \<Rightarrow> ('db, merror option) handler" where
  \<comment> \<open>a call of the manager\<close>
  "onManager f s = (case f (sv_manager s) of (r, m') \<Rightarrow> (Inr r, s\<lparr>sv_manager := m'\<rparr>))"

definition time_Now :: "'db config \<Rightarrow> 'db session \<Rightarrow> int \<times> 'db session" where
  "time_Now cf s = (cf_now cf (sv_reads s), s\<lparr>sv_reads := sv_reads s + 1\<rparr>)"

definition defaultMaxConnections :: int where "defaultMaxConnections = 1024"
definition maxManageSieveLineLength :: nat where "maxManageSieveLineLength = 8192"
definition maxManageSieveScriptSize :: int where "maxManageSieveScriptSize = 1024 * 1024"
definition maxTrackedFailures :: nat where "maxTrackedFailures = 50000"

section \<open>Strings of the protocol\<close>

text \<open>What \<^verbatim>\<open>WriteRune\<close> writes for the first character of \<open>s\<close>: its bytes, or
  U+FFFD for an invalid one.\<close>

definition rune_bytes :: "string \<Rightarrow> string" where
  "rune_bytes s =
     (if byte (hd s) < 128 \<or> 1 < rune_size s then take (rune_size s) s
      else [CHR 0xEF, CHR 0xBF, CHR 0xBD])"

text \<open>\<^verbatim>\<open>parseManageSieveLine\<close>: \<open>lineParts\<close> is its loop.\<close>

function lineParts :: "bool \<Rightarrow> bool \<Rightarrow> string \<Rightarrow> string \<Rightarrow> string list" where
  "lineParts inQuote escaped current s =
     (if s = [] then (if current = [] then [] else [current])
      else
        (let rest = drop (rune_size s) s; cur = current @ rune_bytes s; ch = fst (decode_rune s) in
         if escaped then lineParts inQuote False cur rest
         else if ch = byte BSLASH then lineParts inQuote inQuote cur rest
         else if ch = byte DQUOTE then lineParts (\<not> inQuote) False cur rest
         else if ch = byte SP then
           (if inQuote then lineParts inQuote False cur rest
            else if current \<noteq> [] then current # lineParts inQuote False [] rest
            else lineParts inQuote False [] rest)
         else lineParts inQuote False cur rest))"
  by pat_completeness auto
termination
proof (relation "measure (\<lambda>(_, _, _, s). length s)", goal_cases)
  case 1
  show ?case by simp
qed (use decode_rune_size in \<open>force simp: Suc_le_eq\<close>)+

declare lineParts.simps [simp del]

definition parseManageSieveLine :: "string \<Rightarrow> string list" where
  "parseManageSieveLine line = lineParts False False [] line"

fun unescape :: "string \<Rightarrow> string" where
  \<comment> \<open>the loop of \<^verbatim>\<open>unquoteManageSieveArg\<close>\<close>
  "unescape [] = []"
| "unescape [c] = [c]"
| "unescape (c # d # s) = (if c = BSLASH then d # unescape s else c # unescape (d # s))"

definition unquoteManageSieveArg :: "string \<Rightarrow> string" where
  "unquoteManageSieveArg arg =
     (if length arg < 2 \<or> hd arg \<noteq> DQUOTE \<or> last arg \<noteq> DQUOTE then arg
      else unescape (butlast (tl arg)))"

definition quoteManageSieveString :: "string \<Rightarrow> string" where
  "quoteManageSieveString v =
     DQUOTE # concat (map (\<lambda>c. if c = BSLASH \<or> c = DQUOTE then [BSLASH, c] else [c]) v) @ [DQUOTE]"

fun closingQuote :: "string \<Rightarrow> bool" where
  \<comment> \<open>the loop of \<^verbatim>\<open>quotedStringComplete\<close>: the first quote that is not escaped ends the string\<close>
  "closingQuote [] = False"
| "closingQuote (c # s) =
     (if c = BSLASH then (case s of [] \<Rightarrow> False | _ # s' \<Rightarrow> closingQuote s')
      else if c = DQUOTE then s = []
      else closingQuote s)"

definition quotedStringComplete :: "string \<Rightarrow> bool" where
  "quotedStringComplete arg =
     (if length arg < 2 \<or> hd arg \<noteq> DQUOTE then False else closingQuote (tl arg))"

definition validScriptName :: "string \<Rightarrow> mserr option" where
  "validScriptName name =
     (if name = [] then Some (MsErr ''script name cannot be empty'')
      else if length name > 128 then Some (MsErr ''script name too long'')
      else if \<not> valid_utf8 name then Some (MsErr ''script name is not valid UTF-8'')
      else if \<exists>r \<in> set (runes name).
          r < 32 \<or> r = 127 \<or> (r \<ge> 128 \<and> r < 160) \<or> r = 8232 \<or> r = 8233
      then Some (MsErr ''script name contains control characters'')
      else None)"

section \<open>Reading and writing\<close>

definition conn_Write :: "'db config \<Rightarrow> string \<Rightarrow> ('db, unit) handler" where
  "conn_Write cf msg s =
     (if se_writes s = Some 0 then (Inl (MsErr (cf_writeError cf)), s)
      else (Inr (), s\<lparr>se_out := se_out s @ [msg], se_writes := map_option (\<lambda>n. n - 1) (se_writes s)\<rparr>))"

definition sendResponse :: "'db config \<Rightarrow> string \<Rightarrow> ('db, unit) handler" where
  "sendResponse cf msg =
     conn_Write cf (if has_suffix msg [CR, LF] then msg else msg @ [CR, LF])"

text \<open>\<^verbatim>\<open>ReadLine\<close>: the loop up to the line feed, then the carriage return off.\<close>

fun lineLoop :: "string \<Rightarrow> string \<Rightarrow> string \<Rightarrow> (string + string) \<times> string" where
  "lineLoop err line [] = (Inl err, [])"
| "lineLoop err line (b # s) =
     (if b = LF then (Inr line, s)
      else if length line + 1 > maxManageSieveLineLength + 1 then (Inl ''command line too long'', s)
      else lineLoop err (line @ [b]) s)"

definition ReadLine :: "'db config \<Rightarrow> ('db, string) handler" where
  "ReadLine cf s =
     (case lineLoop (cf_readError cf) [] (se_in s) of
        (Inl err, rest) \<Rightarrow> (Inl (MsErr err), s\<lparr>se_in := rest\<rparr>)
      | (Inr line, rest) \<Rightarrow>
          (let text = trim_right line {CR} in
           if length text > maxManageSieveLineLength
           then (Inl (MsErr ''command line too long''), s\<lparr>se_in := rest\<rparr>)
           else (Inr text, s\<lparr>se_in := rest\<rparr>)))"

definition readOctets :: "'db config \<Rightarrow> nat \<Rightarrow> ('db, string) handler" where
  \<comment> \<open>the loop of \<^verbatim>\<open>readScriptArg\<close> that fills the buffer\<close>
  "readOctets cf n s =
     (if length (se_in s) < n
      then (Inl (MsNo [] (''failed to read script: '' @ cf_readError cf) True), s\<lparr>se_in := []\<rparr>)
      else (Inr (take n (se_in s)), s\<lparr>se_in := drop n (se_in s)\<rparr>))"

definition error_text :: "mserr \<Rightarrow> string" where
  \<comment> \<open>\<^verbatim>\<open>err.Error()\<close>\<close>
  "error_text e = (case e of MsNo _ m _ \<Rightarrow> m | MsErr m \<Rightarrow> m | MsEOF \<Rightarrow> ''EOF'')"

definition readScriptArg :: "'db config \<Rightarrow> string \<Rightarrow> ('db, string) handler" where
  "readScriptArg cf arg =
     (if has_prefix arg [DQUOTE] then
        (if \<not> quotedStringComplete arg then failWith (MsErr ''invalid quoted script'')
         else returns (unquoteManageSieveArg arg))
      else
        (let literal = (has_prefix arg ''{'' \<and> has_suffix arg ''}'');
             sizeText = (if literal then trim_suffix (trim_suffix (tl arg) ''}'') ''+'' else arg)
         in case parse_int64 sizeText of
              None \<Rightarrow> failWith (MsNo [] ''invalid script size'' True)
            | Some scriptSize \<Rightarrow>
                if scriptSize < 0 \<or> scriptSize > maxManageSieveScriptSize
                then failWith (MsNo [] ''invalid script size'' True)
                else
                  andThen (readOctets cf (nat scriptSize)) (\<lambda>script.
                  if literal then
                    (\<lambda>s. case ReadLine cf s of
                       (Inl err, s') \<Rightarrow>
                         (Inl (MsNo [] (''failed to read end of command: '' @ error_text err) True), s')
                     | (Inr rest, s') \<Rightarrow>
                         if trim_space rest \<noteq> []
                         then (Inl (MsNo [] ''unexpected data after script literal'' True), s')
                         else (Inr script, s'))
                  else returns script)))"

section \<open>Failed authentications\<close>

definition tlsAvailable :: "'db config \<Rightarrow> bool" where
  "tlsAvailable cf =
     (case cf_tlsCfg cf of None \<Rightarrow> False | Some (certs, getCert, getConfig) \<Rightarrow> certs > 0 \<or> getCert \<or> getConfig)"

definition authNeedsTLS :: "'db config \<Rightarrow> 'db session \<Rightarrow> bool" where
  "authNeedsTLS cf s = (tlsAvailable cf \<and> \<not> se_tls s)"

definition failuresOf :: "'db session \<Rightarrow> string \<Rightarrow> int list" where
  "failuresOf s key = (case fmlookup (sv_authFailures s) key of None \<Rightarrow> [] | Some ts \<Rightarrow> ts)"

definition authLocked :: "'db config \<Rightarrow> string \<Rightarrow> 'db session \<Rightarrow> bool \<times> 'db session" where
  "authLocked cf key s =
     (if cf_maxAuthFailures cf \<le> 0 then (False, s)
      else
        (case time_Now cf s of (now, s) \<Rightarrow>
         let cutoff = now - cf_lockoutDuration cf;
             recent = filter (\<lambda>t. t > cutoff) (failuresOf s key);
             m = (if recent = [] then fmdrop key (sv_authFailures s)
                  else fmupd key recent (sv_authFailures s))
         in (int (length recent) \<ge> cf_maxAuthFailures cf, s\<lparr>sv_authFailures := m\<rparr>)))"

fun dropKeys :: "string list \<Rightarrow> (string, int list) fmap \<Rightarrow> (string, int list) fmap" where
  \<comment> \<open>the second loop of \<^verbatim>\<open>recordAuthFailure\<close>\<close>
  "dropKeys [] m = m"
| "dropKeys (k # ks) m = (if fm_len m < maxTrackedFailures then m else dropKeys ks (fmdrop k m))"

definition makeRoom ::
  "'db config \<Rightarrow> int \<Rightarrow> string \<Rightarrow> (string, int list) fmap \<Rightarrow> (string, int list) fmap" where
  \<comment> \<open>both loops: a new key finds a full table\<close>
  "makeRoom cf now key m =
     (if fmlookup m key = None \<and> fm_len m \<ge> maxTrackedFailures then
        (let cutoff = now - cf_lockoutDuration cf;
             m' = fmfilter (\<lambda>k. case fmlookup m k of
                               None \<Rightarrow> False
                             | Some v \<Rightarrow> \<not> (v = [] \<or> \<not> last v > cutoff)) m
         in dropKeys (cf_range cf m') m')
      else m)"

definition recordAuthFailure :: "'db config \<Rightarrow> string \<Rightarrow> 'db session \<Rightarrow> 'db session" where
  "recordAuthFailure cf key s =
     (if cf_maxAuthFailures cf \<le> 0 then s
      else
        (case time_Now cf s of (now, s) \<Rightarrow>
         let m = makeRoom cf now key (sv_authFailures s);
             old = (case fmlookup m key of None \<Rightarrow> [] | Some ts \<Rightarrow> ts)
         in s\<lparr>sv_authFailures := fmupd key (old @ [now]) m\<rparr>))"

definition clearAuthFailures :: "string \<Rightarrow> 'db session \<Rightarrow> 'db session" where
  "clearAuthFailures key s = s\<lparr>sv_authFailures := fmdrop key (sv_authFailures s)\<rparr>"

definition userLockKey :: "string \<Rightarrow> string" where
  "userLockKey u =
     (let u = to_lower (trim_space u);
          u = (if length u > 256 then take 256 u else u)
      in ''user:'' @ u)"

definition checkedAuth :: "'db config \<Rightarrow> string \<Rightarrow> string \<Rightarrow> ('db, bool) handler" where
  "checkedAuth cf user password s =
     (let key = userLockKey user in
      case authLocked cf key s of (locked, s) \<Rightarrow>
        if locked then (Inl (MsNo [] ''too many failed authentication attempts'' True), s)
        else
          (if (case cf_authHandler cf of None \<Rightarrow> False | Some h \<Rightarrow> h user password)
           then (Inr True, clearAuthFailures key s)
           else (Inr False, recordAuthFailure cf key s)))"

definition sessionUser :: "'db config \<Rightarrow> string \<Rightarrow> string" where
  "sessionUser cf login =
     (case cf_userResolver cf of
        None \<Rightarrow> login
      | Some resolve \<Rightarrow> if resolve login \<noteq> [] then resolve login else login)"

text \<open>\<^verbatim>\<open>admit\<close>; the refusal is written to the new connection.\<close>

definition admit :: "'db config \<Rightarrow> 'db server \<Rightarrow> bool \<times> 'db server" where
  "admit cf sv =
     (let limit = (if cf_maxConns cf \<le> 0 then defaultMaxConnections else cf_maxConns cf) in
      if sv_active sv + 1 > limit then (False, sv)
      else (True, sv\<lparr>sv_active := sv_active sv + 1\<rparr>))"

section \<open>Authentication\<close>

text \<open>\<^verbatim>\<open>base64.StdEncoding.EncodeToString\<close> of the challenges sent: the empty string,
  \<^verbatim>\<open>Username:\<close> and \<^verbatim>\<open>Password:\<close>.\<close>

definition b64_char :: "nat \<Rightarrow> char" where
  "b64_char n =
     ((''ABCDEFGHIJKLMNOPQRSTUVWXYZ'' @ ''abcdefghijklmnopqrstuvwxyz'' @ ''0123456789+/'') ! n)"

fun b64_encode :: "string \<Rightarrow> string" where
  "b64_encode [] = []"
| "b64_encode [a] = [b64_char (byte a div 4), b64_char (byte a mod 4 * 16), CHR ''='', CHR ''='']"
| "b64_encode [a, b] =
     [b64_char (byte a div 4), b64_char (byte a mod 4 * 16 + byte b div 16),
      b64_char (byte b mod 16 * 4), CHR ''='']"
| "b64_encode (a # b # c # s) =
     b64_char (byte a div 4) # b64_char (byte a mod 4 * 16 + byte b div 16) #
     b64_char (byte b mod 16 * 4 + byte c div 64) # b64_char (byte c mod 64) # b64_encode s"

definition decodeBase64 :: "string \<Rightarrow> string option" where
  \<comment> \<open>the decoder skips line breaks\<close>
  "decodeBase64 s = b64_decode (filter (\<lambda>c. c \<noteq> CR \<and> c \<noteq> LF) s)"

fun splitNul :: "string \<Rightarrow> string \<Rightarrow> string list" where
  \<comment> \<open>\<^verbatim>\<open>strings.Split\<close> at NUL; the first argument collects the current part\<close>
  "splitNul cur [] = [cur]"
| "splitNul cur (c # s) = (if c = CHR 0x00 then cur # splitNul [] s else splitNul (cur @ [c]) s)"

definition saslStep :: "'db config \<Rightarrow> string \<Rightarrow> ('db, string) handler" where
  "saslStep cf challenge =
     andThen (sendResponse cf (quoteManageSieveString (b64_encode challenge))) (\<lambda>_ s.
       case ReadLine cf s of
         (Inl err, s') \<Rightarrow> (Inl (MsErr (''authentication failed: '' @ error_text err)), s')
       | (Inr line, s') \<Rightarrow>
           (let resp = unquoteManageSieveArg line in
            if resp = ''*'' then (Inl (MsNo [] ''authentication cancelled'' False), s')
            else (Inr resp, s')))"

definition logIn :: "'db config \<Rightarrow> string \<Rightarrow> string \<Rightarrow> ('db, unit) handler" where
  \<comment> \<open>the end of both mechanisms: check the credentials and set the user\<close>
  "logIn cf user password =
     andThen (checkedAuth cf user password) (\<lambda>ok.
     if ok then
       (\<lambda>s. sendResponse cf ''OK \"Authentication successful\"'' (s\<lparr>se_user := sessionUser cf user\<rparr>))
     else failWith (MsErr ''authentication failed''))"

definition authPlain :: "'db config \<Rightarrow> string list \<Rightarrow> ('db, unit) handler" where
  "authPlain cf args =
     andThen (if length args \<ge> 2 then returns (unquoteManageSieveArg (args ! 1)) else saslStep cf [])
       (\<lambda>data.
     case decodeBase64 data of
       None \<Rightarrow> failWith (MsErr ''invalid authentication data'')
     | Some decoded \<Rightarrow>
         (let parts = splitNul [] decoded in
          if length parts < 3 then failWith (MsErr ''invalid PLAIN authentication format'')
          else if parts ! 0 \<noteq> [] \<and> \<not> equal_fold (parts ! 0) (parts ! 1)
          then failWith (MsErr ''authorization identity not permitted'')
          else logIn cf (parts ! 1) (parts ! 2)))"

definition authLogin :: "'db config \<Rightarrow> ('db, unit) handler" where
  "authLogin cf =
     andThen (saslStep cf ''Username:'') (\<lambda>username64.
     case decodeBase64 username64 of
       None \<Rightarrow> failWith (MsErr ''invalid username'')
     | Some username \<Rightarrow>
         andThen (saslStep cf ''Password:'') (\<lambda>password64.
         case decodeBase64 password64 of
           None \<Rightarrow> failWith (MsErr ''invalid password'')
         | Some password \<Rightarrow> logIn cf username password))"

definition cmdAuthenticate :: "'db config \<Rightarrow> string list \<Rightarrow> ('db, unit) handler" where
  "cmdAuthenticate cf args s =
     (if se_user s \<noteq> [] then failWith (MsNo [] ''already authenticated'' False) s
      else if authNeedsTLS cf s
      then failWith (MsNo ''ENCRYPT-NEEDED'' ''use STARTTLS before AUTHENTICATE'' False) s
      else if length args < 1 then failWith (MsErr ''AUTHENTICATE requires mechanism'') s
      else
        (let mechanism = to_upper (unquoteManageSieveArg (args ! 0)) in
         if mechanism = ''PLAIN'' then authPlain cf args s
         else if mechanism = ''LOGIN'' then authLogin cf s
         else failWith (MsErr (''unsupported authentication mechanism: '' @ mechanism)) s))"

section \<open>Commands\<close>

definition sendCapabilities :: "'db config \<Rightarrow> string \<Rightarrow> ('db, unit) handler" where
  "sendCapabilities cf ok s =
     (let exts = sorted_list_of_set supportedExtensions;
          sasl = (if authNeedsTLS cf s then ''\"SASL\" \"\"'' else ''\"SASL\" \"PLAIN LOGIN\"'');
          lines = [''\"IMPLEMENTATION\" \"uMailServer\"'', sasl,
                   ''\"SIEVE\" '' @ quoteManageSieveString (str_join exts '' '')] @
                  (if tlsAvailable cf \<and> \<not> se_tls s then [''\"STARTTLS\"''] else []) @
                  [''\"VERSION\" \"1.0\"'', ok]
      in sendResponse cf (str_join lines [CR, LF]) s)"

definition unauthenticatedScriptCommand :: "string list \<Rightarrow> mserr" where
  "unauthenticatedScriptCommand args =
     MsNo [] ''not authenticated''
       (args \<noteq> [] \<and>
        (has_prefix (last args) ''{'' \<or> (last args \<noteq> [] \<and> list_all is_digit (last args))))"

definition quotaResponseCode :: "merror \<Rightarrow> string" where
  "quotaResponseCode e =
     (case e of ErrQuotaMaxScripts \<Rightarrow> ''QUOTA/MAXSCRIPTS'' | ErrQuotaStorage \<Rightarrow> ''QUOTA'' | _ \<Rightarrow> [])"

definition merrorText :: "'db config \<Rightarrow> merror \<Rightarrow> string" where
  "merrorText cf e =
     (case e of
        ErrCompile c \<Rightarrow> cf_compileText cf c
      | ErrQuotaMaxScripts \<Rightarrow> ''too many scripts''
      | ErrQuotaStorage \<Rightarrow> ''script storage quota exceeded''
      | ErrNoSuchScript n \<Rightarrow> ''script '' @ go_quote (ml_go (cf_lib cf)) n @ '' not found''
      | ErrNoScripts \<Rightarrow> ''no scripts found for user''
      | ErrScriptNotFound \<Rightarrow> ''script does not exist''
      | ErrScriptActive \<Rightarrow> ''script is active''
      | ErrScriptExists \<Rightarrow> ''script already exists''
      | ErrScriptStorage err \<Rightarrow> ''script storage failure: '' @ err
      | ErrNilStore \<Rightarrow> ''sieve: nil store''
      | ErrLoad err \<Rightarrow> ''sieve: load scripts: '' @ err)"

definition is_storage :: "merror \<Rightarrow> bool" where
  \<comment> \<open>\<^verbatim>\<open>errors.Is(err, errScriptStorage)\<close>\<close>
  "is_storage e = (case e of ErrScriptStorage _ \<Rightarrow> True | _ \<Rightarrow> False)"

definition putContent :: "'db config \<Rightarrow> string \<Rightarrow> string \<Rightarrow> string \<Rightarrow> ('db, unit) handler" where
  \<comment> \<open>\<^verbatim>\<open>cmdPutScript\<close> once the script is read\<close>
  "putContent cf user name content =
     (case validScriptName name of
        Some err \<Rightarrow> failWith err
      | None \<Rightarrow>
          (case ValidateScript (cf_lib cf) content of
             Some err \<Rightarrow> failWith (MsErr (''script validation failed: '' @ cf_compileText cf err))
           | None \<Rightarrow>
               andThen (onManager (storeScript (cf_lib cf) user name content True)) (\<lambda>r.
               case r of
                 Some err \<Rightarrow>
                   if quotaResponseCode err \<noteq> []
                   then failWith (MsNo (quotaResponseCode err) (merrorText cf err) False)
                   else failWith (MsErr (''failed to store script: '' @ merrorText cf err))
               | None \<Rightarrow> sendResponse cf ''OK \"Script stored\"'')))"

definition cmdPutScript :: "'db config \<Rightarrow> string list \<Rightarrow> ('db, unit) handler" where
  "cmdPutScript cf args s =
     (if se_user s = [] then failWith (unauthenticatedScriptCommand args) s
      else if length args < 2
      then failWith (MsErr ''PUTSCRIPT requires script-name and script-size'') s
      else
        andThen (readScriptArg cf (args ! 1))
          (\<lambda>content. putContent cf (se_user s) (unquoteManageSieveArg (args ! 0)) content) s)"

fun sendNames :: "'db config \<Rightarrow> string \<Rightarrow> string list \<Rightarrow> ('db, unit) handler" where
  \<comment> \<open>the loop of \<^verbatim>\<open>cmdListScripts\<close>\<close>
  "sendNames cf active [] = returns ()"
| "sendNames cf active (name # names) =
     andThen (sendResponse cf
       (if name = active then quoteManageSieveString name @ '' ACTIVE'' else quoteManageSieveString name))
       (\<lambda>_. sendNames cf active names)"

definition cmdListScripts :: "'db config \<Rightarrow> ('db, unit) handler" where
  "cmdListScripts cf s =
     (if se_user s = [] then failWith (MsErr ''not authenticated'') s
      else
        andThen (sendNames cf (GetActiveScriptName (sv_manager s) (se_user s))
                   (ListScripts (cf_lib cf) (sv_manager s) (se_user s)))
          (\<lambda>_. sendResponse cf ''OK \"List scripts complete\"'') s)"

definition cmdSetActive :: "'db config \<Rightarrow> string list \<Rightarrow> ('db, unit) handler" where
  "cmdSetActive cf args s =
     (if se_user s = [] then failWith (MsErr ''not authenticated'') s
      else if length args < 1 then failWith (MsErr ''SETACTIVE requires script-name'') s
      else
        (let name = unquoteManageSieveArg (args ! 0) in
         if name = [] then
           andThen (onManager (deactivateScript (cf_lib cf) (se_user s))) (\<lambda>r.
           case r of
             Some err \<Rightarrow> failWith (MsNo [] (merrorText cf err) False)
           | None \<Rightarrow> sendResponse cf ''OK \"No active script\"'') s
         else
           andThen (onManager (SetActiveScriptByName (cf_lib cf) (se_user s) name)) (\<lambda>r.
           case r of
             Some err \<Rightarrow>
               failWith (MsNo (if is_storage err then [] else ''NONEXISTENT'')
                 (''failed to set active script: '' @ merrorText cf err) False)
           | None \<Rightarrow> sendResponse cf ''OK \"Set active script\"'') s))"

definition cmdDeleteScript :: "'db config \<Rightarrow> string list \<Rightarrow> ('db, unit) handler" where
  "cmdDeleteScript cf args s =
     (if se_user s = [] then failWith (MsErr ''not authenticated'') s
      else if length args < 1 then failWith (MsErr ''DELETESCRIPT requires script-name'') s
      else
        (let name = unquoteManageSieveArg (args ! 0) in
         if name = [] then failWith (MsErr ''script name cannot be empty'') s
         else
           andThen (onManager (deleteInactiveScript (cf_lib cf) (se_user s) name)) (\<lambda>r.
           case r of
             Some err \<Rightarrow>
               failWith (MsNo (if err = ErrScriptActive then ''ACTIVE''
                               else if is_storage err then [] else ''NONEXISTENT'')
                 (merrorText cf err) False)
           | None \<Rightarrow> sendResponse cf ''OK \"Script deleted\"'') s))"

definition cmdGetScript :: "'db config \<Rightarrow> string list \<Rightarrow> ('db, unit) handler" where
  "cmdGetScript cf args s =
     (if se_user s = [] then failWith (MsErr ''not authenticated'') s
      else if length args < 1 then failWith (MsErr ''GETSCRIPT requires script-name'') s
      else
        (let name = unquoteManageSieveArg (args ! 0) in
         case scriptSource (sv_manager s) (se_user s) name of
           None \<Rightarrow> failWith (MsNo ''NONEXISTENT'' (''script not found: '' @ name) False) s
         | Some source \<Rightarrow>
             andThen (sendResponse cf (''{'' @ itoa (length source) @ ''}'')) (\<lambda>_.
             andThen (conn_Write cf (source @ [CR, LF])) (\<lambda>_.
             sendResponse cf ''OK \"Get script complete\"'')) s))"

definition cmdCheckScript :: "'db config \<Rightarrow> string list \<Rightarrow> ('db, unit) handler" where
  "cmdCheckScript cf args s =
     (if se_user s = [] then failWith (unauthenticatedScriptCommand args) s
      else if length args < 1 then failWith (MsErr ''CHECKSCRIPT requires script-size'') s
      else
        andThen (readScriptArg cf (args ! 0)) (\<lambda>content.
        case ValidateScript (cf_lib cf) content of
          Some err \<Rightarrow> failWith (MsErr (''script validation failed: '' @ cf_compileText cf err))
        | None \<Rightarrow> sendResponse cf ''OK \"Script is valid\"'') s)"

definition cmdStartTLS :: "'db config \<Rightarrow> string list \<Rightarrow> ('db, unit) handler" where
  "cmdStartTLS cf args s =
     (if args \<noteq> [] then failWith (MsErr ''STARTTLS takes no arguments'') s
      else if \<not> tlsAvailable cf \<or> se_tls s then failWith (MsErr ''TLS not available'') s
      else if se_user s \<noteq> [] then failWith (MsErr ''STARTTLS is only valid before AUTHENTICATE'') s
      else
        andThen (sendResponse cf ''OK \"Begin TLS negotiation now\"'') (\<lambda>_ s.
        case cf_handshake cf (se_in s) of
          None \<Rightarrow> failWith (MsNo [] ''TLS negotiation failed'' True) (s\<lparr>se_in := []\<rparr>)
        | Some decrypted \<Rightarrow>
            sendCapabilities cf ''OK \"TLS negotiation successful\"''
              (s\<lparr>se_in := decrypted, se_tls := True\<rparr>)) s)"

definition cmdHaveSpace :: "'db config \<Rightarrow> string list \<Rightarrow> ('db, unit) handler" where
  "cmdHaveSpace cf args s =
     (if se_user s = [] then failWith (MsErr ''not authenticated'') s
      else if length args \<noteq> 2
      then failWith (MsErr ''HAVESPACE requires script-name and script-size'') s
      else
        (let name = unquoteManageSieveArg (args ! 0) in
         case validScriptName name of
           Some err \<Rightarrow> failWith err s
         | None \<Rightarrow>
             (case parse_int64 (args ! 1) of
                None \<Rightarrow> failWith (MsErr ''invalid script size'') s
              | Some n \<Rightarrow>
                  if n < 0 then failWith (MsErr ''invalid script size'') s
                  else if n > maxManageSieveScriptSize
                  then failWith (MsNo ''QUOTA/MAXSIZE'' ''script exceeds the maximum size'' False) s
                  else
                    (case haveSpace (sv_manager s) (se_user s) name (nat n) of
                       Some err \<Rightarrow>
                         failWith (MsNo (quotaResponseCode err) (merrorText cf err) False) s
                     | None \<Rightarrow> sendResponse cf ''OK \"Putscript would succeed\"'' s))))"

definition cmdRenameScript :: "'db config \<Rightarrow> string list \<Rightarrow> ('db, unit) handler" where
  "cmdRenameScript cf args s =
     (if se_user s = [] then failWith (MsErr ''not authenticated'') s
      else if length args \<noteq> 2 then failWith (MsErr ''RENAMESCRIPT requires old-name and new-name'') s
      else
        (let oldName = unquoteManageSieveArg (args ! 0); newName = unquoteManageSieveArg (args ! 1) in
         if oldName = [] then failWith (MsErr ''script name cannot be empty'') s
         else
           (case validScriptName newName of
              Some err \<Rightarrow> failWith err s
            | None \<Rightarrow>
                andThen (onManager (renameScript (cf_lib cf) (se_user s) oldName newName)) (\<lambda>r.
                case r of
                  Some err \<Rightarrow>
                    failWith (MsNo (if err = ErrScriptExists then ''ALREADYEXISTS''
                                    else if is_storage err then [] else ''NONEXISTENT'')
                      (merrorText cf err) False)
                | None \<Rightarrow> sendResponse cf ''OK \"Script renamed\"'') s)))"

definition cmdNoop :: "'db config \<Rightarrow> ('db, unit) handler" where
  "cmdNoop cf = sendResponse cf ''OK \"NOOP completed\"''"

section \<open>Dispatch and the session loop\<close>

text \<open>The \<^verbatim>\<open>AUTHENTICATE\<close> case of \<^verbatim>\<open>dispatchCommand\<close>.\<close>

definition is_no :: "mserr \<Rightarrow> bool" where
  \<comment> \<open>\<^verbatim>\<open>errors.As(err, &no)\<close>\<close>
  "is_no e = (case e of MsNo _ _ _ \<Rightarrow> True | _ \<Rightarrow> False)"

definition lockedOut :: "'db config \<Rightarrow> 'db session \<Rightarrow> bool \<times> 'db session" where
  "lockedOut cf s = (if se_user s = [] then authLocked cf (se_ip s) s else (False, s))"

definition dispatchAuthenticate :: "'db config \<Rightarrow> string list \<Rightarrow> ('db, unit) handler" where
  "dispatchAuthenticate cf args s =
     (case lockedOut cf s of (locked, s) \<Rightarrow>
        if locked then (Inl (MsNo [] ''too many failed authentication attempts'' True), s)
        else
          (case cmdAuthenticate cf args s of
             (Inr _, s') \<Rightarrow> (Inr (), s')
           | (Inl err, s') \<Rightarrow>
               if is_no err then (Inl err, s')
               else
                 (Inl (MsNo [] (error_text err) True),
                  if se_user s' = [] then recordAuthFailure cf (se_ip s) s' else s')))"

definition dispatchCommand :: "'db config \<Rightarrow> string \<Rightarrow> string list \<Rightarrow> ('db, unit) handler" where
  "dispatchCommand cf cmd args =
     (if cmd = ''AUTHENTICATE'' then dispatchAuthenticate cf args
      else if cmd = ''CAPABILITY'' then
        (if args \<noteq> [] then failWith (MsErr ''CAPABILITY takes no arguments'')
         else sendCapabilities cf ''OK \"Capability completed\"'')
      else if cmd = ''STARTTLS'' then cmdStartTLS cf args
      else if cmd = ''HAVESPACE'' then cmdHaveSpace cf args
      else if cmd = ''RENAMESCRIPT'' then cmdRenameScript cf args
      else if cmd = ''LOGOUT'' then
        andThen (sendResponse cf ''OK \"Logout successful\"'') (\<lambda>_. failWith MsEOF)
      else if cmd = ''PUTSCRIPT'' then cmdPutScript cf args
      else if cmd = ''LISTSCRIPTS'' then cmdListScripts cf
      else if cmd = ''SETACTIVE'' then cmdSetActive cf args
      else if cmd = ''DELETESCRIPT'' then cmdDeleteScript cf args
      else if cmd = ''GETSCRIPT'' then cmdGetScript cf args
      else if cmd = ''CHECKSCRIPT'' then cmdCheckScript cf args
      else if cmd = ''NOOP'' then cmdNoop cf
      else failWith (MsErr (''unknown command: '' @ cmd)))"

definition processCommandSession :: "'db config \<Rightarrow> string \<Rightarrow> ('db, unit) handler" where
  "processCommandSession cf line =
     (case parseManageSieveLine line of
        [] \<Rightarrow> failWith (MsErr ''invalid command'')
      | cmd # args \<Rightarrow> dispatchCommand cf (to_upper cmd) args)"

definition sendNo :: "'db config \<Rightarrow> mserr \<Rightarrow> 'db session \<Rightarrow> bool \<times> 'db session" where
  "sendNo cf err s =
     (let code = (case err of MsNo c _ _ \<Rightarrow> if c \<noteq> [] then ''('' @ c @ '') '' else [] | _ \<Rightarrow> []);
          closeConn = (case err of MsNo _ _ cl \<Rightarrow> cl | _ \<Rightarrow> False);
          msg = map (\<lambda>c. if c = CR \<or> c = LF then SP else c) (error_text err)
      in case sendResponse cf (''NO '' @ code @ quoteManageSieveString msg) s of
           (Inl _, s') \<Rightarrow> (False, s')
         | (Inr _, s') \<Rightarrow> (\<not> closeConn, s'))"

text \<open>One round of the loop of \<^verbatim>\<open>handleConn\<close>: whether the session goes on.\<close>

definition handleOne :: "'db config \<Rightarrow> 'db session \<Rightarrow> bool \<times> 'db session" where
  "handleOne cf s =
     (case ReadLine cf s of
        (Inl _, s') \<Rightarrow> (False, s')
      | (Inr line, s') \<Rightarrow>
          (case processCommandSession cf line s' of
             (Inr _, s'') \<Rightarrow> (True, s'')
           | (Inl err, s'') \<Rightarrow> if err = MsEOF then (False, s'') else sendNo cf err s''))"

end
