(* ===== verification/Sieve_Manager_Facts.thy ===== *)
theory Sieve_Manager_Facts
  imports Sieve_Manager Sieve_Compile_Facts "HOL-Library.List_Lexorder" "HOL-Library.Char_ord"
begin

text \<open>
  What the script manager guarantees: every user's scripts stay well formed;
  an operation that fails changes nothing; acknowledged changes survive a
  restart; the quota holds; the cache of vacation replies is bounded and keeps
  senders from being answered twice within the window.

  \<open>user_change\<close> is the contract between \<^verbatim>\<open>mutateUser\<close> and the functions it runs,
  interpreted for each of them; \<open>quota_change\<close> extends it.
\<close>

section \<open>A user's view and its well-formedness\<close>

definition user_view :: "'db manager \<Rightarrow> string \<Rightarrow> scripts \<times> string option" where
  "user_view m u = (userScripts m u, fmlookup (m_activeScripts m) u)"

fun wf_view :: "golib \<Rightarrow> scripts \<times> string option \<Rightarrow> bool" where
  "wf_view lib (us, active) =
     ((\<forall>n st. fmlookup us n = Some st \<longrightarrow>
         ss_Name st = n \<and> Compile lib (ss_Source st) = Inr (ss_Script st)) \<and>
      (\<forall>a. active = Some a \<longrightarrow> fmlookup us a \<noteq> None))"

definition wf_manager :: "'db mlib \<Rightarrow> 'db manager \<Rightarrow> bool" where
  "wf_manager L m = (\<forall>u. wf_view (ml_go L) (user_view m u))"

lemma userScripts_upd [simp]:
  "userScripts (m\<lparr>m_scripts := fmupd u us (m_scripts m)\<rparr>) v = (if v = u then us else userScripts m v)"
  by (simp add: userScripts_def)

lemma userScripts_more [simp]:
  "userScripts (m\<lparr>m_activeScripts := a\<rparr>) v = userScripts m v"
  "userScripts (m\<lparr>m_store := d\<rparr>) v = userScripts m v"
  "userScripts (m\<lparr>m_scripts := s, m_activeScripts := a\<rparr>) v = userScripts (m\<lparr>m_scripts := s\<rparr>) v"
  "userScripts (m\<lparr>m_scripts := s, m_store := d\<rparr>) v = userScripts (m\<lparr>m_scripts := s\<rparr>) v"
  by (simp_all add: userScripts_def)

lemma user_view_store [simp]: "user_view (m\<lparr>m_store := d\<rparr>) v = user_view m v"
  by (simp add: user_view_def)

lemma fmlookup_restore [simp]:
  "fmlookup (restore k p m) j = (if j = k then p else fmlookup m j)"
  by (simp add: restore_def split: option.splits)

lemma fm_len_0 [simp]: "fm_len m = 0 \<longleftrightarrow> m = fmempty"
  by (metis fm_len_def fcard_0_eq fmdom_empty fmrestrict_fset_dom fmrestrict_fset_null)

section \<open>What the database and the codec promise\<close>

definition bolt_get :: "'db mlib \<Rightarrow> 'db \<Rightarrow> string \<rightharpoonup> string" where
  "bolt_get L db = map_of (bolt_entries L db)"

definition bolt_laws :: "'db mlib \<Rightarrow> bool" where
  \<comment> \<open>a transaction that fails changes nothing; keys are unique\<close>
  "bolt_laws L =
     ((\<forall>k v db db'. bolt_put L k v db = (None, db') \<longrightarrow>
         bolt_get L db' = (bolt_get L db)(k \<mapsto> v)) \<and>
      (\<forall>k v db db' e. bolt_put L k v db = (Some e, db') \<longrightarrow>
         bolt_get L db' = bolt_get L db) \<and>
      (\<forall>k db db'. bolt_delete L k db = (None, db') \<longrightarrow>
         bolt_get L db' = (bolt_get L db)(k := None)) \<and>
      (\<forall>k db db' e. bolt_delete L k db = (Some e, db') \<longrightarrow>
         bolt_get L db' = bolt_get L db) \<and>
      (\<forall>db db'. bolt_create L db = (None, db') \<longrightarrow>
         bolt_get L db' = bolt_get L db) \<and>
      (\<forall>db. distinct (map fst (bolt_entries L db))))"

definition text_record :: "scriptRecord \<Rightarrow> bool" where
  "text_record r =
     (sr_Version r = scriptRecordVersion \<and> valid_utf8 (sr_Active r) \<and>
      list_all (\<lambda>(n, s). valid_utf8 n \<and> valid_utf8 s) (sr_Scripts r))"

definition codec_laws :: "'db mlib \<Rightarrow> bool" where
  \<comment> \<open>JSON text carries valid UTF-8; a loop over a map visits every key once\<close>
  "codec_laws L =
     ((\<forall>r raw. text_record r \<and> json_Marshal L r = Inr raw \<longrightarrow> json_Unmarshal L raw = Some r) \<and>
      (\<forall>us. distinct (map_range L us) \<and> set (map_range L us) = fset (fmdom us)))"

fun on_disk :: "'db mlib \<Rightarrow> string option \<Rightarrow> scripts \<times> string option \<Rightarrow> bool" where
  "on_disk L entry (us, active) =
     (if us = fmempty then entry = None
      else (\<exists>raw. json_Marshal L (scriptRecordOf L us active) = Inr raw \<and> entry = Some raw))"

definition saved :: "'db mlib \<Rightarrow> string \<Rightarrow> 'db manager \<Rightarrow> bool" where
  \<comment> \<open>the database holds what memory holds for this user\<close>
  "saved L u m =
     (case m_store m of
        None \<Rightarrow> False
      | Some db \<Rightarrow> on_disk L (bolt_get L db u) (user_view m u))"

lemma bolt_lawsD:
  assumes "bolt_laws L"
  shows "bolt_put L k v db = (None, db') \<Longrightarrow> bolt_get L db' = (bolt_get L db)(k \<mapsto> v)"
    and "bolt_put L k v db = (Some e, db') \<Longrightarrow> bolt_get L db' = bolt_get L db"
    and "bolt_delete L k db = (None, db') \<Longrightarrow> bolt_get L db' = (bolt_get L db)(k := None)"
    and "bolt_delete L k db = (Some e, db') \<Longrightarrow> bolt_get L db' = bolt_get L db"
    and "bolt_create L db = (None, db') \<Longrightarrow> bolt_get L db' = bolt_get L db"
    and "distinct (map fst (bolt_entries L db))"
  using assms unfolding bolt_laws_def by blast+

lemma saveUserLocked_ok:
  assumes "bolt_laws L" "saveUserLocked L u m db = (None, db')"
  shows "on_disk L (bolt_get L db' u) (user_view m u)"
    and "v \<noteq> u \<Longrightarrow> bolt_get L db' v = bolt_get L db v"
  using assms(2)
  by (auto simp: saveUserLocked_def user_view_def Let_def bolt_lawsD(1,3) [OF assms(1)]
      split: if_splits sum.splits)

lemma saveUserLocked_fail:
  assumes "bolt_laws L" "saveUserLocked L u m db = (Some e, db')"
  shows "bolt_get L db' = bolt_get L db"
  using assms(2)
  by (auto simp: saveUserLocked_def Let_def dest: bolt_lawsD(2,4) [OF assms(1)]
      split: if_splits sum.splits)

section \<open>Changes of one user's scripts\<close>

text \<open>
  The contract between \<^verbatim>\<open>mutateUser\<close> and the function it runs: no change when it
  reports an error, no change to another user, the store or the vacation cache,
  and the user's view stays well formed. \<open>mutateUser\<close> then is atomic.
\<close>

locale user_change =
  fixes lib :: golib
    and u :: string
    and fn :: "'db manager \<Rightarrow> 'db mresult"
  assumes fn_error: "fn m = (Some e, m') \<Longrightarrow> m' = m"
    and fn_frame: "fn m = (None, m') \<Longrightarrow> v \<noteq> u \<Longrightarrow>
      fmlookup (m_scripts m') v = fmlookup (m_scripts m) v \<and>
      fmlookup (m_activeScripts m') v = fmlookup (m_activeScripts m) v"
    and fn_store: "fn m = (None, m') \<Longrightarrow> m_store m' = m_store m"
    and fn_wf: "wf_view lib (user_view m u) \<Longrightarrow> fn m = (None, m') \<Longrightarrow> wf_view lib (user_view m' u)"
begin

lemma fn_other: "fn m = (r, m') \<Longrightarrow> v \<noteq> u \<Longrightarrow> user_view m' v = user_view m v"
  using fn_error [of m] fn_frame [of m m' v]
  by (cases r) (auto simp: user_view_def userScripts_def)

lemma mutate_cases:
  assumes "mutateUser L u fn m = (r, m')"
  obtains (error) e where "r = Some e" "m' = m"
  | (memory) "r = None" "fn m = (None, m')" "m_store m = None \<or> u = []"
  | (stored) db m1 db' where "r = None" "m_store m = Some db" "u \<noteq> []" "fn m = (None, m1)"
      "saveUserLocked L u m1 db = (None, db')" "m' = m1\<lparr>m_store := Some db'\<rparr>"
  | (failed) db m1 db' e where "r = Some (ErrScriptStorage e)" "m_store m = Some db" "u \<noteq> []"
      "saveUserLocked L u m1 db = (Some e, db')" "m_store m' = Some db'"
      "\<And>v. user_view m' v = user_view m v"
proof (cases "fn m")
  case (Pair r1 m1)
  show ?thesis
  proof (cases "m_store m = None \<or> u = []")
    case True
    then have "(r, m') = (r1, m1)" using assms Pair by (auto simp: mutateUser_def split: option.splits)
    then show ?thesis using Pair True that(1,2) fn_error by (cases r1) auto
  next
    case False
    then obtain db where db: "m_store m = Some db" "u \<noteq> []" by auto
    show ?thesis
    proof (cases r1)
      case (Some e)
      then show ?thesis using assms Pair db that(1) fn_error by (auto simp: mutateUser_def)
    next
      case None
      obtain r2 db' where s: "saveUserLocked L u m1 db = (r2, db')" by fastforce
      show ?thesis
      proof (cases r2)
        case None': None
        then show ?thesis
          using assms Pair None db s that(3) by (auto simp: mutateUser_def)
      next
        case (Some e)
        then have r: "r = Some (ErrScriptStorage e)" "m_store m' = Some db'"
          and m': "m' = m1\<lparr>m_scripts := restore u (fmlookup (m_scripts m) u) (m_scripts m1),
             m_activeScripts := restore u (fmlookup (m_activeScripts m) u) (m_activeScripts m1),
             m_store := Some db'\<rparr>"
          using assms Pair None db s by (auto simp: mutateUser_def)
        have "user_view m' v = user_view m v" for v
          using fn_frame [of m m1 v] Pair None m' by (simp add: user_view_def userScripts_def)
        then show ?thesis using that(4) r db s Some by blast
      qed
    qed
  qed
qed

lemma mutate_atomic: "mutateUser L u fn m = (Some e, m') \<Longrightarrow> user_view m' v = user_view m v"
  by (erule mutate_cases) auto

lemma mutate_other: "mutateUser L u fn m = (r, m') \<Longrightarrow> v \<noteq> u \<Longrightarrow> user_view m' v = user_view m v"
proof (erule mutate_cases, goal_cases)
  case (3 db m1 db')
  then show ?case using fn_other [of m None m1 v] by simp
qed (auto dest: fn_other)

lemma mutate_snd_other: "v \<noteq> u \<Longrightarrow> user_view (snd (mutateUser L u fn m)) v = user_view m v"
  by (rule mutate_other [OF prod.collapse [symmetric]])

lemma mutate_wf:
  "wf_view lib (user_view m v) \<Longrightarrow> mutateUser L u fn m = (r, m') \<Longrightarrow> wf_view lib (user_view m' v)"
proof (cases "v = u")
  case True
  moreover assume w: "wf_view lib (user_view m v)"
  moreover assume "mutateUser L u fn m = (r, m')"
  then show ?thesis
  proof (cases rule: mutate_cases)
    case (stored db m1 db')
    then show ?thesis using fn_wf [of m m1] w True by simp
  qed (use w fn_wf True in auto)
qed (simp add: mutate_other)

lemma mutate_store: "mutateUser L u fn m = (r, m') \<Longrightarrow> m_store m' = None \<longleftrightarrow> m_store m = None"
  by (erule mutate_cases) (auto simp: fn_store)

lemma mutate_saves:
  assumes "bolt_laws L" "u \<noteq> []" "m_store m \<noteq> None" "mutateUser L u fn m = (None, m')"
  shows "saved L u m'"
  using assms(4,1-3)
  by (cases rule: mutate_cases)
     (auto simp: saved_def dest!: saveUserLocked_ok(1))

lemma mutate_saved:
  assumes "bolt_laws L" "v \<noteq> []" "saved L v m" "mutateUser L u fn m = (r, m')"
  shows "saved L v m'"
  using assms(4)
proof (cases rule: mutate_cases)
  case memory
  then show ?thesis
    using assms fn_other [of m None m' v] fn_store [of m m'] by (auto simp: saved_def split: option.splits)
next
  case (stored db m1 db')
  show ?thesis
  proof (cases "v = u")
    case True
    then show ?thesis using mutate_saves assms stored by (metis option.distinct(1))
  next
    case False
    then show ?thesis
      using assms stored fn_other [of m None m1 v] saveUserLocked_ok(2) [OF assms(1) stored(5) False]
      by (auto simp: saved_def)
  qed
next
  case (failed db m1 db' e)
  then show ?thesis using assms saveUserLocked_fail [OF assms(1) failed(4)] by (simp add: saved_def)
qed (use assms in simp)

end

definition compileStoreFn ::
  "golib \<Rightarrow> string \<Rightarrow> string \<Rightarrow> string \<Rightarrow> bool \<Rightarrow> 'db manager \<Rightarrow> 'db mresult" where
  "compileStoreFn lib u name source q m =
     (case Compile lib source of
        Inl err \<Rightarrow> (Some (ErrCompile err), m)
      | Inr sc \<Rightarrow> storeFn u name source sc q m)"

lemma storeScript_mutate:
  "storeScript L u name source q m = mutateUser L u (compileStoreFn (ml_go L) u name source q) m"
  by (auto simp: storeScript_def CompileScript_def compileStoreFn_def mutateUser_def
      split: sum.splits option.splits)

interpretation store_change: user_change lib u "compileStoreFn lib u name source q"
  for lib u name source q
  by unfold_locales
     (auto simp: compileStoreFn_def storeFn_def user_view_def split: sum.splits option.splits if_splits)

interpretation activate_change: user_change lib u "activateFn u name" for lib u name
  by unfold_locales
     (auto simp: activateFn_def user_view_def userScripts_def split: option.splits if_splits)

interpretation delete_change: user_change lib u "deleteFn u name" for lib u name
  by unfold_locales
     (auto simp: deleteFn_def user_view_def Let_def userScripts_def split: option.splits if_splits)

interpretation delete_inactive_change: user_change lib u "deleteInactiveFn u name" for lib u name
  by unfold_locales
     (auto simp: deleteInactiveFn_def user_view_def split: option.splits if_splits)

interpretation deactivate_change: user_change lib u "deactivateFn u" for lib u
  by unfold_locales (auto simp: deactivateFn_def user_view_def)

interpretation rename_change: user_change lib u "renameFn u a b" for lib u a b
  by unfold_locales
     (auto simp: renameFn_def user_view_def Let_def split: option.splits if_splits)

section \<open>Restart\<close>

text \<open>What \<^verbatim>\<open>loadRecordLocked\<close> installs for the record of a well-formed view.\<close>

lemma loadScripts_lookup:
  assumes "distinct (map fst es)"
    "\<forall>(n, s) \<in> set es. \<exists>sc. CompileScript L s = Inr sc"
  shows "fmlookup (loadScripts L es us) n =
    (case map_of es n of
       None \<Rightarrow> fmlookup us n
     | Some s \<Rightarrow> Some \<lparr>ss_Name = n, ss_Source = s, ss_Script = projr (CompileScript L s)\<rparr>)"
  using assms
proof (induction L es us rule: loadScripts.induct)
  case (2 L name source es us)
  obtain sc where "CompileScript L source = Inr sc" using "2.prems"(2) by auto
  moreover have "map_of es name = None" using "2.prems"(1) by (simp add: map_of_eq_None_iff)
  ultimately show ?case using 2 by (simp split: option.split)
qed simp

lemma loadScripts_record:
  assumes "codec_laws L" "wf_view (ml_go L) (us, active)"
  shows "loadScripts L (sr_Scripts (scriptRecordOf L us active)) fmempty = us"
proof (rule fmap_ext)
  fix n
  let ?es = "sr_Scripts (scriptRecordOf L us active)"
  have r: "distinct (map_range L us)" "set (map_range L us) = fset (fmdom us)"
    using assms(1) by (auto simp: codec_laws_def)
  have d: "distinct (map fst ?es)" using r(1) by (simp add: scriptRecordOf_def o_def)
  have c: "Compile (ml_go L) (source_of us k) = Inr (ss_Script (the (fmlookup us k)))"
    if "k |\<in>| fmdom us" for k
    using that assms(2) by (auto simp: source_of_def elim!: fmdomE)
  have "map_of ?es n = (if n |\<in>| fmdom us then Some (source_of us n) else None)"
    using r by (auto simp: scriptRecordOf_def map_of_map_restrict restrict_map_def)
  moreover have "\<forall>(n, s) \<in> set ?es. \<exists>sc. CompileScript L s = Inr sc"
    using c r(2) by (auto simp: scriptRecordOf_def CompileScript_def)
  ultimately have l: "fmlookup (loadScripts L ?es fmempty) n =
      (if n |\<in>| fmdom us then Some \<lparr>ss_Name = n, ss_Source = source_of us n,
         ss_Script = ss_Script (the (fmlookup us n))\<rparr> else None)"
    using loadScripts_lookup [OF d, of L fmempty n] c by (simp add: CompileScript_def)
  show "fmlookup (loadScripts L ?es fmempty) n = fmlookup us n"
  proof (cases "fmlookup us n")
    case (Some st)
    then have "n |\<in>| fmdom us" "ss_Name st = n" using assms(2) by (auto intro: fmdomI)
    then show ?thesis using l Some by (cases st) (simp add: source_of_def)
  qed (use l in \<open>auto simp: fmdom_notI\<close>)
qed

lemma load_other: "v \<noteq> u \<Longrightarrow> user_view (loadRecordLocked L u raw m) v = user_view m v"
  by (auto simp: loadRecordLocked_def user_view_def userScripts_def Let_def split: option.splits)

lemma load_all_other:
  "v \<notin> fst ` set es \<Longrightarrow> user_view (fold (\<lambda>(k, v). loadRecordLocked L k v) es m) v = user_view m v"
  by (induction es arbitrary: m) (auto simp: load_other)

lemma load_all:
  assumes "distinct (map fst es)" "(u, raw) \<in> set es"
  shows "\<exists>m'. user_view m' u = user_view m u \<and> (fmlookup (m_scripts m') u = fmlookup (m_scripts m) u) \<and>
    user_view (fold (\<lambda>(k, v). loadRecordLocked L k v) es m) u = user_view (loadRecordLocked L u raw m') u"
  using assms
proof (induction es arbitrary: m)
  case (Cons e es)
  obtain k v where e: "e = (k, v)" by fastforce
  show ?case
  proof (cases "k = u")
    case True
    then have "v = raw" using Cons.prems e by (force simp: rev_image_eqI)
    then show ?thesis
      using Cons.prems e True load_all_other [of u es L "loadRecordLocked L u raw m"] by auto
  next
    case False
    then obtain m' where "user_view m' u = user_view (loadRecordLocked L k v m) u"
        "fmlookup (m_scripts m') u = fmlookup (m_scripts (loadRecordLocked L k v m)) u"
        "user_view (fold (\<lambda>(k, v). loadRecordLocked L k v) es (loadRecordLocked L k v m)) u =
           user_view (loadRecordLocked L u raw m') u"
      using Cons.IH [of "loadRecordLocked L k v m"] Cons.prems e by auto
    moreover have "fmlookup (m_scripts (loadRecordLocked L k v m)) u = fmlookup (m_scripts m) u"
      using False by (auto simp: loadRecordLocked_def Let_def split: option.splits)
    ultimately show ?thesis using False e load_other [of u k L v m] by auto
  qed
qed simp

fun text_view :: "scripts \<times> string option \<Rightarrow> bool" where
  \<comment> \<open>names and sources are UTF-8, and the active script has a name\<close>
  "text_view (us, active) =
     ((\<forall>n \<in> fset (fmdom us). valid_utf8 n \<and> valid_utf8 (source_of us n)) \<and> active \<noteq> Some [])"

lemma text_view_record:
  assumes "codec_laws L" "wf_view (ml_go L) (us, active)" "text_view (us, active)"
  shows "text_record (scriptRecordOf L us active)"
proof -
  have "valid_utf8 a" if "active = Some a" for a
  proof -
    have "a |\<in>| fmdom us" using that assms(2) by (auto intro: fmdomI)
    then show ?thesis using assms(3) by simp
  qed
  moreover have "valid_utf8 []" by (simp add: valid_utf8.simps)
  ultimately have "valid_utf8 (case active of None \<Rightarrow> [] | Some n \<Rightarrow> n)" by (cases active) simp_all
  then show ?thesis
    using assms(1,3) by (auto simp: text_record_def scriptRecordOf_def codec_laws_def list_all_iff)
qed

lemma load_restores:
  assumes "codec_laws L" "wf_view (ml_go L) (us, active)" "text_view (us, active)" "us \<noteq> fmempty"
    "json_Marshal L (scriptRecordOf L us active) = Inr raw"
    "fmlookup (m_scripts m) u = None" "fmlookup (m_activeScripts m) u = None"
  shows "user_view (loadRecordLocked L u raw m) u = (us, active)"
proof -
  have r: "json_Unmarshal L raw = Some (scriptRecordOf L us active)"
    using text_view_record [OF assms(1-3)] assms(1,5) by (auto simp: codec_laws_def)
  have "sr_Version (scriptRecordOf L us active) = scriptRecordVersion"
      "sr_Active (scriptRecordOf L us active) = (case active of None \<Rightarrow> [] | Some n \<Rightarrow> n)"
    by (simp_all add: scriptRecordOf_def)
  then show ?thesis
    using loadScripts_record [OF assms(1,2)] r assms
    by (auto simp: loadRecordLocked_def user_view_def Let_def split: option.splits)
qed

lemma restart_view:
  assumes laws: "bolt_laws L" "codec_laws L" and m: "saved L u m" "m_store m = Some db"
    and v: "wf_view (ml_go L) (user_view m u)" "text_view (user_view m u)"
    and a: "AttachStore L (Some db) NewManager = (None, m')"
  shows "user_view m' u = user_view m u"
proof -
  obtain us active where uv: "user_view m u = (us, active)" by fastforce
  obtain db1 db2 where c: "bolt_create L db = (None, db1)"
      and m': "m' = (fold (\<lambda>(k, v). loadRecordLocked L k v) (bolt_entries L db1) NewManager)
        \<lparr>m_store := Some db2\<rparr>"
    using a by (auto simp: AttachStore_def NewManager_def Let_def split: prod.splits option.splits)
  have get: "bolt_get L db1 = bolt_get L db" using bolt_lawsD(5) [OF laws(1) c] .
  have disk: "on_disk L (bolt_get L db1 u) (us, active)"
    using m get uv by (simp add: saved_def)
  show ?thesis
  proof (cases "us = fmempty")
    case True
    then have "u \<notin> fst ` set (bolt_entries L db1)"
      using disk by (simp add: bolt_get_def map_of_eq_None_iff)
    moreover have "active = None" using v(1) uv True by (cases active) auto
    ultimately show ?thesis
      using load_all_other [of u "bolt_entries L db1" L NewManager] m' uv True
      by (simp add: user_view_def NewManager_def userScripts_def)
  next
    case False
    then obtain raw where raw: "json_Marshal L (scriptRecordOf L us active) = Inr raw"
        "(u, raw) \<in> set (bolt_entries L db1)"
      using disk by (auto simp: bolt_get_def dest!: map_of_SomeD)
    obtain m0 where "user_view m0 u = user_view (NewManager :: 'a manager) u"
        "fmlookup (m_scripts m0) u = fmlookup (m_scripts (NewManager :: 'a manager)) u"
        "user_view m' u = user_view (loadRecordLocked L u raw m0) u"
      using load_all [OF bolt_lawsD(6) [OF laws(1)] raw(2), of NewManager L] m' by auto
    then show ?thesis
      using load_restores [OF laws(2) _ _ False raw(1), of m0 u] v uv
      by (simp add: user_view_def NewManager_def userScripts_def)
  qed
qed

declare wf_view.simps [simp del]

section \<open>Runs of the manager\<close>

datatype 'db mop =
    OpStore string string string bool
  | OpActivate string string
  | OpSetActive string string string
  | OpDelete string string
  | OpDeleteInactive string string
  | OpDeactivate string
  | OpRename string string string
  | OpAttach "'db option"
  | OpVacation int int string int

fun perform :: "'db mlib \<Rightarrow> 'db mop \<Rightarrow> 'db manager \<Rightarrow> 'db mresult" where
  "perform L (OpStore u n s q) m = storeScript L u n s q m"
| "perform L (OpActivate u n) m = SetActiveScriptByName L u n m"
| "perform L (OpSetActive u n s) m = SetActiveScript L u n s m"
| "perform L (OpDelete u n) m = (None, DeleteScript L u n m)"
| "perform L (OpDeleteInactive u n) m = deleteInactiveScript L u n m"
| "perform L (OpDeactivate u) m = deactivateScript L u m"
| "perform L (OpRename u a b) m = renameScript L u a b m"
| "perform L (OpAttach bolt) m = AttachStore L bolt m"
| "perform L (OpVacation now now' s i) m = (None, snd (CheckAndRecordVacationFor now now' s i m))"

abbreviation manager_run :: "'db mlib \<Rightarrow> 'db mop list \<Rightarrow> 'db manager \<Rightarrow> 'db manager" where
  "manager_run L ops m \<equiv> fold (\<lambda>op m. snd (perform L op m)) ops m"

text \<open>The operations that report to their caller whether the change is made.\<close>

fun change_of :: "'db mop \<Rightarrow> string option" where
  "change_of (OpStore u _ _ _) = Some u"
| "change_of (OpActivate u _) = Some u"
| "change_of (OpDeleteInactive u _) = Some u"
| "change_of (OpDeactivate u) = Some u"
| "change_of (OpRename u _ _) = Some u"
| "change_of _ = None"

lemmas op_defs = storeScript_mutate SetActiveScriptByName_def deleteInactiveScript_def
  deactivateScript_def renameScript_def DeleteScript_def

lemma touch_shape:
  "\<exists>c a. touchVacationLocked now s m = m\<lparr>m_vacationCache := c, m_vacationAccessor := a\<rparr>"
  unfolding touchVacationLocked_def Let_def case_prod_beta by (intro exI) (rule refl)

lemma touch_views [simp]:
  "user_view (touchVacationLocked now s m) v = user_view m v"
  "m_store (touchVacationLocked now s m) = m_store m"
  using touch_shape [of now s m] by (auto simp: user_view_def userScripts_def)

lemma vacation_views [simp]:
  "user_view (snd (CheckAndRecordVacationFor now now' s i m)) v = user_view m v"
  "m_store (snd (CheckAndRecordVacationFor now now' s i m)) = m_store m"
  by (simp_all add: CheckAndRecordVacationFor_def)

lemma SetActiveScript_snd:
  "StoreScript L u n s m = (r, m1) \<Longrightarrow>
     snd (SetActiveScript L u n s m) =
       (if r = None then snd (mutateUser L u (activateFn u n) m1) else m1)"
  by (simp add: SetActiveScript_def SetActiveScriptByName_def split: option.splits)

subsection \<open>Well-formedness\<close>

lemma loadScripts_wf:
  "wf_view (ml_go L) (us, None) \<Longrightarrow> wf_view (ml_go L) (loadScripts L es us, None)"
proof (induction L es us rule: loadScripts.induct)
  case (2 L name source es us)
  show ?case
  proof (cases "CompileScript L source")
    case (Inr sc)
    let ?us = "fmupd name \<lparr>ss_Name = name, ss_Source = source, ss_Script = sc\<rparr> us"
    have "wf_view (ml_go L) (?us, None)" using "2.prems" Inr by (simp add: CompileScript_def wf_view.simps)
    then have "wf_view (ml_go L) (loadScripts L es ?us, None)" by (rule "2.IH"(2) [OF Inr])
    then show ?thesis using Inr by simp
  next
    case (Inl e)
    then show ?thesis using "2.IH"(1) [OF Inl "2.prems"] by simp
  qed
qed simp

lemma load_wf:
  assumes "wf_view (ml_go L) (user_view m v)"
  shows "wf_view (ml_go L) (user_view (loadRecordLocked L u raw m) v)"
proof (cases "v = u \<and> fmlookup (m_scripts m) u = None")
  case True
  then have "fmlookup (m_activeScripts m) u = None"
    using assms by (cases "fmlookup (m_activeScripts m) u") (auto simp: user_view_def userScripts_def wf_view.simps)
  moreover have "wf_view (ml_go L) (loadScripts L es fmempty, None)" for es
    by (rule loadScripts_wf) (simp add: wf_view.simps)
  ultimately show ?thesis
    using True assms
    by (auto simp: loadRecordLocked_def user_view_def Let_def wf_view.simps split: option.splits)
next
  case False
  then consider "v \<noteq> u" | "fmlookup (m_scripts m) u \<noteq> None" by auto
  then show ?thesis
  proof cases
    case 1
    then show ?thesis using assms by (simp add: load_other)
  next
    case 2
    then show ?thesis using assms by (simp add: loadRecordLocked_def)
  qed
qed

lemma load_all_wf:
  "wf_view (ml_go L) (user_view m v) \<Longrightarrow>
     wf_view (ml_go L) (user_view (fold (\<lambda>(k, v). loadRecordLocked L k v) es m) v)"
  by (induction es arbitrary: m) (auto intro!: load_wf)

lemma AttachStore_wf:
  assumes "wf_view (ml_go L) (user_view m v)"
  shows "wf_view (ml_go L) (user_view (snd (AttachStore L bolt m)) v)"
  using assms load_all_wf [OF assms]
  by (auto simp: AttachStore_def Let_def split: option.splits prod.splits)

lemma perform_wf:
  assumes "wf_view (ml_go L) (user_view m v)"
  shows "wf_view (ml_go L) (user_view (snd (perform L op m)) v)"
proof (cases op)
  case (OpStore u n s q)
  then show ?thesis using store_change.mutate_wf [OF assms] by (simp add: op_defs prod_eq_iff)
next
  case (OpActivate u n)
  then show ?thesis using activate_change.mutate_wf [OF assms] by (simp add: op_defs prod_eq_iff)
next
  case (OpSetActive u n s)
  obtain r m1 where m1: "StoreScript L u n s m = (r, m1)" by fastforce
  then have "wf_view (ml_go L) (user_view m1 v)"
    using store_change.mutate_wf [OF assms] by (simp add: op_defs StoreScript_def)
  then show ?thesis
    using SetActiveScript_snd [OF m1] OpSetActive activate_change.mutate_wf [of "ml_go L" m1 v L u n]
    by (simp add: prod_eq_iff)
next
  case (OpDelete u n)
  then show ?thesis using delete_change.mutate_wf [OF assms] by (simp add: op_defs prod_eq_iff)
next
  case (OpDeleteInactive u n)
  then show ?thesis using delete_inactive_change.mutate_wf [OF assms] by (simp add: op_defs prod_eq_iff)
next
  case (OpDeactivate u)
  then show ?thesis using deactivate_change.mutate_wf [OF assms] by (simp add: op_defs prod_eq_iff)
next
  case (OpRename u a b)
  then show ?thesis using rename_change.mutate_wf [OF assms] by (simp add: op_defs prod_eq_iff)
qed (use assms AttachStore_wf [OF assms] in simp_all)

interpretation manager_wf: invariant_system "\<lambda>op m. snd (perform L op m)" "wf_manager L" for L
  by unfold_locales (simp add: wf_manager_def perform_wf)

lemma wf_NewManager [simp]: "wf_manager L NewManager"
  by (simp add: wf_manager_def user_view_def NewManager_def userScripts_def wf_view.simps)

subsection \<open>Persistence\<close>

lemma perform_saved:
  assumes l: "bolt_laws L" and v: "v \<noteq> []" and s: "saved L v m"
  shows "saved L v (snd (perform L op m))"
proof (cases op)
  case (OpStore u n s q)
  then show ?thesis using store_change.mutate_saved [OF assms] by (simp add: op_defs prod_eq_iff)
next
  case (OpActivate u n)
  then show ?thesis using activate_change.mutate_saved [OF assms] by (simp add: op_defs prod_eq_iff)
next
  case (OpSetActive u n s)
  obtain r m1 where m1: "StoreScript L u n s m = (r, m1)" by fastforce
  then have "saved L v m1"
    using store_change.mutate_saved [OF assms] by (simp add: op_defs StoreScript_def)
  then show ?thesis
    using SetActiveScript_snd [OF m1] OpSetActive activate_change.mutate_saved [OF l v, of m1 u n]
    by (simp add: prod_eq_iff)
next
  case (OpDelete u n)
  then show ?thesis using delete_change.mutate_saved [OF assms] by (simp add: op_defs prod_eq_iff)
next
  case (OpDeleteInactive u n)
  then show ?thesis using delete_inactive_change.mutate_saved [OF assms] by (simp add: op_defs prod_eq_iff)
next
  case (OpDeactivate u)
  then show ?thesis using deactivate_change.mutate_saved [OF assms] by (simp add: op_defs prod_eq_iff)
next
  case (OpRename u a b)
  then show ?thesis using rename_change.mutate_saved [OF assms] by (simp add: op_defs prod_eq_iff)
next
  case (OpAttach bolt)
  then show ?thesis using s by (auto simp: AttachStore_def saved_def split: option.splits)
next
  case (OpVacation now now' s i)
  then show ?thesis using \<open>saved L v m\<close> by (auto simp: saved_def split: option.splits)
qed

lemma manager_run_saved:
  "bolt_laws L \<Longrightarrow> v \<noteq> [] \<Longrightarrow> saved L v m \<Longrightarrow> saved L v (manager_run L ops m)"
  by (induction ops arbitrary: m) (auto intro: perform_saved)

lemma perform_saves:
  assumes "bolt_laws L" "u \<noteq> []" "m_store m \<noteq> None" "change_of op = Some u" "perform L op m = (None, m')"
  shows "saved L u m'"
proof (cases op)
  case (OpStore u n s q)
  then show ?thesis using store_change.mutate_saves [OF assms(1-3)] assms by (simp add: op_defs)
next
  case (OpActivate u n)
  then show ?thesis using activate_change.mutate_saves [OF assms(1-3)] assms by (simp add: op_defs)
next
  case (OpDeleteInactive u n)
  then show ?thesis using delete_inactive_change.mutate_saves [OF assms(1-3)] assms by (simp add: op_defs)
next
  case (OpDeactivate u)
  then show ?thesis using deactivate_change.mutate_saves [OF assms(1-3)] assms by (simp add: op_defs)
next
  case (OpRename u a b)
  then show ?thesis using rename_change.mutate_saves [OF assms(1-3)] assms by (simp add: op_defs)
qed (use assms in auto)

lemma perform_other:
  assumes "change_of op = Some u" "v \<noteq> u"
  shows "user_view (snd (perform L op m)) v = user_view m v"
proof (cases op)
  case (OpStore u n s q)
  then show ?thesis using store_change.mutate_snd_other assms by (simp add: op_defs)
next
  case (OpActivate u n)
  then show ?thesis using activate_change.mutate_snd_other assms by (simp add: op_defs)
next
  case (OpDeleteInactive u n)
  then show ?thesis using delete_inactive_change.mutate_snd_other assms by (simp add: op_defs)
next
  case (OpDeactivate u)
  then show ?thesis using deactivate_change.mutate_snd_other assms by (simp add: op_defs)
next
  case (OpRename u a b)
  then show ?thesis using rename_change.mutate_snd_other assms by (simp add: op_defs)
qed (use assms in auto)

lemma perform_atomic:
  assumes "change_of op = Some u" "perform L op m = (Some e, m')"
  shows "user_view m' v = user_view m v"
proof (cases op)
  case (OpStore u n s q)
  then show ?thesis using store_change.mutate_atomic assms by (simp add: op_defs)
next
  case (OpActivate u n)
  then show ?thesis using activate_change.mutate_atomic assms by (simp add: op_defs)
next
  case (OpDeleteInactive u n)
  then show ?thesis using delete_inactive_change.mutate_atomic assms by (simp add: op_defs)
next
  case (OpDeactivate u)
  then show ?thesis using deactivate_change.mutate_atomic assms by (simp add: op_defs)
next
  case (OpRename u a b)
  then show ?thesis using rename_change.mutate_atomic assms by (simp add: op_defs)
qed (use assms in auto)

lemma SetActiveScript_error:
  assumes "SetActiveScript L u n s m = (Some e, m')"
  shows "user_view m' v = user_view m v \<or>
    (\<exists>m1. StoreScript L u n s m = (None, m1) \<and> user_view m' v = user_view m1 v)"
proof -
  obtain r m1 where s: "StoreScript L u n s m = (r, m1)" by fastforce
  show ?thesis
  proof (cases r)
    case None
    then have "perform L (OpActivate u n) m1 = (Some e, m')" using assms s by (simp add: SetActiveScript_def)
    then show ?thesis using perform_atomic [of "OpActivate u n" u L m1 e m' v] s None by simp
  next
    case (Some e')
    then have "perform L (OpStore u n s False) m = (Some e', m')"
      using assms s by (simp add: SetActiveScript_def StoreScript_def)
    then show ?thesis using perform_atomic [of "OpStore u n s False" u L m e' m' v] by simp
  qed
qed

section \<open>Quota\<close>

definition within_quota :: "scripts \<Rightarrow> bool" where
  "within_quota us =
     (fm_len us \<le> maxScriptsPerUser \<and>
      (\<Sum>n \<in> fset (fmdom us). length (source_of us n)) \<le> maxScriptStoragePerUser)"

lemma quota_upd:
  assumes "checkScriptQuotaLocked m u name (length (ss_Source st)) = None" "within_quota (userScripts m u)"
  shows "within_quota (fmupd name st (userScripts m u))"
proof -
  let ?us = "userScripts m u"
  have "fmlookup ?us name = None \<Longrightarrow> fm_len ?us < maxScriptsPerUser"
    and t: "length (ss_Source st) + (\<Sum>n \<in> fset (fmdom ?us) - {name}. length (source_of ?us n))
      \<le> maxScriptStoragePerUser"
    using assms(1) by (auto simp: checkScriptQuotaLocked_def Let_def split: if_splits)
  then have "fm_len (fmupd name st ?us) \<le> maxScriptsPerUser"
    using assms(2)
    by (cases "fmlookup ?us name")
       (auto simp: fm_len_def within_quota_def fcard_finsert_if dest: fmdomI)
  moreover have "(\<Sum>n \<in> fset (fmdom (fmupd name st ?us)). length (source_of (fmupd name st ?us) n)) =
      length (ss_Source st) + (\<Sum>n \<in> fset (fmdom ?us) - {name}. length (source_of ?us n))"
    by (subst fmdom_fmupd, simp add: sum.insert_remove source_of_def) (rule sum.cong, auto)
  ultimately show ?thesis using t by (simp add: within_quota_def)
qed

lemma quota_drop:
  assumes "within_quota us"
  shows "within_quota (fmdrop name us)"
proof -
  have "(\<Sum>n \<in> fset (fmdom (fmdrop name us)). length (source_of (fmdrop name us) n)) =
      (\<Sum>n \<in> fset (fmdom us) - {name}. length (source_of us n))"
    by (rule sum.cong) (auto simp: source_of_def)
  also have "\<dots> \<le> (\<Sum>n \<in> fset (fmdom us). length (source_of us n))"
    by (rule sum_mono2) auto
  finally show ?thesis
    using assms fcard_mono [of "fmdom us |-| {|name|}" "fmdom us", OF fminus_fsubset]
    by (auto simp: within_quota_def fm_len_def)
qed

lemma quota_rename:
  assumes "within_quota us" "fmlookup us a = Some st" "fmlookup us b = None"
  shows "within_quota (fmdrop a (fmupd b (st\<lparr>ss_Name := b\<rparr>) us))"
proof -
  let ?us = "fmdrop a (fmupd b (st\<lparr>ss_Name := b\<rparr>) us)"
  have ab: "a \<noteq> b" "a |\<in>| fmdom us" "b |\<notin>| fmdom us" using assms by (auto intro: fmdomI)
  have d: "fmdom ?us = finsert b (fmdom us |-| {|a|})" using ab by auto
  have "fcard (fmdom ?us) = Suc (fcard (fmdom us |-| {|a|}))"
    unfolding d using ab by (intro fcard_finsert_disjoint) auto
  also have "\<dots> = fcard (fmdom us)" using ab by (intro fcard_Suc_fminus1)
  finally have c: "fm_len ?us = fm_len us" by (simp add: fm_len_def)
  have "(\<Sum>n \<in> fset (fmdom ?us). length (source_of ?us n)) =
      length (source_of ?us b) + (\<Sum>n \<in> fset (fmdom us) - {a}. length (source_of ?us n))"
    unfolding d using ab by (subst finsert.rep_eq, subst sum.insert) auto
  also have "(\<Sum>n \<in> fset (fmdom us) - {a}. length (source_of ?us n)) =
      (\<Sum>n \<in> fset (fmdom us) - {a}. length (source_of us n))"
    using ab by (intro sum.cong) (auto simp: source_of_def)
  also have "source_of ?us b = source_of us a" using assms ab by (simp add: source_of_def)
  also have "length (source_of us a) + (\<Sum>n \<in> fset (fmdom us) - {a}. length (source_of us n)) =
      (\<Sum>n \<in> fset (fmdom us). length (source_of us n))"
    using ab by (simp add: sum.remove [of "fset (fmdom us)" a])
  finally show ?thesis using assms(1) c by (simp add: within_quota_def)
qed


text \<open>Changes that also keep the quota of \<^verbatim>\<open>ManageSieve\<close>: all but a store that does
  not enforce it.\<close>

locale quota_change = user_change +
  assumes fn_quota: "within_quota (userScripts m u) \<Longrightarrow> fn m = (None, m') \<Longrightarrow>
    within_quota (userScripts m' u)"
begin

lemma mutate_quota:
  assumes "within_quota (userScripts m v)" "mutateUser L u fn m = (r, m')"
  shows "within_quota (userScripts m' v)"
proof (cases "v = u")
  case True
  from assms(2) show ?thesis
  proof (cases rule: mutate_cases)
    case (stored db m1 db')
    then show ?thesis using fn_quota [of m m1] assms(1) True by simp
  next
    case (failed db m1 db' e)
    then have "user_view m' v = user_view m v" by blast
    then show ?thesis using assms(1) by (simp add: user_view_def)
  qed (use assms(1) fn_quota True in auto)
next
  case False
  then have "user_view m' v = user_view m v" using mutate_other [OF assms(2)] by blast
  then show ?thesis using assms(1) by (simp add: user_view_def)
qed

end

interpretation store_quota: quota_change lib u "compileStoreFn lib u name source True"
  for lib u name source
proof unfold_locales
  fix m m' :: "'db manager"
  assume q: "within_quota (userScripts m u)" and f: "compileStoreFn lib u name source True m = (None, m')"
  then obtain sc where "checkScriptQuotaLocked m u name (length source) = None"
      "userScripts m' u =
        fmupd name \<lparr>ss_Name = name, ss_Source = source, ss_Script = sc\<rparr> (userScripts m u)"
    by (auto simp: compileStoreFn_def storeFn_def split: sum.splits option.splits)
  then show "within_quota (userScripts m' u)"
    using quota_upd [of m u name "\<lparr>ss_Name = name, ss_Source = source, ss_Script = sc\<rparr>"] q by simp
qed

interpretation activate_quota: quota_change lib u "activateFn u name" for lib u name
  by unfold_locales (auto simp: activateFn_def split: option.splits if_splits)

interpretation delete_inactive_quota: quota_change lib u "deleteInactiveFn u name" for lib u name
  by unfold_locales (auto simp: deleteInactiveFn_def quota_drop split: if_splits)

interpretation deactivate_quota: quota_change lib u "deactivateFn u" for lib u
  by unfold_locales (auto simp: deactivateFn_def)

interpretation rename_quota: quota_change lib u "renameFn u a b" for lib u a b
  by unfold_locales (auto simp: renameFn_def Let_def quota_rename split: option.splits if_splits)


lemma perform_quota:
  assumes "within_quota (userScripts m v)" "change_of op \<noteq> None" "\<And>u n s. op \<noteq> OpStore u n s False"
  shows "within_quota (userScripts (snd (perform L op m)) v)"
proof (cases op)
  case (OpStore u n s q)
  then show ?thesis
    using store_quota.mutate_quota [OF assms(1)] assms(3) by (cases q) (simp_all add: op_defs prod_eq_iff)
next
  case (OpActivate u n)
  then show ?thesis using activate_quota.mutate_quota [OF assms(1)] by (simp add: op_defs prod_eq_iff)
next
  case (OpDeleteInactive u n)
  then show ?thesis
    using delete_inactive_quota.mutate_quota [OF assms(1)] by (simp add: op_defs prod_eq_iff)
next
  case (OpDeactivate u)
  then show ?thesis using deactivate_quota.mutate_quota [OF assms(1)] by (simp add: op_defs prod_eq_iff)
next
  case (OpRename u a b)
  then show ?thesis using rename_quota.mutate_quota [OF assms(1)] by (simp add: op_defs prod_eq_iff)
qed (use assms in simp_all)

section \<open>The vacation cache\<close>

text \<open>The list holds the cached senders once each, oldest first, and never outgrows
  its limit.\<close>

definition vacation_ok :: "'db manager \<Rightarrow> bool" where
  "vacation_ok m =
     (4 \<le> m_vacationMaxSize m \<and> distinct (m_vacationAccessor m) \<and>
      set (m_vacationAccessor m) = fset (fmdom (m_vacationCache m)) \<and>
      length (m_vacationAccessor m) \<le> m_vacationMaxSize m)"

lemma evict_drop: "fst (evict n acc cache) = drop n acc"
proof (induction n arbitrary: acc cache)
  case (Suc n)
  then show ?case by (cases acc) simp_all
qed simp

lemma evict_lookup:
  "fmlookup (snd (evict n acc cache)) s = (if s \<in> set (take n acc) then None else fmlookup cache s)"
proof (induction n arbitrary: acc cache)
  case (Suc n)
  then show ?case by (cases acc) auto
qed simp

text \<open>What a touch makes of the list: the sender moves to the end, and a full list
  first loses its oldest quarter.\<close>

definition kept :: "'db manager \<Rightarrow> string \<Rightarrow> string list" where
  "kept m s =
     (if s \<in> set (m_vacationAccessor m) then remove1 s (m_vacationAccessor m)
      else if length (m_vacationAccessor m) \<ge> m_vacationMaxSize m
      then drop (m_vacationMaxSize m div 4) (m_vacationAccessor m)
      else m_vacationAccessor m)"

lemma vacation_ok_len: "vacation_ok m \<Longrightarrow> fm_len (m_vacationCache m) = length (m_vacationAccessor m)"
  by (metis distinct_card fcard.rep_eq fm_len_def vacation_ok_def)

lemma vacation_ok_mem:
  "vacation_ok m \<Longrightarrow> fmlookup (m_vacationCache m) s \<noteq> None \<longleftrightarrow> s \<in> set (m_vacationAccessor m)"
  by (auto simp: vacation_ok_def fmdom_notD intro: fmdomI)

lemma touch_accessor:
  assumes "vacation_ok m"
  shows "m_vacationAccessor (touchVacationLocked now s m) = kept m s @ [s]"
    and "m_vacationMaxSize (touchVacationLocked now s m) = m_vacationMaxSize m"
  using vacation_ok_len [OF assms] vacation_ok_mem [OF assms, of s]
  by (simp_all add: touchVacationLocked_def kept_def case_prod_beta evict_drop Let_def)

lemma touch_lookup:
  assumes "vacation_ok m"
  shows "fmlookup (m_vacationCache (touchVacationLocked now s m)) t =
    (if t = s then Some now else if t \<in> set (kept m s) then fmlookup (m_vacationCache m) t else None)"
proof -
  let ?a = "m_vacationAccessor m"
  have "t \<in> set (take k ?a) \<Longrightarrow> t \<notin> set (drop k ?a)" for k
    using assms by (metis append_take_drop_id disjoint_iff distinct_append vacation_ok_def)
  moreover have "t \<in> set (take k ?a) \<or> t \<in> set (drop k ?a) \<longleftrightarrow> fmlookup (m_vacationCache m) t \<noteq> None" for k
    unfolding vacation_ok_mem [OF assms] by (metis UnCI UnE append_take_drop_id set_append)
  moreover have "t \<in> set (remove1 s ?a) \<longleftrightarrow> t \<noteq> s \<and> fmlookup (m_vacationCache m) t \<noteq> None"
    unfolding vacation_ok_mem [OF assms] using assms by (auto simp: vacation_ok_def)
  ultimately show ?thesis
    unfolding touchVacationLocked_def case_prod_beta Let_def kept_def vacation_ok_len [OF assms]
      vacation_ok_mem [OF assms, symmetric]
    by (auto simp: evict_lookup vacation_ok_mem [OF assms, symmetric])
qed

lemma kept_sub: "set (kept m s) \<subseteq> set (m_vacationAccessor m)"
  by (simp add: kept_def set_remove1_subset set_drop_subset)

lemma touch_ok:
  assumes "vacation_ok m"
  shows "vacation_ok (touchVacationLocked now s m)"
proof -
  let ?m = "touchVacationLocked now s m"
  have d: "distinct (kept m s)" using assms by (simp add: kept_def vacation_ok_def)
  have n: "s \<notin> set (kept m s)"
    using assms set_drop_subset [of _ "m_vacationAccessor m"] by (auto simp: kept_def vacation_ok_def)
  have l: "length (kept m s) < m_vacationMaxSize m"
  proof -
    have "1 \<le> m_vacationMaxSize m div 4" "length (m_vacationAccessor m) \<le> m_vacationMaxSize m"
        "0 < m_vacationMaxSize m"
      using assms by (auto simp: vacation_ok_def)
    then show ?thesis by (auto simp: kept_def length_remove1)
  qed
  have "t \<in> set (m_vacationAccessor ?m) \<longleftrightarrow> fmlookup (m_vacationCache ?m) t \<noteq> None" for t
    using touch_lookup [OF assms, of now s t] touch_accessor(1) [OF assms, of now s] kept_sub [of m s]
      vacation_ok_mem [OF assms, of t]
    by (simp split: if_splits) blast
  then have "set (m_vacationAccessor ?m) = fset (fmdom (m_vacationCache ?m))"
    by (simp add: set_eq_iff fmlookup_dom_iff)
  then show ?thesis
    using d n l touch_accessor [OF assms] assms by (simp add: vacation_ok_def)
qed

interpretation vacation_cache:
  invariant_system "\<lambda>(now, s) m. touchVacationLocked now s m" vacation_ok
  by unfold_locales (auto intro: touch_ok)

lemma vacation_ok_New: "vacation_ok NewManager"
  by (simp add: vacation_ok_def NewManager_def)

text \<open>A sender stays cached until three quarters of the limit of other senders have
  been recorded after it.\<close>

definition recent :: "string \<Rightarrow> nat \<Rightarrow> string list \<Rightarrow> bool" where
  "recent s n acc = (\<exists>pre post. acc = pre @ s # post \<and> s \<notin> set pre \<and> length post \<le> n)"

lemma recent_mono: "recent s n acc \<Longrightarrow> n \<le> k \<Longrightarrow> recent s k acc"
  unfolding recent_def by (elim exE conjE, intro exI conjI) auto

lemma recent_remove1:
  assumes "recent s n acc" "x \<noteq> s"
  shows "recent s n (remove1 x acc)"
proof -
  obtain pre post where a: "acc = pre @ s # post" "s \<notin> set pre" "length post \<le> n"
    using assms(1) by (auto simp: recent_def)
  have "remove1 x acc = remove1 x pre @ s # (if x \<in> set pre then post else remove1 x post)"
    using a(1) assms(2) by (simp add: remove1_append remove1_idem)
  moreover have "s \<notin> set (remove1 x pre)" using a(2) by (rule notin_set_remove1)
  moreover have "length (remove1 x post) \<le> n" using a(3) by (auto simp: length_remove1)
  ultimately show ?thesis using a(3) unfolding recent_def by (metis (full_types))
qed

lemma recent_drop:
  assumes "recent s n acc" "k + n < length acc"
  shows "recent s n (drop k acc)"
proof -
  obtain pre post where a: "acc = pre @ s # post" "s \<notin> set pre" "length post \<le> n"
    using assms(1) by (auto simp: recent_def)
  then have "drop k acc = drop k pre @ s # post" using assms(2) by simp
  then show ?thesis using a by (auto simp: recent_def dest: in_set_dropD)
qed

lemma recent_snoc: "recent s n acc \<Longrightarrow> recent s (Suc n) (acc @ [x])"
  unfolding recent_def by (elim exE conjE, intro exI conjI) auto

lemma touch_recent:
  assumes "vacation_ok m" "recent s n (m_vacationAccessor m)"
    "n < m_vacationMaxSize m - m_vacationMaxSize m div 4" "x \<noteq> s"
  shows "recent s (Suc n) (m_vacationAccessor (touchVacationLocked now x m))"
    and "s \<in> set (kept m x)"
proof -
  have k: "recent s n (kept m x)"
    using assms recent_remove1 recent_drop [OF assms(2)] by (auto simp: kept_def)
  then show "recent s (Suc n) (m_vacationAccessor (touchVacationLocked now x m))"
    using touch_accessor(1) [OF assms(1)] recent_snoc by simp
  show "s \<in> set (kept m x)" using k by (auto simp: recent_def)
qed

lemma touch_recent_self:
  "vacation_ok m \<Longrightarrow> recent s 0 (m_vacationAccessor (touchVacationLocked now s m))"
proof -
  assume ok: "vacation_ok m"
  have "s \<notin> set (kept m s)" using ok by (auto simp: kept_def vacation_ok_def dest: in_set_dropD)
  then show ?thesis using touch_accessor(1) [OF ok] by (auto simp: recent_def)
qed

lemma touches_keep:
  assumes "vacation_ok m" "recent s n (m_vacationAccessor m)"
    "fmlookup (m_vacationCache m) s = Some t0" "t \<le> t0"
    "n + length (filter (\<lambda>(_, x). x \<noteq> s) ops) < m_vacationMaxSize m - m_vacationMaxSize m div 4"
    "\<forall>(t', x) \<in> set ops. x = s \<longrightarrow> t \<le> t'"
  shows "\<exists>t1. fmlookup (m_vacationCache (fold (\<lambda>(t, x). touchVacationLocked t x) ops m)) s = Some t1 \<and> t \<le> t1"
  using assms
proof (induction ops arbitrary: m n t0)
  case (Cons o' ops)
  obtain now x where o: "o' = (now, x)" by fastforce
  let ?m = "touchVacationLocked now x m"
  have ok: "vacation_ok ?m" using touch_ok [OF Cons.prems(1)] .
  have size: "m_vacationMaxSize ?m = m_vacationMaxSize m" using touch_accessor(2) [OF Cons.prems(1)] .
  show ?case
  proof (cases "x = s")
    case True
    have "recent s n (m_vacationAccessor ?m)"
      using recent_mono [OF touch_recent_self [OF Cons.prems(1)], of n s now] True by simp
    moreover have "fmlookup (m_vacationCache ?m) s = Some now"
      using touch_lookup [OF Cons.prems(1)] True by simp
    ultimately show ?thesis
      using Cons.IH [OF ok, of n now] Cons.prems(5,6) o True size by simp
  next
    case False
    have n: "n < m_vacationMaxSize m - m_vacationMaxSize m div 4" using Cons.prems(5) by simp
    have "fmlookup (m_vacationCache ?m) s = Some t0"
      using touch_lookup [OF Cons.prems(1), of now x s] touch_recent(2) [OF Cons.prems(1,2) n False]
        Cons.prems(3) False by simp
    then show ?thesis
      using Cons.IH [OF ok touch_recent(1) [OF Cons.prems(1,2) n False], of t0] Cons.prems(4-6) o False size
      by simp
  qed
qed auto

section \<open>Listing\<close>

lemma insert_string_set: "set (insert_string x xs) = insert x (set xs)"
  by (induction xs) auto

lemma sort_strings_set: "set (sort_strings xs) = set xs"
  by (induction xs) (simp_all add: sort_strings_def insert_string_set)

lemma insert_string_sorted:
  "sorted_wrt (\<lambda>a b. str_compare a b \<le> 0) xs \<Longrightarrow>
     sorted_wrt (\<lambda>a b. str_compare a b \<le> 0) (insert_string x xs)"
proof (induction xs)
  case (Cons y ys)
  have "str_compare y x \<le> 0" if "\<not> str_compare x y \<le> 0"
    using that str_compare_swap [of y x] by simp
  then show ?case
    using Cons by (auto simp: insert_string_set intro: str_compare_trans)
qed simp

lemma sort_strings_sorted: "sorted_wrt (\<lambda>a b. str_compare a b \<le> 0) (sort_strings xs)"
  by (induction xs) (simp_all add: sort_strings_def insert_string_sorted)

lemma insert_string_distinct: "x \<notin> set xs \<Longrightarrow> distinct xs \<Longrightarrow> distinct (insert_string x xs)"
  by (induction xs) (auto simp: insert_string_set)

lemma sort_strings_distinct: "distinct xs \<Longrightarrow> distinct (sort_strings xs)"
  by (induction xs) (simp_all add: sort_strings_def insert_string_distinct sort_strings_set [unfolded sort_strings_def])

section \<open>A concrete library for the witnesses\<close>

text \<open>The database is an association list; a record is written as its parts with every
  character marked, the number of scripts first.\<close>

definition enc_str :: "string \<Rightarrow> string" where
  "enc_str s = concat (map (\<lambda>c. [CHR ''x'', c]) s) @ [CHR ''.'']"

fun dec_str :: "string \<Rightarrow> string \<times> string" where
  "dec_str (x # c # r) =
     (if x = CHR ''x'' then (case dec_str r of (s, r') \<Rightarrow> (c # s, r')) else ([], c # r))"
| "dec_str _ = ([], [])"

lemma dec_enc: "dec_str (enc_str s @ r) = (s, r)"
proof (induction s)
  case Nil
  show ?case by (cases r) (simp_all add: enc_str_def)
qed (simp add: enc_str_def)

primrec dec_entries :: "nat \<Rightarrow> string \<Rightarrow> (string \<times> string) list" where
  "dec_entries 0 r = []"
| "dec_entries (Suc k) r =
     (case dec_str r of (n, r1) \<Rightarrow> case dec_str r1 of (s, r2) \<Rightarrow> (n, s) # dec_entries k r2)"

lemma dec_entries_enc:
  "dec_entries (length es) (concat (map (\<lambda>(n, s). enc_str n @ enc_str s) es)) = es"
  by (induction es) (auto simp: dec_enc split: prod.splits)

definition enc_record :: "scriptRecord \<Rightarrow> string" where
  "enc_record r = enc_str (map (\<lambda>_. CHR ''e'') (sr_Scripts r)) @ enc_str (sr_Active r) @
     concat (map (\<lambda>(n, s). enc_str n @ enc_str s) (sr_Scripts r))"

definition dec_record :: "string \<Rightarrow> scriptRecord" where
  "dec_record raw =
     (case dec_str raw of (k, r1) \<Rightarrow> case dec_str r1 of (a, r2) \<Rightarrow>
        \<lparr>sr_Version = scriptRecordVersion, sr_Active = a, sr_Scripts = dec_entries (length k) r2\<rparr>)"

lemma dec_enc_record: "sr_Version r = scriptRecordVersion \<Longrightarrow> dec_record (enc_record r) = r"
  using dec_entries_enc [of "sr_Scripts r"]
  by (cases r) (simp add: dec_record_def enc_record_def dec_enc)

definition mem_lib :: "(string \<times> string) list mlib" where
  "mem_lib =
     \<lparr>ml_go = plain_lib, json_Marshal = (\<lambda>r. Inr (enc_record r)),
      json_Unmarshal = (\<lambda>raw. Some (dec_record raw)),
      map_range = (\<lambda>us. sorted_list_of_set (fset (fmdom us))),
      bolt_create = (\<lambda>db. (None, db)), bolt_entries = AList.clearjunk,
      bolt_commit = (\<lambda>db. (None, db)), bolt_put = (\<lambda>k v db. (None, AList.update k v db)),
      bolt_delete = (\<lambda>k db. (None, AList.delete k db))\<rparr>"

lemma mem_lib_bolt: "bolt_laws mem_lib"
  by (auto simp: bolt_laws_def mem_lib_def bolt_get_def map_of_clearjunk distinct_clearjunk
      update_conv delete_conv)

lemma mem_lib_codec: "codec_laws mem_lib"
  by (auto simp: codec_laws_def mem_lib_def text_record_def dec_enc_record)

abbreviation m_attached :: "(string \<times> string) list manager" where
  "m_attached \<equiv> NewManager\<lparr>m_store := Some []\<rparr>"

lemma wf_m_attached: "wf_manager L (NewManager\<lparr>m_store := Some db\<rparr>)"
  using wf_NewManager by (simp add: wf_manager_def)

section \<open>Properties of the manager\<close>

text \<open>
  C19. Whatever operations a manager performs, failing ones and loading from a
  database included, every user's view stays well formed: each stored script is
  filed under its own name with the result of compiling its source, and the
  active script is one of the user's stored scripts.
\<close>

theorem manager_invariant: "wf_manager L (manager_run L ops NewManager)"
  by (rule manager_wf.run_inv) simp

text \<open>
  C20. A script operation that reports an error has changed nothing: every user
  sees the same scripts and the same active script as before, also when the
  database refused the change after it was made in memory. The one exception is
  \<^verbatim>\<open>SetActiveScript\<close>, two changes in a row: when it has stored the script and then
  fails to activate it, every user sees what storing alone has made.
\<close>

theorem change_atomic:
  assumes "change_of op = Some u \<or> (\<exists>n s. op = OpSetActive u n s)" "perform L op m = (Some e, m')"
  shows "user_view m' v = user_view m v \<or>
    (\<exists>n s m1. op = OpSetActive u n s \<and> perform L (OpStore u n s False) m = (None, m1) \<and>
       user_view m' v = user_view m1 v)"
  using assms(1)
proof
  assume "change_of op = Some u"
  then show ?thesis using perform_atomic assms(2) by blast
next
  assume "\<exists>n s. op = OpSetActive u n s"
  then obtain n s where op: "op = OpSetActive u n s" by blast
  then show ?thesis
    using SetActiveScript_error [of L u n s m e m' v] assms(2) by (simp add: StoreScript_def)
qed

theorem change_atomic_witness:
  "let L = mem_lib\<lparr>bolt_put := \<lambda>k v db. (Some ''disk full'', db)\<rparr>;
       m = NewManager\<lparr>m_store := Some []\<rparr>;
       r = perform L (OpStore ''u'' ''a'' ''keep;'' True) m
   in fst r = Some (ErrScriptStorage ''disk full'') \<and> user_view (snd r) ''u'' = user_view m ''u''"
proof -
  let ?L = "mem_lib\<lparr>bolt_put := \<lambda>k v db. (Some ''disk full'', db)\<rparr>"
  let ?m = "NewManager\<lparr>m_store := Some []\<rparr> :: (string \<times> string) list manager"
  let ?op = "OpStore ''u'' ''a'' ''keep;'' True"
  have e: "fst (perform ?L ?op ?m) = Some (ErrScriptStorage ''disk full'')" by code_simp
  then have "perform ?L ?op ?m = (Some (ErrScriptStorage ''disk full''), snd (perform ?L ?op ?m))"
    by (metis prod.collapse)
  from change_atomic [OF _ this, of "''u''" "''u''"] e show ?thesis by (simp add: Let_def)
qed



text \<open>
  C22. The \<^verbatim>\<open>ManageSieve\<close> quota: an operation of a session (a store that enforces
  the quota, activating, deactivating, deleting, renaming) keeps every user at
  no more than 100 scripts with together no more than 10 MiB of source.
\<close>

theorem quota_kept:
  assumes "within_quota (userScripts m v)" "change_of op \<noteq> None" "\<And>u n s. op \<noteq> OpStore u n s False"
  shows "within_quota (userScripts (snd (perform L op m)) v)"
  using perform_quota [OF assms] .

theorem quota_kept_witness:
  "within_quota (userScripts (snd (perform mem_lib (OpStore ''u'' ''a'' ''keep;'' True) NewManager)) ''u'')"
  by (rule quota_kept) (simp_all add: within_quota_def userScripts_def NewManager_def fm_len_def fcard.rep_eq)

text \<open>
  C23. No second vacation reply inside the window: after a reply to \<open>s\<close> recorded
  at \<open>t\<close>, and replies to fewer than three quarters of the cache limit (7500) of
  other senders, \<^verbatim>\<open>CheckAndRecordVacationFor\<close> refuses \<open>s\<close> until the interval
  has passed, and changes nothing.
\<close>

theorem vacation_window:
  assumes "vacation_ok m" "0 < interval" "now - t < interval"
    and "length (filter (\<lambda>(_, x). x \<noteq> s) replies) < m_vacationMaxSize m - m_vacationMaxSize m div 4"
    and "\<forall>(t', x) \<in> set replies. x = s \<longrightarrow> t \<le> t'"
  defines "m1 \<equiv> fold (\<lambda>(t', x). touchVacationLocked t' x) replies (touchVacationLocked t s m)"
  shows "CheckAndRecordVacationFor now now' s interval m1 = (False, m1)"
proof -
  let ?m = "touchVacationLocked t s m"
  obtain t1 where "fmlookup (m_vacationCache m1) s = Some t1" "t \<le> t1"
    using touches_keep [OF touch_ok [OF assms(1), of t s] touch_recent_self [OF assms(1), of s t],
        where t = t and ops = replies]
      touch_lookup [OF assms(1), of t s s] touch_accessor(2) [OF assms(1), of t s] assms(4,5) m1_def
    by auto
  then show ?thesis using assms(2,3) by (simp add: CheckAndRecordVacationFor_def)
qed

theorem vacation_window_witness:
  "fst (CheckAndRecordVacationFor 5 5 ''a'' 10
     (fold (\<lambda>(t', x). touchVacationLocked t' x) [(1, ''b''), (2, ''a'')]
       (touchVacationLocked 0 ''a'' (NewManager :: unit manager)))) = False"
proof -
  have "CheckAndRecordVacationFor 5 5 ''a'' 10
     (fold (\<lambda>(t', x). touchVacationLocked t' x) [(1, ''b''), (2, ''a'')]
       (touchVacationLocked 0 ''a'' (NewManager :: unit manager))) = (False,
      fold (\<lambda>(t', x). touchVacationLocked t' x) [(1, ''b''), (2, ''a'')]
       (touchVacationLocked 0 ''a'' NewManager))"
    by (rule vacation_window [OF vacation_ok_New, where t = 0]) (simp_all add: NewManager_def)
  then show ?thesis by simp
qed

text \<open>
  C24. The cache of replies is bounded and consistent: from a new manager, after
  any sequence of recorded replies, it holds at most 10000 senders, and the
  list that orders them for eviction names each cached sender exactly once.
\<close>

theorem vacation_cache_bounded:
  "let m = fold (\<lambda>(t, x). touchVacationLocked t x) replies (NewManager :: 'db manager) in
   fm_len (m_vacationCache m) \<le> 10000 \<and> distinct (m_vacationAccessor m) \<and>
   set (m_vacationAccessor m) = fset (fmdom (m_vacationCache m))"
proof -
  let ?m = "fold (\<lambda>(t, x). touchVacationLocked t x) replies (NewManager :: 'db manager)"
  have ok: "vacation_ok ?m" using vacation_cache.run_inv [OF vacation_ok_New, of replies] by simp
  have "m_vacationMaxSize (fold (\<lambda>(t, x). touchVacationLocked t x) rs (m :: 'db manager)) = m_vacationMaxSize m"
    for rs m
  proof (induction rs arbitrary: m)
    case (Cons r rs)
    then show ?case using touch_shape [of "fst r" "snd r" m] by (auto simp: case_prod_beta)
  qed simp
  then have "m_vacationMaxSize ?m = 10000" by (simp add: NewManager_def)
  then show ?thesis using ok vacation_ok_len [OF ok] by (simp add: vacation_ok_def)
qed

text \<open>
  C25. The window of a \<^verbatim>\<open>:days\<close> reply is at least one day and, unless the number of
  days is so negative that the product wraps around, at most 3650 days; between
  the two it is exactly that many days.
\<close>

theorem vacation_interval_bounds:
  "one_day \<le> GetVacationInterval days \<and>
   (-106751 \<le> days \<longrightarrow> GetVacationInterval days = max 1 (min 3650 days) * one_day)"
proof -
  have "vacationDays days = min 3650 days * one_day" if "-106751 \<le> days"
    using that
    by (auto simp: vacationDays_def MaxVacationDays_def Let_def in_int64_def int64_min_def int64_max_def)
  then show ?thesis by (auto simp: GetVacationInterval_def Let_def)
qed

theorem vacation_interval_bounds_witness:
  "GetVacationInterval 7 = 7 * one_day \<and> GetVacationInterval 0 = one_day"
  using vacation_interval_bounds [of 7] vacation_interval_bounds [of 0] by simp

text \<open>
  C26. \<^verbatim>\<open>ListScripts\<close> names each of the user's scripts exactly once, in byte order.
\<close>

theorem ListScripts_exact:
  assumes "codec_laws L"
  shows "distinct (ListScripts L m u) \<and> set (ListScripts L m u) = fset (fmdom (userScripts m u)) \<and>
    sorted_wrt (\<lambda>a b. str_compare a b \<le> 0) (ListScripts L m u)"
  using assms
  by (auto simp: ListScripts_def userScripts_def codec_laws_def sort_strings_set sort_strings_distinct
      sort_strings_sorted split: option.splits)

theorem ListScripts_exact_witness:
  "set (ListScripts mem_lib
     (snd (perform mem_lib (OpStore ''u'' ''a'' ''keep;'' True) m_attached)) ''u'') = {''a''}"
proof -
  have d: "fset (fmdom (userScripts
      (snd (perform mem_lib (OpStore ''u'' ''a'' ''keep;'' True) m_attached)) ''u'')) = {''a''}"
    by code_simp
  from ListScripts_exact [OF mem_lib_codec, of
      "snd (perform mem_lib (OpStore ''u'' ''a'' ''keep;'' True) m_attached)" "''u''"]
  show ?thesis unfolding d by blast
qed

end
