(* ===== verification/ManageSieve_Session.thy ===== *)
theory ManageSieve_Session
  imports ManageSieve Sieve_Manager_Facts
begin

text \<open>
  Sessions of the ManageSieve server as a whole. The locale \<open>session_relation\<close>
  lists the elementary steps of a session; what holds across each of them holds
  across every command and every session, and is proved here once. Its first
  interpretation shows that the session loop of \<^verbatim>\<open>handleConn\<close> ends.
\<close>

section \<open>Relations between the session before and after\<close>

text \<open>
  What a session can do, step by step. A relation that is reflexive, transitive
  and holds across each elementary step (writing, reading, reading the clock,
  counting failed logins, logging in, starting TLS, one change of the session
  user's scripts through the manager) holds across every command.
\<close>

locale session_step =
  fixes cf :: "'db config"
    and R :: "'db session \<Rightarrow> 'db session \<Rightarrow> bool"
  assumes R_refl: "R s s"
    and R_trans: "R s t \<Longrightarrow> R t v \<Longrightarrow> R s v"
    and R_write: "se_writes s \<noteq> Some 0 \<Longrightarrow>
      R s (s\<lparr>se_out := se_out s @ [msg], se_writes := map_option (\<lambda>n. n - 1) (se_writes s)\<rparr>)"
    and R_read: "length rest \<le> length (se_in s) \<Longrightarrow> R s (s\<lparr>se_in := rest\<rparr>)"
    and R_clock: "R s (s\<lparr>sv_reads := n\<rparr>)"
    and R_failures: "R s (s\<lparr>sv_authFailures := m\<rparr>)"
    and R_active: "R s (s\<lparr>sv_active := k\<rparr>)"
begin

lemma R_andThen:
  assumes "R s (snd (m s))" "\<And>x s'. m s = (Inr x, s') \<Longrightarrow> R s' (snd (f x s'))"
  shows "R s (snd (andThen m f s))"
proof (cases "m s")
  case (Pair r s')
  then show ?thesis using assms R_trans [of s s'] by (cases r) (auto simp: andThen_def)
qed

lemma R_failWith [simp]: "R s (snd (failWith e s))"
  by (simp add: failWith_def R_refl)

lemma R_returns [simp]: "R s (snd (returns x s))"
  by (simp add: returns_def R_refl)

lemma R_conn_Write [simp]: "R s (snd (conn_Write cf msg s))"
  using R_write [of s msg] by (simp add: conn_Write_def R_refl)

lemma R_sendResponse [simp]: "R s (snd (sendResponse cf msg s))"
  by (simp add: sendResponse_def)

end

lemma lineLoop_rest: "lineLoop err line s = (r, rest) \<Longrightarrow> length rest \<le> length s"
  by (induction err line s rule: lineLoop.induct) (auto split: if_splits)

lemma lineLoop_line: "lineLoop err line s = (Inr x, rest) \<Longrightarrow> length rest < length s"
  by (induction err line s rule: lineLoop.induct) (auto split: if_splits)

lemma ReadLine_rest:
  "\<exists>rest. length rest \<le> length (se_in s) \<and> snd (ReadLine cf s) = s\<lparr>se_in := rest\<rparr>"
proof (cases "lineLoop (cf_readError cf) [] (se_in s)")
  case (Pair r rest)
  have "snd (ReadLine cf s) = s\<lparr>se_in := rest\<rparr>"
    using Pair by (simp add: ReadLine_def Let_def split: sum.splits)
  then show ?thesis using lineLoop_rest [OF Pair] by blast
qed

lemma ReadLine_line:
  "ReadLine cf s = (Inr line, s') \<Longrightarrow> \<exists>rest. length rest < length (se_in s) \<and> s' = s\<lparr>se_in := rest\<rparr>"
  using lineLoop_line [of "cf_readError cf" "[]" "se_in s"]
  by (auto simp: ReadLine_def Let_def split: sum.splits prod.splits if_splits)

lemma counters_self: "\<exists>n m. s = s\<lparr>sv_reads := n, sv_authFailures := m\<rparr>"
proof
  show "\<exists>m. s = s\<lparr>sv_reads := sv_reads s, sv_authFailures := m\<rparr>"
    by (rule exI [of _ "sv_authFailures s"]) simp
qed

lemma authLocked_shape:
  "\<exists>n m. snd (authLocked cf key s) = s\<lparr>sv_reads := n, sv_authFailures := m\<rparr>"
  unfolding authLocked_def time_Now_def Let_def prod.case
  by (cases "cf_maxAuthFailures cf \<le> 0") (use counters_self in auto)

lemma recordAuthFailure_shape:
  "\<exists>n m. recordAuthFailure cf key s = s\<lparr>sv_reads := n, sv_authFailures := m\<rparr>"
  unfolding recordAuthFailure_def time_Now_def Let_def prod.case
  by (cases "cf_maxAuthFailures cf \<le> 0") (use counters_self in auto)

context session_step
begin

lemma R_ReadLine [simp]: "R s (snd (ReadLine cf s))"
  using ReadLine_rest [of s cf] R_read by auto

lemma R_readOctets [simp]: "R s (snd (readOctets cf n s))"
  by (simp add: readOctets_def R_read)

lemma R_counters: "R s (s\<lparr>sv_reads := n, sv_authFailures := m\<rparr>)"
  using R_trans [OF R_clock [of s n] R_failures [of _ m]] by simp

lemma R_authLocked [simp]: "R s (snd (authLocked cf key s))"
  using authLocked_shape [of cf key s] R_counters by auto

lemma R_recordAuthFailure [simp]: "R s (recordAuthFailure cf key s)"
  using recordAuthFailure_shape [of cf key s] R_counters by auto

lemma R_readScriptArg [simp]: "R s (snd (readScriptArg cf arg s))"
proof -
  have "R s (snd (case ReadLine cf s of
      (Inl err, s') \<Rightarrow> (Inl (g err), s')
    | (Inr rest, s') \<Rightarrow> if trim_space rest \<noteq> [] then (Inl e', s') else (Inr y, s')))"
    for s and g e' and y :: string
    using R_ReadLine [of s] by (cases "ReadLine cf s"; cases "fst (ReadLine cf s)") auto
  then show ?thesis
    unfolding readScriptArg_def Let_def
    by (simp split: option.splits if_splits) (auto intro!: R_andThen)
qed

lemma R_sendCapabilities [simp]: "R s (snd (sendCapabilities cf ok s))"
  by (simp add: sendCapabilities_def Let_def)

lemma R_sendNames [simp]: "R s (snd (sendNames cf active names s))"
  by (induction names arbitrary: s) (simp_all add: R_andThen)

lemma R_saslStep [simp]: "R s (snd (saslStep cf challenge s))"
  unfolding saslStep_def
proof (rule R_andThen)
  fix x s'
  show "R s' (snd (case ReadLine cf s' of
      (Inl err, s') \<Rightarrow> (Inl (MsErr (''authentication failed: '' @ error_text err)), s')
    | (Inr line, s') \<Rightarrow>
        (let resp = unquoteManageSieveArg line in
         if resp = ''*'' then (Inl (MsNo [] ''authentication cancelled'' False), s')
         else (Inr resp, s'))))"
    using R_ReadLine [of s'] by (cases "ReadLine cf s'"; cases "fst (ReadLine cf s')") (auto simp: Let_def)
qed simp

lemma R_checkedAuth [simp]: "R s (snd (checkedAuth cf user pw s))"
proof (cases "authLocked cf (userLockKey user) s")
  case (Pair locked s')
  have s': "R s s'" using R_authLocked [of s "userLockKey user"] Pair by simp
  have "R s (clearAuthFailures k s')" "R s (recordAuthFailure cf k s')" for k
    using R_trans [OF s'] R_failures by (simp_all add: clearAuthFailures_def)
  then show ?thesis using Pair s' by (simp add: checkedAuth_def Let_def)
qed

lemma R_result:
  "(\<And>err. R s (snd (f err s))) \<Longrightarrow>
     R s (snd ((case r of Some err \<Rightarrow> f err | None \<Rightarrow> sendResponse cf msg) s))"
  by (cases r) simp_all

end

interpretation quiet: session_step cf "\<lambda>s s'. se_user s' = se_user s \<and> se_tls s' = se_tls s" for cf
  by unfold_locales auto

lemma quietD: "se_user (snd r) = se_user s \<and> se_tls (snd r) = se_tls s \<Longrightarrow> r = (x, s') \<Longrightarrow>
    se_user s' = se_user s \<and> se_tls s' = se_tls s"
  by auto

lemmas readScriptArg_quiet = quietD [OF quiet.R_readScriptArg]
lemmas saslStep_quiet = quietD [OF quiet.R_saslStep]
lemmas checkedAuth_quiet = quietD [OF quiet.R_checkedAuth]
lemmas sendResponse_quiet = quietD [OF quiet.R_sendResponse]

lemma authNeedsTLS_quiet:
  "se_user s' = se_user s \<and> se_tls s' = se_tls s \<Longrightarrow> authNeedsTLS cf s' = authNeedsTLS cf s"
  by (simp add: authNeedsTLS_def)

locale session_relation = session_step +
  assumes R_login: "se_user s = [] \<Longrightarrow> \<not> authNeedsTLS cf s \<Longrightarrow> cf_authHandler cf = Some h \<Longrightarrow>
      h user pw \<Longrightarrow> R s (s\<lparr>se_user := sessionUser cf user\<rparr>)"
    and R_tls: "se_user s = [] \<Longrightarrow> \<not> se_tls s \<Longrightarrow> tlsAvailable cf \<Longrightarrow>
      R s (s\<lparr>se_in := d, se_tls := True\<rparr>)"
    and R_change: "se_user s \<noteq> [] \<Longrightarrow> change_of op = Some (se_user s) \<Longrightarrow>
      (\<And>u n src. op \<noteq> OpStore u n src False) \<Longrightarrow>
      R s (s\<lparr>sv_manager := snd (perform (cf_lib cf) op (sv_manager s))\<rparr>)"
begin

lemma R_onManager:
  assumes "se_user s \<noteq> []" "change_of op = Some (se_user s)" "\<And>u n src. op \<noteq> OpStore u n src False"
    "f = perform (cf_lib cf) op"
  shows "R s (snd (onManager f s))"
  using R_change [OF assms(1-3)] assms(4) by (simp add: onManager_def case_prod_beta)

lemma R_manager_then:
  assumes "se_user s \<noteq> []" "change_of op = Some (se_user s)" "\<And>u n src. op \<noteq> OpStore u n src False"
    "f = perform (cf_lib cf) op" "\<And>err s. R s (snd (g err s))"
  shows "R s (snd (andThen (onManager f)
    (\<lambda>r. case r of Some err \<Rightarrow> g err | None \<Rightarrow> sendResponse cf msg) s))"
  using R_onManager [OF assms(1-4)] by (rule R_andThen) (simp add: R_result assms(5))

lemma R_putContent:
  assumes "se_user s \<noteq> []"
  shows "R s (snd (putContent cf (se_user s) name content s))"
proof -
  have "R s (snd (andThen (onManager (storeScript (cf_lib cf) (se_user s) name content True))
      (\<lambda>r. case r of Some err \<Rightarrow> g err | None \<Rightarrow> sendResponse cf msg) s))"
    if "\<And>err s. R s (snd (g err s))" for g msg
    by (rule R_manager_then [of _ "OpStore (se_user s) name content True"])
       (use assms that in \<open>auto simp: fun_eq_iff\<close>)
  then show ?thesis by (simp add: putContent_def split: option.split)
qed

lemma R_cmdPutScript [simp]: "R s (snd (cmdPutScript cf args s))"
proof -
  have "R s (snd (andThen (readScriptArg cf a) (\<lambda>c. putContent cf (se_user s) n c) s))"
    if "se_user s \<noteq> []" for a n
  proof (rule R_andThen)
    fix c s'
    assume "readScriptArg cf a s = (Inr c, s')"
    then have "se_user s' = se_user s" using readScriptArg_quiet by blast
    then show "R s' (snd (putContent cf (se_user s) n c s'))" using R_putContent [of s'] that by simp
  qed simp
  then show ?thesis by (simp add: cmdPutScript_def)
qed

lemma R_cmdSetActive [simp]: "R s (snd (cmdSetActive cf args s))"
proof -
  have "R s (snd (andThen (onManager (deactivateScript (cf_lib cf) (se_user s)))
      (\<lambda>r. case r of Some err \<Rightarrow> g err | None \<Rightarrow> sendResponse cf msg) s))"
    if "se_user s \<noteq> []" "\<And>err s. R s (snd (g err s))" for g msg
    by (rule R_manager_then [of _ "OpDeactivate (se_user s)"]) (use that in \<open>auto simp: fun_eq_iff\<close>)
  moreover have "R s (snd (andThen (onManager (SetActiveScriptByName (cf_lib cf) (se_user s) n))
      (\<lambda>r. case r of Some err \<Rightarrow> g err | None \<Rightarrow> sendResponse cf msg) s))"
    if "se_user s \<noteq> []" "\<And>err s. R s (snd (g err s))" for g msg n
    by (rule R_manager_then [of _ "OpActivate (se_user s) n"]) (use that in \<open>auto simp: fun_eq_iff\<close>)
  ultimately show ?thesis by (simp add: cmdSetActive_def Let_def)
qed

lemma R_cmdDeleteScript [simp]: "R s (snd (cmdDeleteScript cf args s))"
proof -
  have "R s (snd (andThen (onManager (deleteInactiveScript (cf_lib cf) (se_user s) n))
      (\<lambda>r. case r of Some err \<Rightarrow> g err | None \<Rightarrow> sendResponse cf msg) s))"
    if "se_user s \<noteq> []" "\<And>err s. R s (snd (g err s))" for g msg n
    by (rule R_manager_then [of _ "OpDeleteInactive (se_user s) n"]) (use that in \<open>auto simp: fun_eq_iff\<close>)
  then show ?thesis by (simp add: cmdDeleteScript_def Let_def)
qed

lemma R_cmdRenameScript [simp]: "R s (snd (cmdRenameScript cf args s))"
proof -
  have "R s (snd (andThen (onManager (renameScript (cf_lib cf) (se_user s) a b))
      (\<lambda>r. case r of Some err \<Rightarrow> g err | None \<Rightarrow> sendResponse cf msg) s))"
    if "se_user s \<noteq> []" "\<And>err s. R s (snd (g err s))" for g msg a b
    by (rule R_manager_then [of _ "OpRename (se_user s) a b"]) (use that in \<open>auto simp: fun_eq_iff\<close>)
  then show ?thesis by (simp add: cmdRenameScript_def Let_def split: option.split)
qed

lemma R_cmdHaveSpace [simp]: "R s (snd (cmdHaveSpace cf args s))"
  by (simp add: cmdHaveSpace_def Let_def split: option.split)

lemma R_cmdListScripts [simp]: "R s (snd (cmdListScripts cf s))"
  by (simp add: cmdListScripts_def R_andThen)

lemma R_cmdGetScript [simp]: "R s (snd (cmdGetScript cf args s))"
  by (simp add: cmdGetScript_def Let_def R_andThen split: option.split)

lemma R_cmdCheckScript [simp]: "R s (snd (cmdCheckScript cf args s))"
  by (auto simp: cmdCheckScript_def intro!: R_andThen split: option.split)

lemma R_cmdNoop [simp]: "R s (snd (cmdNoop cf s))"
  by (simp add: cmdNoop_def)

lemma R_logIn:
  assumes "se_user s = []" "\<not> authNeedsTLS cf s"
  shows "R s (snd (logIn cf user pw s))"
  unfolding logIn_def
proof (rule R_andThen)
  fix ok s'
  assume c: "checkedAuth cf user pw s = (Inr ok, s')"
  then have q: "se_user s' = se_user s \<and> se_tls s' = se_tls s" using checkedAuth_quiet by blast
  have "\<exists>h. cf_authHandler cf = Some h \<and> h user pw" if ok
    using c that by (auto simp: checkedAuth_def Let_def split: prod.splits if_splits option.splits)
  then have "R s' (s'\<lparr>se_user := sessionUser cf user\<rparr>)" if ok
    using R_login [of s'] that q assms authNeedsTLS_quiet [OF q] by auto
  then show "R s' (snd ((if ok
      then \<lambda>s. sendResponse cf ''OK \"Authentication successful\"'' (s\<lparr>se_user := sessionUser cf user\<rparr>)
      else failWith (MsErr ''authentication failed'')) s'))"
    using R_trans [OF _ R_sendResponse] by simp
qed simp

lemma R_logIn_quiet:
  assumes "se_user s = []" "\<not> authNeedsTLS cf s" "se_user s' = se_user s \<and> se_tls s' = se_tls s"
  shows "R s' (snd (logIn cf user pw s'))"
  using R_logIn [of s'] assms authNeedsTLS_quiet [OF assms(3)] by simp

lemma R_authPlain:
  assumes "se_user s = []" "\<not> authNeedsTLS cf s"
  shows "R s (snd (authPlain cf args s))"
  unfolding authPlain_def
proof (rule R_andThen)
  fix data s'
  assume "(if 2 \<le> length args then returns (unquoteManageSieveArg (args ! 1)) else saslStep cf []) s =
    (Inr data, s')"
  then have "se_user s' = se_user s \<and> se_tls s' = se_tls s"
    by (auto simp: returns_def dest: saslStep_quiet split: if_splits)
  from R_logIn_quiet [OF assms this]
  show "R s' (snd ((case decodeBase64 data of
       None \<Rightarrow> failWith (MsErr ''invalid authentication data'')
     | Some decoded \<Rightarrow>
         (let parts = splitNul [] decoded in
          if length parts < 3 then failWith (MsErr ''invalid PLAIN authentication format'')
          else if parts ! 0 \<noteq> [] \<and> \<not> equal_fold (parts ! 0) (parts ! 1)
          then failWith (MsErr ''authorization identity not permitted'')
          else logIn cf (parts ! 1) (parts ! 2))) s'))"
    by (simp add: Let_def split: option.split)
qed simp

lemma R_authLogin:
  assumes "se_user s = []" "\<not> authNeedsTLS cf s"
  shows "R s (snd (authLogin cf s))"
  unfolding authLogin_def
proof (rule R_andThen)
  fix u64 s1
  assume s1: "saslStep cf ''Username:'' s = (Inr u64, s1)"
  have "R s1 (snd (andThen (saslStep cf ''Password:'') (\<lambda>password64.
         case decodeBase64 password64 of
           None \<Rightarrow> failWith (MsErr ''invalid password'')
         | Some password \<Rightarrow> logIn cf username password) s1))" for username
  proof (rule R_andThen)
    fix p64 s2
    assume "saslStep cf ''Password:'' s1 = (Inr p64, s2)"
    then have "se_user s2 = se_user s \<and> se_tls s2 = se_tls s"
      using saslStep_quiet [OF s1] saslStep_quiet by metis
    then show "R s2 (snd ((case decodeBase64 p64 of
           None \<Rightarrow> failWith (MsErr ''invalid password'')
         | Some password \<Rightarrow> logIn cf username password) s2))"
      using R_logIn_quiet [OF assms] by (simp split: option.split)
  qed simp
  then show "R s1 (snd ((case decodeBase64 u64 of
       None \<Rightarrow> failWith (MsErr ''invalid username'')
     | Some username \<Rightarrow>
         andThen (saslStep cf ''Password:'') (\<lambda>password64.
         case decodeBase64 password64 of
           None \<Rightarrow> failWith (MsErr ''invalid password'')
         | Some password \<Rightarrow> logIn cf username password)) s1))"
    by (simp split: option.split)
qed simp

lemma R_cmdAuthenticate [simp]: "R s (snd (cmdAuthenticate cf args s))"
  by (simp add: cmdAuthenticate_def Let_def R_authPlain R_authLogin)

lemma R_dispatchAuthenticate [simp]: "R s (snd (dispatchAuthenticate cf args s))"
proof (cases "lockedOut cf s")
  case (Pair locked s1)
  have s1: "R s s1" using Pair R_authLocked [of s "se_ip s"] R_refl [of s]
    by (auto simp: lockedOut_def simp del: R_authLocked split: if_splits)
  show ?thesis
  proof (cases "cmdAuthenticate cf args s1")
    case (Pair r s2)
    then have s2: "R s s2" using R_trans [OF s1] R_cmdAuthenticate [of s1 args] by simp
    then have "R s (recordAuthFailure cf k s2)" for k using R_trans R_recordAuthFailure by blast
    then show ?thesis using s1 s2 Pair \<open>lockedOut cf s = (locked, s1)\<close>
      by (cases r) (simp_all add: dispatchAuthenticate_def)
  qed
qed

lemma R_cmdStartTLS [simp]: "R s (snd (cmdStartTLS cf args s))"
proof -
  have "R s (snd (andThen (sendResponse cf msg) (\<lambda>_ s.
        case cf_handshake cf (se_in s) of
          None \<Rightarrow> failWith e (s\<lparr>se_in := []\<rparr>)
        | Some decrypted \<Rightarrow> sendCapabilities cf ok (s\<lparr>se_in := decrypted, se_tls := True\<rparr>)) s))"
    if "tlsAvailable cf" "\<not> se_tls s" "se_user s = []" for msg e ok
  proof (rule R_andThen)
    fix x s'
    assume "sendResponse cf msg s = (Inr x, s')"
    then have q: "se_user s' = se_user s \<and> se_tls s' = se_tls s" using sendResponse_quiet by blast
    then have "R s' (s'\<lparr>se_in := d, se_tls := True\<rparr>)" for d using R_tls [of s'] that by simp
    moreover have "R s' (s'\<lparr>se_in := []\<rparr>)" by (rule R_read) simp
    ultimately show "R s' (snd (case cf_handshake cf (se_in s') of
          None \<Rightarrow> failWith e (s'\<lparr>se_in := []\<rparr>)
        | Some decrypted \<Rightarrow> sendCapabilities cf ok (s'\<lparr>se_in := decrypted, se_tls := True\<rparr>)))"
      using R_trans [OF _ R_sendCapabilities] by (auto simp: failWith_def split: option.split)
  qed simp
  then show ?thesis by (simp add: cmdStartTLS_def)
qed

lemma R_dispatchCommand [simp]: "R s (snd (dispatchCommand cf cmd args s))"
  unfolding dispatchCommand_def by (simp add: R_andThen)

lemma R_processCommandSession [simp]: "R s (snd (processCommandSession cf line s))"
  by (simp add: processCommandSession_def split: list.split)

lemma R_sendNo [simp]: "R s (snd (sendNo cf err s))"
proof -
  have "R s (snd (case r of (Inl _, s') \<Rightarrow> (False, s') | (Inr _, s') \<Rightarrow> (b, s')))"
    if "R s (snd r)" for r :: "(mserr + unit) \<times> 'a session" and b
    using that by (cases r; cases "fst r") auto
  then show ?thesis unfolding sendNo_def Let_def using R_sendResponse by blast
qed

lemma R_handleOne [simp]: "R s (snd (handleOne cf s))"
proof (cases "ReadLine cf s")
  case (Pair r s1)
  then have s1: "R s s1" using R_ReadLine [of s] by simp
  show ?thesis
  proof (cases r)
    case (Inr line)
    obtain r2 s2 where p: "processCommandSession cf line s1 = (r2, s2)" by fastforce
    then have s2: "R s s2" using R_trans [OF s1] R_processCommandSession [of s1 line] by simp
    then have "R s (snd (sendNo cf e s2))" for e using R_trans R_sendNo by blast
    then show ?thesis using Pair Inr p s2 by (cases r2) (simp_all add: handleOne_def)
  qed (use Pair s1 in \<open>simp add: handleOne_def\<close>)
qed

end

section \<open>The session loop\<close>

text \<open>A round reads a line, so it consumes input, unless it starts TLS, which happens
  at most once.\<close>

interpretation consumes: session_relation cf
  "\<lambda>s s'. \<not> se_tls s \<and> se_tls s' \<or> se_tls s' = se_tls s \<and> length (se_in s') \<le> length (se_in s)" for cf
  by unfold_locales auto

lemma handleOne_consumes:
  assumes "handleOne cf s = (True, s')"
  shows "\<not> se_tls s \<and> se_tls s' \<or> se_tls s' = se_tls s \<and> length (se_in s') < length (se_in s)"
proof -
  obtain line s1 where l: "ReadLine cf s = (Inr line, s1)"
    using assms by (auto simp: handleOne_def split: prod.splits sum.splits)
  then obtain rest where r: "length rest < length (se_in s)" "s1 = s\<lparr>se_in := rest\<rparr>"
    using ReadLine_line by blast
  obtain r2 s2 where p: "processCommandSession cf line s1 = (r2, s2)" by fastforce
  have "s' = s2 \<or> (\<exists>e. s' = snd (sendNo cf e s2))"
    using assms l p by (cases r2) (auto simp: handleOne_def prod_eq_iff split: if_splits)
  then have "\<not> se_tls s2 \<and> se_tls s' \<or> se_tls s' = se_tls s2 \<and> length (se_in s') \<le> length (se_in s2)"
    using consumes.R_sendNo [of s2 cf] by (metis order_refl)
  moreover have "\<not> se_tls s1 \<and> se_tls s2 \<or> se_tls s2 = se_tls s1 \<and> length (se_in s2) \<le> length (se_in s1)"
    using consumes.R_processCommandSession [of s1 cf line] p by simp
  ultimately show ?thesis using r by auto
qed

function handleLoop :: "'db config \<Rightarrow> 'db session \<Rightarrow> 'db session" where
  "handleLoop cf s =
     (case handleOne cf s of (goOn, s') \<Rightarrow> if goOn then handleLoop cf s' else s')"
  by pat_completeness auto
termination
proof (relation "measures [\<lambda>(cf, s). if se_tls s then 0 else 1, \<lambda>(cf, s). length (se_in s)]", goal_cases)
  case (2 cf s goOn s')
  then have "handleOne cf s = (True, s')" by simp
  from handleOne_consumes [OF this] show ?case by auto
qed simp

declare handleLoop.simps [simp del]

definition handleConn :: "'db config \<Rightarrow> 'db session \<Rightarrow> 'db session" where
  "handleConn cf s =
     (let s' = (case sendCapabilities cf ''OK \"ManageSieve server ready\"'' s of
                  (Inl _, s') \<Rightarrow> s'
                | (Inr _, s') \<Rightarrow> handleLoop cf s')
      in s'\<lparr>sv_active := sv_active s' - 1\<rparr>)"

lemma handleLoop_induct:
  assumes "\<And>s. (\<And>s'. handleOne cf s = (True, s') \<Longrightarrow> P s') \<Longrightarrow> P s"
  shows "P s"
  using assms
proof (induction cf s rule: handleLoop.induct)
  case (1 cf s)
  show ?case
  proof (rule "1.prems")
    fix s'
    assume "handleOne cf s = (True, s')"
    then show "P s'" using "1.IH" [of True s'] "1.prems" by simp
  qed
qed

context session_relation
begin

lemma R_handleLoop: "R s (handleLoop cf s)"
proof (induction s rule: handleLoop_induct [of cf])
  case (1 s)
  obtain goOn s' where h: "handleOne cf s = (goOn, s')" by fastforce
  then have "R s s'" using R_handleOne [of s] by simp
  then show ?case using 1 h R_trans [of s s'] by (subst handleLoop.simps) auto
qed

lemma R_handleConn: "R s (handleConn cf s)"
proof (cases "sendCapabilities cf ''OK \"ManageSieve server ready\"'' s")
  case (Pair r s1)
  then have s1: "R s s1" using R_sendCapabilities [of s] by (metis snd_conv)
  have "R s (case r of Inl _ \<Rightarrow> s1 | Inr _ \<Rightarrow> handleLoop cf s1)"
    using s1 R_trans [OF s1 R_handleLoop] by (cases r) simp_all
  then show ?thesis
    using Pair R_trans [OF _ R_active] by (cases r) (simp_all add: handleConn_def Let_def)
qed

end

end
