(* ===== verification/ManageSieve_Facts.thy ===== *)
theory ManageSieve_Facts
  imports ManageSieve_Session Utf8_Facts
begin

text \<open>
  What the ManageSieve server guarantees: quoted strings and command lines are
  read as they were written; a connection acts on the manager only through
  operations on the scripts of the user it authenticated as; every command is
  answered; wrong passwords lock an account out; a script put is the script got.
\<close>

section \<open>Quoted strings\<close>

abbreviation esc :: "string \<Rightarrow> string" where
  "esc v \<equiv> concat (map (\<lambda>c. if c = BSLASH \<or> c = DQUOTE then [BSLASH, c] else [c]) v)"

lemma unescape_char:
  "unescape ((if c = BSLASH \<or> c = DQUOTE then [BSLASH, c] else [c]) @ r) = c # unescape r"
  by (cases r) simp_all

lemma unescape_esc: "unescape (esc v) = v"
  by (induction v) (simp_all only: list.map concat.simps unescape_char unescape.simps)

lemma unquote_quote_string: "unquoteManageSieveArg (quoteManageSieveString v) = v"
  using unescape_esc [of v] by (simp add: unquoteManageSieveArg_def quoteManageSieveString_def)

lemma closingQuote_esc: "closingQuote (esc v @ [DQUOTE])"
  by (induction v) auto

lemma special_bytes:
  "byte c = 92 \<longleftrightarrow> c = BSLASH" "byte c = 34 \<longleftrightarrow> c = DQUOTE" "byte c = 32 \<longleftrightarrow> c = SP"
proof -
  have "byte c = byte d \<longleftrightarrow> c = d" for d by (rule of_char_eq_iff)
  from this [of BSLASH] this [of DQUOTE] this [of SP]
  show "byte c = 92 \<longleftrightarrow> c = BSLASH" "byte c = 34 \<longleftrightarrow> c = DQUOTE" "byte c = 32 \<longleftrightarrow> c = SP" by simp_all
qed

lemma char_of_special: "char_of (92 :: nat) = BSLASH" "char_of (34 :: nat) = DQUOTE" "char_of (32 :: nat) = SP"
  using char_of_char [of BSLASH] char_of_char [of DQUOTE] char_of_char [of SP]
  by (simp_all add: special_bytes [symmetric])

lemma decode_rune_multi:
  assumes "1 < rune_size s"
  shows "128 \<le> fst (decode_rune s)"
proof (cases s)
  case (Cons c t)
  let ?b = "byte c"
  define cs where "cs = take (utf8_need ?b - 1) t"
  have ok: "\<not> ?b < 194" "\<not> 244 < ?b" "length cs = utf8_need ?b - 1"
      "fst (utf8_accept ?b) \<le> byte (hd cs)"
    using assms Cons unfolding cs_def by (auto simp: rune_size_Cons Let_def split: if_splits)
  have d: "fst (decode_rune s) = fold (\<lambda>d r. r * 64 + (byte d - 128)) cs
      (?b - (if utf8_need ?b = 2 then 192 else if utf8_need ?b = 3 then 224 else 240))"
    using assms Cons unfolding cs_def by (auto simp: decode_rune_def rune_size_def Let_def split: if_splits)
  consider "?b < 224" | "224 \<le> ?b" "?b < 240" | "240 \<le> ?b" by linarith
  then show ?thesis
  proof cases
    case 1
    then obtain x where "cs = [x]" using ok(3) by (auto simp: utf8_need_def length_Suc_conv)
    then show ?thesis using d 1 ok by (simp add: utf8_need_def)
  next
    case 2
    then obtain x y where cs: "cs = [x, y]" using ok(3) by (auto simp: utf8_need_def length_Suc_conv numeral_eq_Suc)
    have "2 \<le> (?b - 224) * 64 + (byte x - 128)"
      using ok(4) cs 2 by (cases "?b = 224") (auto simp: utf8_accept_def split: if_splits)
    then show ?thesis using d 2 cs by (simp add: utf8_need_def)
  next
    case 3
    then obtain x y z where cs: "cs = [x, y, z]"
      using ok(3) by (auto simp: utf8_need_def length_Suc_conv numeral_eq_Suc)
    have "1 \<le> (?b - 240) * 64 + (byte x - 128)"
      using ok(4) cs 3 by (cases "?b = 240") (auto simp: utf8_accept_def split: if_splits)
    then show ?thesis using d 3 cs by (simp add: utf8_need_def)
  qed
qed (use assms in \<open>simp add: rune_size_def decode_rune_def\<close>)

text \<open>How the loop of \<^verbatim>\<open>parseManageSieveLine\<close> passes one complete character.\<close>

lemma rune_ok_step:
  assumes "rune_ok l"
  shows "l @ t \<noteq> []" "drop (rune_size (l @ t)) (l @ t) = t" "rune_bytes (l @ t) = l"
    "fst (decode_rune (l @ t)) < 128 \<Longrightarrow> l = [char_of (fst (decode_rune (l @ t)))]"
proof -
  have s: "rune_size (l @ t) = length l" using rune_ok_append [OF assms] .
  have ne: "l \<noteq> []" using assms by (simp add: rune_ok_def)
  then show "l @ t \<noteq> []" "drop (rune_size (l @ t)) (l @ t) = t" using s by simp_all
  show "rune_bytes (l @ t) = l"
    using s ne assms by (auto simp: rune_bytes_def rune_ok_def)
  assume small: "fst (decode_rune (l @ t)) < 128"
  then have "rune_size (l @ t) = 1"
    using decode_rune_multi [of "l @ t"] s ne by (cases "length l") auto
  then obtain c where l: "l = [c]" using s by (auto simp: length_Suc_conv)
  then have "byte c < 128" using assms by (simp add: rune_ok_def)
  then show "l = [char_of (fst (decode_rune (l @ t)))]" using l by simp
qed

lemma lineParts_char:
  assumes "rune_ok l" "l \<noteq> [BSLASH]" "l \<noteq> [DQUOTE]" "l \<noteq> [SP]"
  shows "lineParts q False cur (l @ t) = lineParts q False (cur @ l) t"
proof -
  have "fst (decode_rune (l @ t)) \<notin> {byte BSLASH, byte DQUOTE, byte SP}"
    using rune_ok_step(4) [OF assms(1), of t] assms(2-4) by (auto simp: char_of_special)
  then show ?thesis
    using rune_ok_step(2,3) [OF assms(1), of t] assms(1)
    by (subst lineParts.simps) (simp add: Let_def rune_ok_def)
qed

lemma lineParts_byte:
  assumes "byte c < 128"
  shows "lineParts q e cur (c # t) =
     (if e then lineParts q False (cur @ [c]) t
      else if c = BSLASH then lineParts q q (cur @ [c]) t
      else if c = DQUOTE then lineParts (\<not> q) False (cur @ [c]) t
      else if c = SP then
        (if q then lineParts q False (cur @ [c]) t
         else if cur \<noteq> [] then cur # lineParts q False [] t
         else lineParts q False [] t)
      else lineParts q False (cur @ [c]) t)"
proof -
  have "rune_size (c # t) = 1" using assms by (simp add: rune_size_def)
  then show ?thesis
    using assms by (subst lineParts.simps) (simp add: Let_def rune_bytes_def special_bytes)
qed

lemma lineParts_quoted:
  "list_all rune_ok ls \<Longrightarrow>
     lineParts True False cur (esc (concat ls) @ DQUOTE # t) =
       lineParts False False (cur @ esc (concat ls) @ [DQUOTE]) t"
proof (induction ls arbitrary: cur)
  case Nil
  show ?case by (simp add: lineParts_byte)
next
  case (Cons l ls)
  have IH: "lineParts True False c (esc (concat ls) @ DQUOTE # t) =
      lineParts False False (c @ esc (concat ls) @ [DQUOTE]) t" for c
    using Cons by simp
  consider "l = [BSLASH]" | "l = [DQUOTE]" | "l = [SP]" | "l \<noteq> [BSLASH]" "l \<noteq> [DQUOTE]" "l \<noteq> [SP]" by blast
  then show ?case
  proof cases
    case 4
    have "c \<noteq> BSLASH \<and> c \<noteq> DQUOTE" if "c \<in> set l" for c
    proof (cases "length l = 1")
      case True
      then show ?thesis using that 4 by (auto simp: length_Suc_conv)
    next
      case False
      have "128 \<le> byte c"
        using rune_ok_bytes [of l] rune_size_multi(2) [of "hd l" "tl l"] Cons.prems that False
        by (cases l) (auto simp: rune_ok_def list_all_iff utf8_cont_def)
      then show ?thesis by auto
    qed
    then have "esc l = l" by (induction l) auto
    then show ?thesis
      using lineParts_char [of l True cur "esc (concat ls) @ DQUOTE # t"] 4 Cons.prems IH [of "cur @ l"]
      by simp
  qed (simp_all add: lineParts_byte IH)
qed

lemma lineParts_arg:
  assumes "valid_utf8 v"
  shows "lineParts False False [] (quoteManageSieveString v @ SP # t) =
      quoteManageSieveString v # lineParts False False [] t"
    and "lineParts False False [] (quoteManageSieveString v) = [quoteManageSieveString v]"
proof -
  have ok: "list_all rune_ok (chars v)" using assms by (simp add: valid_utf8_chars)
  have q: "lineParts False False [] (quoteManageSieveString v @ t) =
      lineParts False False (quoteManageSieveString v) t" for t
    using lineParts_quoted [OF ok, of "[DQUOTE]" t]
    by (simp add: quoteManageSieveString_def lineParts_byte)
  show "lineParts False False [] (quoteManageSieveString v @ SP # t) =
      quoteManageSieveString v # lineParts False False [] t"
    using q [of "SP # t"] by (simp add: lineParts_byte quoteManageSieveString_def)
  show "lineParts False False [] (quoteManageSieveString v) = [quoteManageSieveString v]"
    using q [of "[]"] by (simp add: lineParts.simps [of _ _ _ "[]"] quoteManageSieveString_def)
qed

definition plain_word :: "string \<Rightarrow> bool" where
  "plain_word w =
     (w \<noteq> [] \<and> list_all (\<lambda>c. byte c < 128 \<and> c \<noteq> BSLASH \<and> c \<noteq> DQUOTE \<and> c \<noteq> SP) w)"

lemma lineParts_word:
  "list_all (\<lambda>c. byte c < 128 \<and> c \<noteq> BSLASH \<and> c \<noteq> DQUOTE \<and> c \<noteq> SP) w \<Longrightarrow>
     lineParts False False cur (w @ t) = lineParts False False (cur @ w) t"
  by (induction w arbitrary: cur) (simp_all add: lineParts_byte)

lemma lineParts_args:
  "list_all valid_utf8 args \<Longrightarrow>
     lineParts False False [] (str_join (map quoteManageSieveString args) [SP]) =
       map quoteManageSieveString args"
proof (induction args)
  case (Cons a args)
  then show ?case by (cases args) (simp_all add: lineParts_arg)
qed (simp add: lineParts.simps)

lemma parse_printed_line:
  assumes "plain_word cmd" "list_all valid_utf8 args"
  shows "parseManageSieveLine (str_join (cmd # map quoteManageSieveString args) [SP]) =
    cmd # map quoteManageSieveString args"
proof -
  have w: "list_all (\<lambda>c. byte c < 128 \<and> c \<noteq> BSLASH \<and> c \<noteq> DQUOTE \<and> c \<noteq> SP) cmd" "cmd \<noteq> []"
    using assms(1) by (simp_all add: plain_word_def)
  show ?thesis
  proof (cases args)
    case Nil
    then show ?thesis
      using lineParts_word [OF w(1), of "[]" "[]"] w(2)
      by (simp add: parseManageSieveLine_def lineParts.simps [of _ _ _ "[]"])
  next
    case (Cons a as)
    then show ?thesis
      using lineParts_word [OF w(1), of "[]"] lineParts_args [OF assms(2)] w(2)
      by (simp add: parseManageSieveLine_def lineParts_byte)
  qed
qed

section \<open>Whose scripts a session changes\<close>

definition own_scripts :: "'db session \<Rightarrow> 'db session \<Rightarrow> bool" where
  "own_scripts s s' =
     ((se_user s \<noteq> [] \<longrightarrow> se_user s' = se_user s) \<and>
      (\<forall>v. user_view (sv_manager s') v \<noteq> user_view (sv_manager s) v \<longrightarrow>
         v \<noteq> [] \<and> se_user s' = v))"

interpretation own: session_relation cf own_scripts for cf
proof unfold_locales
  fix s t v :: "'a session"
  assume "own_scripts s t" "own_scripts t v"
  then show "own_scripts s v" unfolding own_scripts_def by metis
next
  fix s :: "'a session" and op :: "'a mop"
  assume "se_user s \<noteq> []" "change_of op = Some (se_user s)"
  then show "own_scripts s (s\<lparr>sv_manager := snd (perform (cf_lib cf) op (sv_manager s))\<rparr>)"
    unfolding own_scripts_def using perform_other [of op "se_user s"] by simp metis
qed (simp_all add: own_scripts_def)

section \<open>How a session gets its user\<close>

definition granted :: "'db config \<Rightarrow> string \<Rightarrow> bool" where
  "granted cf user =
     (\<exists>h login pw. cf_authHandler cf = Some h \<and> h login pw \<and> user = sessionUser cf login)"

definition logged_in :: "'db config \<Rightarrow> 'db session \<Rightarrow> 'db session \<Rightarrow> bool" where
  "logged_in cf s s' =
     ((se_tls s \<longrightarrow> se_tls s') \<and>
      (se_user s \<noteq> [] \<longrightarrow> se_user s' = se_user s) \<and>
      (se_user s = [] \<and> se_user s' \<noteq> [] \<longrightarrow>
         granted cf (se_user s') \<and> (tlsAvailable cf \<longrightarrow> se_tls s')))"

interpretation login: session_relation cf "logged_in cf" for cf
proof unfold_locales
  fix s t v :: "'a session"
  assume "logged_in cf s t" "logged_in cf t v"
  then show "logged_in cf s v" unfolding logged_in_def by metis
next
  fix s :: "'a session" and h user pw
  assume "cf_authHandler cf = Some h" "h user pw" "se_user s = []" "\<not> authNeedsTLS cf s"
  then show "logged_in cf s (s\<lparr>se_user := sessionUser cf user\<rparr>)"
    unfolding logged_in_def granted_def authNeedsTLS_def by auto
qed (auto simp: logged_in_def)

section \<open>What all sessions keep\<close>

definition keeps_good :: "'db config \<Rightarrow> 'db session \<Rightarrow> 'db session \<Rightarrow> bool" where
  "keeps_good cf s s' =
     ((wf_manager (cf_lib cf) (sv_manager s) \<longrightarrow> wf_manager (cf_lib cf) (sv_manager s')) \<and>
      (\<forall>v. within_quota (userScripts (sv_manager s) v) \<longrightarrow> within_quota (userScripts (sv_manager s') v)))"

interpretation good: session_relation cf "keeps_good cf" for cf
proof unfold_locales
  fix s :: "'a session" and op :: "'a mop"
  assume "se_user s \<noteq> []" "change_of op = Some (se_user s)" "\<And>u n src. op \<noteq> OpStore u n src False"
  then show "keeps_good cf s (s\<lparr>sv_manager := snd (perform (cf_lib cf) op (sv_manager s))\<rparr>)"
    by (auto simp: keeps_good_def manager_wf.step_inv intro!: perform_quota)
qed (auto simp: keeps_good_def)

section \<open>Every command is answered\<close>

text \<open>When writes succeed, a handler that returns has written a response.\<close>

definition writes_more :: "'db session \<Rightarrow> 'db session \<Rightarrow> bool" where
  "writes_more s s' = (se_writes s = None \<longrightarrow> se_writes s' = None \<and> prefix (se_out s) (se_out s'))"

interpretation out: session_relation cf writes_more for cf
proof unfold_locales
  fix s t v :: "'a session"
  assume "writes_more s t" "writes_more t v"
  then show "writes_more s v" unfolding writes_more_def using prefix_order.trans by metis
qed (simp_all add: writes_more_def)

text \<open>A handler ends with success, with an error that \<^verbatim>\<open>handleConn\<close> answers, or with
  \<^verbatim>\<open>io.EOF\<close>, which it does not answer.\<close>

definition unanswered :: "mserr + 'a \<Rightarrow> bool" where
  "unanswered r = (case r of Inl e \<Rightarrow> e = MsEOF | Inr _ \<Rightarrow> True)"

lemma unanswered_simps [simp]: "unanswered (Inl e) = (e = MsEOF)" "unanswered (Inr x) = True"
  by (simp_all add: unanswered_def)

definition replies :: "('db, 'a) handler \<Rightarrow> bool" where
  "replies m =
     (\<forall>s r s'. se_writes s = None \<and> m s = (r, s') \<and> unanswered r \<longrightarrow> strict_prefix (se_out s) (se_out s'))"

definition goes_on :: "('db, 'a) handler \<Rightarrow> bool" where
  "goes_on m = (\<forall>s. writes_more s (snd (m s)) \<and> fst (m s) \<noteq> Inl MsEOF)"

lemma replies_fail [simp]: "e \<noteq> MsEOF \<Longrightarrow> replies (failWith e)"
  by (simp add: replies_def failWith_def)

lemma replies_send [simp]: "replies (sendResponse cf msg)" "replies (conn_Write cf msg)"
  by (auto simp: replies_def sendResponse_def conn_Write_def strict_prefix_def)

lemma repliesD:
  "replies m \<Longrightarrow> se_writes s = None \<Longrightarrow> m s = (r, s') \<Longrightarrow> unanswered r \<Longrightarrow>
     strict_prefix (se_out s) (se_out s')"
  by (auto simp: replies_def)

lemma replies_andThen:
  assumes "goes_on m" "\<And>x. replies (f x)"
  shows "replies (andThen m f)"
  unfolding replies_def
proof (intro allI impI, elim conjE)
  fix s r s'
  assume a: "se_writes s = None" "andThen m f s = (r, s')" "unanswered r"
  obtain x s1 where x: "m s = (Inr x, s1)" "f x s1 = (r, s')"
    using a assms(1) [unfolded goes_on_def, rule_format, of s]
    by (cases "m s"; cases "fst (m s)") (auto simp: andThen_def)
  then have "se_writes s1 = None" "prefix (se_out s) (se_out s1)"
    using assms(1) [unfolded goes_on_def, rule_format, of s] a(1) by (simp_all add: writes_more_def)
  then show "strict_prefix (se_out s) (se_out s')"
    using repliesD [OF assms(2) _ x(2) a(3)] prefix_order.le_less_trans by blast
qed

lemma replies_case: "(\<And>x. o' = Some x \<Longrightarrow> replies (f x)) \<Longrightarrow> replies g \<Longrightarrow>
    replies (case o' of Some x \<Rightarrow> f x | None \<Rightarrow> g)"
  by (cases o') simp_all

lemma replies_app:
  "(\<And>s s' r. se_writes s = None \<Longrightarrow> m s = (r, s') \<Longrightarrow> unanswered r \<Longrightarrow>
      strict_prefix (se_out s) (se_out s')) \<Longrightarrow> replies m"
  by (auto simp: replies_def)

lemma goes_on_andThen:
  assumes "goes_on m" "\<And>x. goes_on (f x)"
  shows "goes_on (andThen m f)"
  unfolding goes_on_def
proof (intro allI)
  fix s
  obtain r s1 where r: "m s = (r, s1)" by fastforce
  then have 1: "writes_more s s1" "r \<noteq> Inl MsEOF"
    using assms(1) [unfolded goes_on_def, rule_format, of s] by simp_all
  show "writes_more s (snd (andThen m f s)) \<and> fst (andThen m f s) \<noteq> Inl MsEOF"
  proof (cases r)
    case (Inr x)
    then show ?thesis
      using r out.R_trans [OF 1(1)] assms(2) [of x, unfolded goes_on_def, rule_format, of s1]
      by (simp add: andThen_def)
  qed (use r 1 in \<open>simp add: andThen_def\<close>)
qed

lemma goes_on_conn_Write [simp]: "goes_on (conn_Write cf msg)"
  using out.R_conn_Write by (simp add: goes_on_def) (simp add: conn_Write_def)

lemma goes_on_send [simp]: "goes_on (sendResponse cf msg)"
  unfolding sendResponse_def by simp

lemma goes_on_names [simp]: "goes_on (sendNames cf active names)"
proof (induction names)
  case Nil
  show ?case by (simp add: goes_on_def returns_def out.R_refl)
qed (simp add: goes_on_andThen)

lemma goes_on_checkedAuth [simp]: "goes_on (checkedAuth cf user pw)"
  using out.R_checkedAuth
  by (simp add: goes_on_def) (simp add: checkedAuth_def Let_def split: prod.split)

lemma goes_on_readScriptArg [simp]: "goes_on (readScriptArg cf arg)"
proof -
  have "fst (readScriptArg cf arg s) \<noteq> Inl MsEOF" for s :: "'a session"
    by (auto simp: readScriptArg_def Let_def failWith_def returns_def andThen_def readOctets_def
        split: option.split prod.split sum.split)
  then show ?thesis using out.R_readScriptArg by (simp add: goes_on_def)
qed

lemma goes_on_saslStep [simp]: "goes_on (saslStep cf challenge)"
proof -
  have "fst (saslStep cf challenge s) \<noteq> Inl MsEOF" for s :: "'a session"
    by (auto simp: saslStep_def Let_def andThen_def sendResponse_def conn_Write_def
        split: prod.split sum.split)
  then show ?thesis using out.R_saslStep by (simp add: goes_on_def)
qed

lemma goes_on_returns [simp]: "goes_on (returns x)"
  by (simp add: goes_on_def returns_def out.R_refl)

lemma goes_on_onManager [simp]: "goes_on (onManager f)"
  by (simp add: goes_on_def onManager_def writes_more_def case_prod_beta)

lemma validScriptName_err: "validScriptName name = Some e \<Longrightarrow> e \<noteq> MsEOF"
  by (auto simp: validScriptName_def split: if_splits)

lemma replies_manager:
  "(\<And>err. replies (g err)) \<Longrightarrow>
     replies (andThen (onManager f) (\<lambda>r. case r of Some err \<Rightarrow> g err | None \<Rightarrow> sendResponse cf msg))"
  by (intro replies_andThen replies_case) simp_all

lemma replies_putContent: "replies (putContent cf user name content)"
  unfolding putContent_def by (intro replies_case replies_manager) (auto dest: validScriptName_err)

lemma replies_logIn: "replies (logIn cf user pw)"
  unfolding logIn_def
proof (intro replies_andThen)
  fix ok
  show "replies (if ok
      then \<lambda>s. sendResponse cf ''OK \"Authentication successful\"'' (s\<lparr>se_user := sessionUser cf user\<rparr>)
      else failWith (MsErr ''authentication failed''))"
    by (auto simp: replies_def sendResponse_def conn_Write_def strict_prefix_def failWith_def)
qed simp

lemma replies_sendCapabilities: "replies (sendCapabilities cf ok)"
  by (rule replies_app) (auto simp: sendCapabilities_def Let_def dest: repliesD [OF replies_send(1)])

lemma repliesI:
  assumes "\<And>s. \<exists>h. replies h \<and> m s = h s"
  shows "replies m"
  unfolding replies_def
proof (intro allI impI, elim conjE)
  fix s r s'
  assume a: "se_writes s = None" "m s = (r, s')" "unanswered r"
  obtain h where "replies h" "m s = h s" using assms by blast
  then show "strict_prefix (se_out s) (se_out s')" using repliesD a by metis
qed

lemma by_failing: "e \<noteq> MsEOF \<Longrightarrow> \<exists>h. replies h \<and> failWith e s = h s"
  using replies_fail by blast

lemma by_manager:
  "(\<And>err. replies (g err)) \<Longrightarrow> \<exists>h. replies h \<and>
     andThen (onManager f) (\<lambda>r. case r of Some err \<Rightarrow> g err | None \<Rightarrow> sendResponse cf msg) s = h s"
  using replies_manager by blast

lemma by_sending: "\<exists>h. replies h \<and> sendResponse cf msg s = h s"
  using replies_send by blast

lemma by_andThen:
  "goes_on m \<Longrightarrow> (\<And>x. replies (f x)) \<Longrightarrow> \<exists>h. replies h \<and> andThen m f s = h s"
  using replies_andThen by blast

lemmas reply_intros = by_failing by_manager by_sending by_andThen

lemma replies_cmdPutScript: "replies (cmdPutScript cf args)"
  by (rule repliesI)
     (auto simp: cmdPutScript_def unauthenticatedScriptCommand_def intro!: by_failing by_andThen replies_putContent)

lemma replies_cmdSetActive: "replies (cmdSetActive cf args)"
  by (rule repliesI) (auto simp: cmdSetActive_def Let_def intro!: by_failing by_manager)

lemma replies_cmdDeleteScript: "replies (cmdDeleteScript cf args)"
  by (rule repliesI) (auto simp: cmdDeleteScript_def Let_def intro!: by_failing by_manager)

lemma replies_cmdRenameScript: "replies (cmdRenameScript cf args)"
  by (rule repliesI)
     (auto simp: cmdRenameScript_def Let_def intro!: by_failing by_manager
       dest: validScriptName_err split: option.split)

lemma replies_cmdHaveSpace: "replies (cmdHaveSpace cf args)"
  by (rule repliesI)
     (auto simp: cmdHaveSpace_def Let_def intro!: by_failing by_sending
       dest: validScriptName_err split: option.split)

lemma replies_cmdListScripts: "replies (cmdListScripts cf)"
  by (rule repliesI) (auto simp: cmdListScripts_def intro!: by_failing by_andThen)

lemma replies_cmdGetScript: "replies (cmdGetScript cf args)"
  by (rule repliesI)
     (auto simp: cmdGetScript_def Let_def intro!: by_failing by_andThen replies_andThen split: option.split)

lemma replies_cmdCheckScript: "replies (cmdCheckScript cf args)"
  by (rule repliesI)
     (auto simp: cmdCheckScript_def unauthenticatedScriptCommand_def intro!: by_failing by_andThen replies_case)

lemma replies_cmdStartTLS: "replies (cmdStartTLS cf args)"
proof (rule repliesI)
  fix s :: "'a session"
  have "replies (\<lambda>s. case cf_handshake cf (se_in s) of
      None \<Rightarrow> failWith e (s\<lparr>se_in := []\<rparr>)
    | Some d \<Rightarrow> sendCapabilities cf ok (s\<lparr>se_in := d, se_tls := True\<rparr>))"
    if "e \<noteq> MsEOF" for e ok
    using that by - (rule replies_app,
       auto simp: failWith_def dest!: repliesD [OF replies_sendCapabilities, rotated] split: option.splits)
  then show "\<exists>h. replies h \<and> cmdStartTLS cf args s = h s"
    by (auto simp: cmdStartTLS_def intro!: by_failing by_andThen)
qed

lemma replies_authPlain: "replies (authPlain cf args)"
  unfolding authPlain_def
  by (rule replies_andThen) (auto simp: replies_logIn Let_def split: option.split)

lemma replies_authLogin: "replies (authLogin cf)"
  unfolding authLogin_def
  by (intro replies_andThen goes_on_saslStep replies_fail replies_logIn | simp split: option.split
      | intro conjI impI allI)+

lemma replies_cmdAuthenticate: "replies (cmdAuthenticate cf args)"
proof (rule repliesI)
  fix s :: "'a session"
  show "\<exists>h. replies h \<and> cmdAuthenticate cf args s = h s"
    using replies_authPlain [of cf args] replies_authLogin [of cf] by_failing
    by (simp add: cmdAuthenticate_def Let_def) blast
qed

lemma lockedOut_shape: "\<exists>n m. snd (lockedOut cf s) = s\<lparr>sv_reads := n, sv_authFailures := m\<rparr>"
  using authLocked_shape [of cf "se_ip s" s] counters_self [of s] by (auto simp: lockedOut_def)

lemma replies_dispatchAuthenticate: "replies (dispatchAuthenticate cf args)"
proof (rule replies_app)
  fix s s' :: "'a session" and r
  assume w: "se_writes s = None" and d: "dispatchAuthenticate cf args s = (r, s')" and u: "unanswered r"
  obtain locked s1 where l: "lockedOut cf s = (locked, s1)" by fastforce
  then have s1: "se_writes s1 = None" "se_out s1 = se_out s"
    using lockedOut_shape [of cf s] w by auto
  obtain r2 where "cmdAuthenticate cf args s1 = (r2, s')" "unanswered r2"
    using d l u
    by (auto simp: dispatchAuthenticate_def is_no_def split: if_splits prod.splits sum.splits mserr.splits)
  then show "strict_prefix (se_out s) (se_out s')"
    using repliesD [OF replies_cmdAuthenticate s1(1)] s1(2) by metis
qed

lemma replies_logout: "replies (andThen (sendResponse cf msg) (\<lambda>_. failWith e))"
proof (rule replies_app)
  fix s s' :: "'a session" and r
  assume w: "se_writes s = None" and d: "andThen (sendResponse cf msg) (\<lambda>_. failWith e) s = (r, s')"
  then have "sendResponse cf msg s = (Inr (), s')"
    by (simp add: andThen_def sendResponse_def conn_Write_def failWith_def)
  then show "strict_prefix (se_out s) (se_out s')" using repliesD [OF replies_send(1) w] by fastforce
qed

lemma replies_dispatchCommand: "replies (dispatchCommand cf cmd args)"
  unfolding dispatchCommand_def cmdNoop_def
  by (simp add: replies_dispatchAuthenticate replies_sendCapabilities replies_cmdStartTLS
      replies_cmdHaveSpace replies_cmdRenameScript replies_cmdPutScript replies_cmdListScripts
      replies_cmdSetActive replies_cmdDeleteScript replies_cmdGetScript replies_cmdCheckScript
      replies_logout)

lemma replies_processCommandSession: "replies (processCommandSession cf line)"
  by (simp add: processCommandSession_def replies_dispatchCommand split: list.split)

lemma sendNo_answers:
  "se_writes s = None \<Longrightarrow> strict_prefix (se_out s) (se_out (snd (sendNo cf err s)))"
  by (simp add: sendNo_def sendResponse_def conn_Write_def Let_def strict_prefix_def)

lemma handleOne_answers:
  assumes "se_writes s = None" "ReadLine cf s = (Inr line, s1)"
  shows "strict_prefix (se_out s) (se_out (snd (handleOne cf s)))"
proof -
  have s1: "se_writes s1 = None" "se_out s1 = se_out s"
    using ReadLine_line [OF assms(2)] assms(1) by auto
  obtain r s2 where p: "processCommandSession cf line s1 = (r, s2)" by fastforce
  show ?thesis
  proof (cases "unanswered r")
    case True
    then have "snd (handleOne cf s) = s2"
      using assms(2) p by (auto simp: handleOne_def unanswered_def split: sum.splits)
    then show ?thesis
      using repliesD [OF replies_processCommandSession s1(1) p True] s1(2) by simp
  next
    case False
    then obtain e where "r = Inl e" "e \<noteq> MsEOF" by (cases r) auto
    then have "snd (handleOne cf s) = snd (sendNo cf e s2)"
      using assms(2) p by (simp add: handleOne_def)
    moreover have "se_writes s2 = None" "prefix (se_out s) (se_out s2)"
      using out.R_processCommandSession [of s1 cf line] s1 p by (simp_all add: writes_more_def)
    ultimately show ?thesis using sendNo_answers prefix_order.le_less_trans by metis
  qed
qed

section \<open>Lockout\<close>

text \<open>
  What sessions do to the table of failures, in any order: a login attempt for an
  account (\<^verbatim>\<open>checkedAuth\<close>), and the check and the record of the client's address
  around it (\<^verbatim>\<open>dispatchCommand\<close>). Each of them holds the mutex of the table.
\<close>

datatype auth_event = Attempt string string | IPCheck string | IPFailure string

fun auth_step :: "'db config \<Rightarrow> auth_event \<Rightarrow> 'db session \<Rightarrow> 'db session" where
  "auth_step cf (Attempt user pw) s = snd (checkedAuth cf user pw s)"
| "auth_step cf (IPCheck ip) s = snd (authLocked cf ip s)"
| "auth_step cf (IPFailure ip) s = recordAuthFailure cf ip s"

abbreviation auth_run :: "'db config \<Rightarrow> auth_event list \<Rightarrow> 'db session \<Rightarrow> 'db session" where
  "auth_run cf \<equiv> fold (auth_step cf)"

text \<open>A wrong password for the account with the key, tried and not just refused.\<close>

definition wrong :: "'db config \<Rightarrow> string \<Rightarrow> auth_event \<Rightarrow> 'db session \<Rightarrow> bool" where
  "wrong cf key ev s =
     (case ev of
        Attempt user pw \<Rightarrow> userLockKey user = key \<and> fst (checkedAuth cf user pw s) = Inr False
      | _ \<Rightarrow> False)"

fun wrongs :: "'db config \<Rightarrow> string \<Rightarrow> auth_event list \<Rightarrow> 'db session \<Rightarrow> nat" where
  "wrongs cf key [] s = 0"
| "wrongs cf key (ev # evs) s = (if wrong cf key ev s then 1 else 0) + wrongs cf key evs (auth_step cf ev s)"

text \<open>The readings of the clock from \<open>lo\<close> on and before \<open>hi\<close> are within one lockout
  period.\<close>

definition within_lockout :: "'db config \<Rightarrow> nat \<Rightarrow> nat \<Rightarrow> bool" where
  "within_lockout cf lo hi =
     (\<forall>i j. lo \<le> i \<and> i < hi \<and> lo \<le> j \<and> j < hi \<longrightarrow> cf_now cf i - cf_lockoutDuration cf < cf_now cf j)"

definition recorded :: "'db config \<Rightarrow> nat \<Rightarrow> string \<Rightarrow> 'db session \<Rightarrow> int list" where
  \<comment> \<open>the failures recorded for a key since the reading \<open>lo\<close>\<close>
  "recorded cf lo key s = filter (\<lambda>t. \<exists>i. lo \<le> i \<and> i < sv_reads s \<and> t = cf_now cf i) (failuresOf s key)"

lemma length_filter_mono: "(\<And>x. P x \<Longrightarrow> Q x) \<Longrightarrow> length (filter P xs) \<le> length (filter Q xs)"
  by (induction xs) (auto intro: le_SucI)

lemma recorded_reads:
  assumes "failuresOf s' key = failuresOf s key" "sv_reads s \<le> sv_reads s'"
  shows "length (recorded cf lo key s) \<le> length (recorded cf lo key s')"
  unfolding recorded_def assms(1)
  by (rule length_filter_mono) (use assms(2) in \<open>auto intro: less_le_trans\<close>)

lemma authLocked_eq:
  "0 < cf_maxAuthFailures cf \<Longrightarrow> authLocked cf key s =
     (let fs = filter (\<lambda>t. t > cf_now cf (sv_reads s) - cf_lockoutDuration cf) (failuresOf s key) in
      (cf_maxAuthFailures cf \<le> int (length fs),
       s\<lparr>sv_reads := sv_reads s + 1,
         sv_authFailures := if fs = [] then fmdrop key (sv_authFailures s)
                            else fmupd key fs (sv_authFailures s)\<rparr>))"
  by (simp add: authLocked_def time_Now_def failuresOf_def Let_def)

lemma authLocked_recent:
  assumes "0 < cf_maxAuthFailures cf" "within_lockout cf lo (Suc (sv_reads s))" "lo \<le> sv_reads s"
  shows "length (recorded cf lo key s) \<le> length (recorded cf lo key (snd (authLocked cf k s)))"
    and "cf_maxAuthFailures cf \<le> int (length (recorded cf lo key s)) \<Longrightarrow> fst (authLocked cf key s)"
proof -
  let ?now = "\<lambda>t. t > cf_now cf (sv_reads s) - cf_lockoutDuration cf"
  let ?old = "\<lambda>t. \<exists>i. lo \<le> i \<and> i < sv_reads s \<and> t = cf_now cf i"
  have new: "?old t \<Longrightarrow> ?now t" for t using assms(2,3) by (auto simp: within_lockout_def)
  have kept: "failuresOf (snd (authLocked cf k s)) key =
      (if key = k then filter ?now (failuresOf s key) else failuresOf s key)"
    using assms(1) by (auto simp: authLocked_eq Let_def failuresOf_def)
  have reads: "sv_reads (snd (authLocked cf k s)) = Suc (sv_reads s)"
    using assms(1) by (simp add: authLocked_eq Let_def)
  have "length (filter ?old (failuresOf s key)) \<le>
      length (filter (\<lambda>t. \<exists>i. lo \<le> i \<and> i < Suc (sv_reads s) \<and> t = cf_now cf i) (filter ?now (failuresOf s key)))"
    unfolding filter_filter by (rule length_filter_mono) (use new less_SucI in blast)
  moreover have "length (filter ?old (failuresOf s key)) \<le>
      length (filter (\<lambda>t. \<exists>i. lo \<le> i \<and> i < Suc (sv_reads s) \<and> t = cf_now cf i) (failuresOf s key))"
    by (rule length_filter_mono) (use less_SucI in blast)
  ultimately show "length (recorded cf lo key s) \<le> length (recorded cf lo key (snd (authLocked cf k s)))"
    unfolding recorded_def kept reads by (cases "key = k") simp_all
  have "length (recorded cf lo key s) \<le> length (filter ?now (failuresOf s key))"
    unfolding recorded_def by (rule length_filter_mono) (use new in blast)
  then show "cf_maxAuthFailures cf \<le> int (length (recorded cf lo key s)) \<Longrightarrow> fst (authLocked cf key s)"
    using assms(1) by (simp add: authLocked_eq Let_def)
qed

lemma recordAuthFailure_recent:
  assumes "0 < cf_maxAuthFailures cf" "fm_len (sv_authFailures s) < maxTrackedFailures" "lo \<le> sv_reads s"
  shows "(if k = key then 1 else 0) + length (recorded cf lo key s) \<le> length (recorded cf lo key (recordAuthFailure cf k s))"
proof -
  have r: "recordAuthFailure cf k s = s\<lparr>sv_reads := Suc (sv_reads s),
      sv_authFailures := fmupd k (failuresOf s k @ [cf_now cf (sv_reads s)]) (sv_authFailures s)\<rparr>"
    using assms(1,2) by (simp add: recordAuthFailure_def time_Now_def makeRoom_def failuresOf_def Let_def)
  let ?s = "s\<lparr>sv_reads := Suc (sv_reads s)\<rparr>"
  have "length (recorded cf lo key s) \<le> length (recorded cf lo key ?s)"
    by (rule recorded_reads) (simp_all add: failuresOf_def)
  moreover have "length (recorded cf lo key (recordAuthFailure cf k s)) =
      (if k = key then 1 else 0) + length (recorded cf lo key ?s)"
    unfolding r recorded_def using assms(3) by (auto simp: failuresOf_def)
  ultimately show ?thesis by simp
qed

lemma fm_len_fmupd: "fm_len (fmupd k v m) \<le> Suc (fm_len m)"
  by (simp add: fm_len_def fcard_finsert_if)

lemma fm_len_present: "fmlookup m k \<noteq> None \<Longrightarrow> fm_len (fmupd k v m) = fm_len m"
proof -
  assume "fmlookup m k \<noteq> None"
  then have "fmdom (fmupd k v m) = fmdom m" by (auto intro: fmdomI)
  then show ?thesis by (simp add: fm_len_def)
qed

lemma fm_len_fmdrop: "fm_len (fmdrop k m) \<le> fm_len m"
  unfolding fm_len_def by (rule fcard_mono) auto

lemma authLocked_len: "fm_len (sv_authFailures (snd (authLocked cf key s))) \<le> fm_len (sv_authFailures s)"
proof (cases "0 < cf_maxAuthFailures cf")
  case True
  define fs where "fs = filter (\<lambda>t. t > cf_now cf (sv_reads s) - cf_lockoutDuration cf) (failuresOf s key)"
  have "fm_len (fmupd key fs (sv_authFailures s)) = fm_len (sv_authFailures s)" if "fs \<noteq> []"
    by (rule fm_len_present) (use that in \<open>auto simp: fs_def failuresOf_def split: option.splits\<close>)
  then show ?thesis
    using fm_len_fmdrop [of key "sv_authFailures s"]
    by (simp add: authLocked_eq [OF True] Let_def fs_def [symmetric])
qed (simp add: authLocked_def)

lemma recordAuthFailure_len:
  assumes "fm_len (sv_authFailures s) < maxTrackedFailures"
  shows "fm_len (sv_authFailures (recordAuthFailure cf key s)) \<le> Suc (fm_len (sv_authFailures s))"
  using assms fm_len_fmupd [of key _ "sv_authFailures s"]
  by (simp add: recordAuthFailure_def time_Now_def makeRoom_def Let_def)

lemma auth_step_len:
  assumes "fm_len (sv_authFailures s) < maxTrackedFailures"
  shows "fm_len (sv_authFailures (auth_step cf ev s)) \<le> Suc (fm_len (sv_authFailures s))"
proof (cases ev)
  case (Attempt user pw)
  obtain locked s1 where l: "authLocked cf (userLockKey user) s = (locked, s1)" by fastforce
  have len: "fm_len (sv_authFailures s1) \<le> fm_len (sv_authFailures s)"
    using authLocked_len [of cf "userLockKey user" s] l by simp
  moreover have "fm_len (fmdrop (userLockKey user) (sv_authFailures s1)) \<le> fm_len (sv_authFailures s1)"
    by (rule fm_len_fmdrop)
  ultimately show ?thesis
    using recordAuthFailure_len [of s1 cf "userLockKey user"] assms l Attempt
    by (auto simp: checkedAuth_def clearAuthFailures_def Let_def)
next
  case (IPCheck ip)
  then show ?thesis using authLocked_len [of cf ip s] by simp
next
  case (IPFailure ip)
  then show ?thesis using recordAuthFailure_len [OF assms] by simp
qed

lemma authLocked_reads: "sv_reads s \<le> sv_reads (snd (authLocked cf key s))"
  by (simp add: authLocked_def time_Now_def Let_def)

lemma recordAuthFailure_reads: "sv_reads s \<le> sv_reads (recordAuthFailure cf key s)"
  by (simp add: recordAuthFailure_def time_Now_def Let_def)

lemma auth_step_reads: "sv_reads s \<le> sv_reads (auth_step cf ev s)"
proof (cases ev)
  case (Attempt user pw)
  obtain locked s1 where l: "authLocked cf (userLockKey user) s = (locked, s1)" by fastforce
  then have "sv_reads s \<le> sv_reads s1" using authLocked_reads [of s cf "userLockKey user"] by simp
  then show ?thesis
    using l Attempt recordAuthFailure_reads [of s1 cf "userLockKey user"]
    by (auto simp: checkedAuth_def clearAuthFailures_def Let_def)
qed (use authLocked_reads recordAuthFailure_reads in simp_all)

lemma auth_run_reads: "sv_reads s \<le> sv_reads (auth_run cf evs s)"
  by (induction evs arbitrary: s) (auto intro: le_trans [OF auth_step_reads])

lemma within_lockout_mono: "within_lockout cf lo hi \<Longrightarrow> hi' \<le> hi \<Longrightarrow> within_lockout cf lo hi'"
  by (auto simp: within_lockout_def)

lemma auth_step_recent:
  assumes max: "0 < cf_maxAuthFailures cf" and h: "cf_authHandler cf = Some h"
    and w: "within_lockout cf lo (Suc (sv_reads (auth_step cf ev s)))" and lo: "lo \<le> sv_reads s"
    and room: "fm_len (sv_authFailures s) < maxTrackedFailures"
    and no: "\<And>user pw. ev = Attempt user pw \<Longrightarrow> userLockKey user = key \<Longrightarrow> \<not> h user pw"
  shows "(if wrong cf key ev s then 1 else 0) + length (recorded cf lo key s) \<le>
    length (recorded cf lo key (auth_step cf ev s))"
proof -
  have w': "within_lockout cf lo (Suc (sv_reads s))"
    by (rule within_lockout_mono [OF w]) (simp add: auth_step_reads)
  note check = authLocked_recent(1) [OF max w' lo, of key]
  show ?thesis
  proof (cases ev)
    case (Attempt user pw)
    let ?k = "userLockKey user"
    obtain locked s1 where l: "authLocked cf ?k s = (locked, s1)" by fastforce
    have s1: "length (recorded cf lo key s) \<le> length (recorded cf lo key s1)" "lo \<le> sv_reads s1"
        "fm_len (sv_authFailures s1) < maxTrackedFailures"
      using check [of ?k] l authLocked_reads [of s cf ?k] authLocked_len [of cf ?k s] lo room by simp_all
    have "recorded cf lo key (clearAuthFailures ?k s1) = recorded cf lo key s1" if "?k \<noteq> key"
      using that by (simp add: recorded_def clearAuthFailures_def failuresOf_def)
    then show ?thesis
      using s1(1) recordAuthFailure_recent [OF max s1(3,2), of ?k key] l no h Attempt
      by (cases "h user pw"; cases "?k = key") (auto simp: checkedAuth_def wrong_def Let_def)
  next
    case (IPCheck ip)
    then show ?thesis using check [of ip] by (simp add: wrong_def)
  next
    case (IPFailure ip)
    then show ?thesis using recordAuthFailure_recent [OF max room lo, of ip key] by (simp add: wrong_def)
  qed
qed

lemma auth_run_recent:
  assumes max: "0 < cf_maxAuthFailures cf" and h: "cf_authHandler cf = Some h"
  shows "within_lockout cf lo (Suc (sv_reads (auth_run cf evs s))) \<Longrightarrow> lo \<le> sv_reads s \<Longrightarrow>
    fm_len (sv_authFailures s) + length evs \<le> maxTrackedFailures \<Longrightarrow>
    (\<And>user pw. Attempt user pw \<in> set evs \<Longrightarrow> userLockKey user = key \<Longrightarrow> \<not> h user pw) \<Longrightarrow>
    wrongs cf key evs s + length (recorded cf lo key s) \<le> length (recorded cf lo key (auth_run cf evs s))"
proof (induction evs arbitrary: s)
  case (Cons ev evs)
  let ?s = "auth_step cf ev s"
  have "within_lockout cf lo (Suc (sv_reads ?s))"
    by (rule within_lockout_mono [OF Cons.prems(1)]) (simp add: auth_run_reads)
  then have "(if wrong cf key ev s then 1 else 0) + length (recorded cf lo key s) \<le> length (recorded cf lo key ?s)"
    using auth_step_recent [OF max h _ Cons.prems(2), of ev key] Cons.prems(3,4) by simp
  moreover have "wrongs cf key evs ?s + length (recorded cf lo key ?s) \<le> length (recorded cf lo key (auth_run cf evs ?s))"
  proof (rule Cons.IH)
    show "fm_len (sv_authFailures ?s) + length evs \<le> maxTrackedFailures"
      using auth_step_len [of s cf ev] Cons.prems(3) by simp
  qed (use Cons.prems auth_step_reads [of s cf ev] in auto)
  ultimately show ?case by simp
qed simp

text \<open>The table of failures stays bounded.\<close>

lemma dropKeys_len:
  assumes "fset (fmdom m) \<subseteq> set ks"
  shows "fm_len (dropKeys ks m) < maxTrackedFailures"
  using assms
proof (induction ks m rule: dropKeys.induct)
  case (1 m)
  then have "fmdom m = {||}" by auto
  then show ?case by (simp add: fm_len_def maxTrackedFailures_def fcard.rep_eq)
next
  case (2 k ks m)
  then show ?case by (cases "fm_len m < maxTrackedFailures") auto
qed

lemma recordAuthFailure_bound:
  assumes "\<And>m. set (cf_range cf m) = fset (fmdom m)" "fm_len (sv_authFailures s) \<le> maxTrackedFailures"
  shows "fm_len (sv_authFailures (recordAuthFailure cf key s)) \<le> maxTrackedFailures"
proof -
  let ?m = "makeRoom cf (cf_now cf (sv_reads s)) key (sv_authFailures s)"
  have "fm_len (fmupd key v ?m) \<le> maxTrackedFailures" for v
  proof (cases "fmlookup (sv_authFailures s) key = None \<and> fm_len (sv_authFailures s) \<ge> maxTrackedFailures")
    case True
    then have "fm_len ?m < maxTrackedFailures"
      using assms(1) by (simp add: makeRoom_def Let_def dropKeys_len)
    then show ?thesis using fm_len_fmupd [of key v ?m] by simp
  next
    case False
    then have m: "?m = sv_authFailures s" by (auto simp: makeRoom_def)
    show ?thesis
    proof (cases "fmlookup (sv_authFailures s) key")
      case None
      then show ?thesis using False fm_len_fmupd [of key v ?m] m by simp
    next
      case (Some ts)
      then have "fmdom (fmupd key v ?m) = fmdom ?m" using m by (auto intro: fmdomI)
      then show ?thesis using assms(2) m by (simp add: fm_len_def)
    qed
  qed
  then show ?thesis using assms(2) by (simp add: recordAuthFailure_def time_Now_def Let_def)
qed

lemma auth_step_bound:
  assumes "\<And>m. set (cf_range cf m) = fset (fmdom m)" "fm_len (sv_authFailures s) \<le> maxTrackedFailures"
  shows "fm_len (sv_authFailures (auth_step cf ev s)) \<le> maxTrackedFailures"
proof (cases ev)
  case (Attempt user pw)
  obtain locked s1 where l: "authLocked cf (userLockKey user) s = (locked, s1)" by fastforce
  have s1: "fm_len (sv_authFailures s1) \<le> maxTrackedFailures"
    using authLocked_len [of cf "userLockKey user" s] l assms(2) by simp
  moreover have "fm_len (fmdrop (userLockKey user) (sv_authFailures s1)) \<le> fm_len (sv_authFailures s1)"
    by (rule fm_len_fmdrop)
  ultimately show ?thesis
    using recordAuthFailure_bound [OF assms(1) s1, of "userLockKey user"] l Attempt
    by (auto simp: checkedAuth_def clearAuthFailures_def Let_def)
next
  case (IPCheck ip)
  then show ?thesis using authLocked_len [of cf ip s] assms(2) by simp
next
  case (IPFailure ip)
  then show ?thesis using recordAuthFailure_bound [OF assms] by simp
qed

lemma auth_run_bound:
  assumes "\<And>m. set (cf_range cf m) = fset (fmdom m)"
  shows "fm_len (sv_authFailures s) \<le> maxTrackedFailures \<Longrightarrow>
    fm_len (sv_authFailures (auth_run cf evs s)) \<le> maxTrackedFailures"
  by (induction evs arbitrary: s) (simp_all add: auth_step_bound [OF assms])

section \<open>Storing a script and reading it back\<close>

lemma itoa_digits: "list_all is_digit (itoa n)" "itoa n \<noteq> []"
proof (induction n rule: itoa.induct)
  case (1 n)
  {
    case 1
    have "is_digit (char_of (48 + k))" if "k < 10" for k :: nat
      using that by (auto simp: is_digit_def)
    then show ?case using "1.IH" by (subst itoa.simps) auto
  next
    case 2
    show ?case by (subst itoa.simps) simp
  }
qed

lemma itoa_val: "digits_val (itoa n) = n"
proof (induction n rule: itoa.induct)
  case (1 n)
  have "byte (char_of (48 + k)) - 48 = k" if "k < 10" for k :: nat using that by simp
  then show ?case
    using 1 by (subst itoa.simps) (auto simp: digits_val_def)
qed

lemma parse_itoa:
  assumes "int n \<le> int64_max"
  shows "parse_int64 (itoa n) = Some (int n)"
proof -
  have "hd (itoa n) \<noteq> CHR ''-'' \<and> hd (itoa n) \<noteq> CHR ''+''"
    using itoa_digits [of n] by (cases "itoa n") (auto simp: is_digit_def)
  then show ?thesis
    using itoa_digits [of n] itoa_val [of n] assms
    by (simp add: parse_int64_def Let_def in_int64_def int64_min_def)
qed

abbreviation literal_arg :: "nat \<Rightarrow> string" where
  "literal_arg n \<equiv> ''{'' @ itoa n @ ''+}''"

lemma literal_size: "trim_suffix (trim_suffix (tl (literal_arg n)) ''}'') ''+'' = itoa n"
  by (simp add: trim_suffix_def has_suffix_def)

lemma readScriptArg_literal:
  assumes "se_in s = source @ [CR, LF] @ rest" "int (length source) \<le> maxManageSieveScriptSize"
  shows "readScriptArg cf (literal_arg (length source)) s = (Inr source, s\<lparr>se_in := rest\<rparr>)"
proof -
  have p: "parse_int64 (itoa (length source)) = Some (int (length source))"
    using assms(2) by (intro parse_itoa) (simp add: maxManageSieveScriptSize_def int64_max_def)
  have l: "has_prefix (literal_arg n) ''{''" "has_suffix (literal_arg n) ''}''"
      "\<not> has_prefix (literal_arg n) [DQUOTE]" for n
    by (simp_all add: has_prefix_def has_suffix_def)
  have r: "ReadLine cf (s\<lparr>se_in := [CR, LF] @ rest\<rparr>) = (Inr [], s\<lparr>se_in := rest\<rparr>)"
    by (simp add: ReadLine_def maxManageSieveLineLength_def trim_right_def)
  have t: "trim_space [] = []"
    by (simp add: trim_space_def trim_space_left.simps trim_space_right.simps)
  show ?thesis
    using assms r l [of "length source"] t p literal_size [of "length source"]
    by (simp add: readScriptArg_def Let_def andThen_def readOctets_def)
qed

lemma put_line:
  assumes "valid_utf8 name"
  shows "parseManageSieveLine (''PUTSCRIPT '' @ quoteManageSieveString name @ '' '' @ literal_arg n) =
    [''PUTSCRIPT'', quoteManageSieveString name, literal_arg n]"
proof -
  have w: "list_all (\<lambda>c. byte c < 128 \<and> c \<noteq> BSLASH \<and> c \<noteq> DQUOTE \<and> c \<noteq> SP) (literal_arg n)"
    using itoa_digits(1) [of n] by (auto simp: list_all_iff is_digit_def)
  have "lineParts False False [] (literal_arg n) = [literal_arg n]"
    using lineParts_word [OF w, of "[]" "[]"] by (simp add: lineParts.simps [of _ _ _ "[]"])
  then show ?thesis
    using lineParts_arg(1) [OF assms, of "literal_arg n"]
    by (simp add: parseManageSieveLine_def lineParts_byte)
qed

lemma storeScript_source:
  assumes "storeScript L u name source q m = (None, m')"
  shows "scriptSource m' u name = Some source"
proof -
  obtain sc where sc: "Compile (ml_go L) source = Inr sc"
    using assms by (auto simp: storeScript_def CompileScript_def split: sum.splits)
  then have "mutateUser L u (storeFn u name source sc q) m = (None, m')"
    using assms by (simp add: storeScript_def CompileScript_def)
  then obtain m1 where "storeFn u name source sc q m = (None, m1)" "userScripts m' u = userScripts m1 u"
    by (auto simp: mutateUser_def split: option.splits if_splits prod.splits)
  then have "userScripts m' u = fmupd name \<lparr>ss_Name = name, ss_Source = source, ss_Script = sc\<rparr> (userScripts m u)"
    by (auto simp: storeFn_def split: option.splits)
  then show ?thesis by (simp add: scriptSource_def)
qed

lemma put_stores:
  assumes user: "se_user s \<noteq> []" and w: "se_writes s = None"
    and inp: "se_in s = source @ [CR, LF] @ rest" "int (length source) \<le> maxManageSieveScriptSize"
    and name: "validScriptName name = None"
    and store: "storeScript (cf_lib cf) (se_user s) name source True (sv_manager s) = (None, m')"
  shows "processCommandSession cf
      (''PUTSCRIPT '' @ quoteManageSieveString name @ '' '' @ literal_arg (length source)) s =
    (Inr (), s\<lparr>sv_manager := m', se_in := rest,
      se_out := se_out s @ [''OK \"Script stored\"'' @ [CR, LF]]\<rparr>)"
proof -
  have v: "valid_utf8 name" using name by (auto simp: validScriptName_def split: if_splits)
  have c: "ValidateScript (cf_lib cf) source = None"
    using store by (auto simp: ValidateScript_def storeScript_def CompileScript_def split: sum.splits)
  have "to_upper ''PUTSCRIPT'' = ''PUTSCRIPT''" by (simp add: to_upper_def upper_byte_def)
  then have "processCommandSession cf
      (''PUTSCRIPT '' @ quoteManageSieveString name @ '' '' @ literal_arg (length source)) s =
    cmdPutScript cf [quoteManageSieveString name, literal_arg (length source)] s"
    unfolding processCommandSession_def put_line [OF v] by (simp add: dispatchCommand_def)
  also have "\<dots> = putContent cf (se_user s) name source (s\<lparr>se_in := rest\<rparr>)"
    using user readScriptArg_literal [OF inp, of cf] unquote_quote_string [of name]
    by (simp add: cmdPutScript_def andThen_def)
  also have "\<dots> = (Inr (), s\<lparr>sv_manager := m', se_in := rest,
      se_out := se_out s @ [''OK \"Script stored\"'' @ [CR, LF]]\<rparr>)"
    using name c store w
    by (simp add: putContent_def andThen_def onManager_def sendResponse_def conn_Write_def has_suffix_def)
  finally show ?thesis .
qed

lemma get_line:
  assumes "valid_utf8 name"
  shows "parseManageSieveLine (''GETSCRIPT '' @ quoteManageSieveString name) =
    [''GETSCRIPT'', quoteManageSieveString name]"
  using lineParts_arg(2) [OF assms] by (simp add: parseManageSieveLine_def lineParts_byte)

lemma get_returns:
  assumes "se_user s \<noteq> []" "se_writes s = None" "valid_utf8 name"
    "scriptSource (sv_manager s) (se_user s) name = Some source"
  shows "processCommandSession cf (''GETSCRIPT '' @ quoteManageSieveString name) s =
    (Inr (), s\<lparr>se_out := se_out s @ [''{'' @ itoa (length source) @ ''}'' @ [CR, LF], source @ [CR, LF],
      ''OK \"Get script complete\"'' @ [CR, LF]]\<rparr>)"
proof -
  have "to_upper ''GETSCRIPT'' = ''GETSCRIPT''" by (simp add: to_upper_def upper_byte_def)
  then have "processCommandSession cf (''GETSCRIPT '' @ quoteManageSieveString name) s =
      cmdGetScript cf [quoteManageSieveString name] s"
    unfolding processCommandSession_def get_line [OF assms(3)] by (simp add: dispatchCommand_def)
  moreover have "\<not> has_suffix (''{'' @ itoa n @ ''}'') [CR, LF]" for n
  proof -
    have "last (''{'' @ itoa n @ ''}'') \<noteq> LF" by simp
    then show ?thesis by (metis append_take_drop_id has_suffix_def last_ConsL last_ConsR last_appendR list.distinct(1))
  qed
  ultimately show ?thesis
    using assms(1,2,4) unquote_quote_string [of name]
    by (simp add: cmdGetScript_def andThen_def sendResponse_def conn_Write_def) (simp add: has_suffix_def)
qed

definition demo_config :: "(string \<times> string) list config" where
  "demo_config =
     \<lparr>cf_lib = mem_lib, cf_tlsCfg = None, cf_authHandler = Some (\<lambda>u p. u = ''u'' \<and> p = ''p''),
      cf_userResolver = None, cf_maxAuthFailures = 2, cf_lockoutDuration = 10, cf_maxConns = 0,
      cf_now = (\<lambda>_. 0), cf_range = (\<lambda>m. sorted_list_of_set (fset (fmdom m))),
      cf_handshake = (\<lambda>_. None), cf_readError = ''EOF'', cf_writeError = ''closed'',
      cf_compileText = (\<lambda>_. ''bad'')\<rparr>"

definition demo_session :: "string \<Rightarrow> string \<Rightarrow> (string \<times> string) list session" where
  "demo_session user input =
     \<lparr>sv_manager = NewManager, sv_authFailures = fmempty, sv_active = 1, sv_reads = 0,
      se_in = input, se_out = [], se_writes = None, se_user = user, se_tls = False, se_ip = ''1.2.3.4''\<rparr>"

lemma demo_fields [simp]:
  "sv_manager (demo_session u i) = NewManager" "sv_authFailures (demo_session u i) = fmempty"
  "se_in (demo_session u i) = i" "se_out (demo_session u i) = []" "se_writes (demo_session u i) = None"
  "se_user (demo_session u i) = u" "cf_lib demo_config = mem_lib"
  by (simp_all add: demo_session_def demo_config_def)

abbreviation demo_input :: string where
  "demo_input \<equiv> ''AUTHENTICATE PLAIN AHUAcA=='' @ [CR, LF] @ ''PUTSCRIPT a 5'' @ [CR, LF] @ ''keep;''"

lemma demo_run:
  "let s = handleConn demo_config (demo_session [] demo_input) in
   se_user s = ''u'' \<and> scriptSource (sv_manager s) ''u'' ''a'' = Some ''keep;''"
  by code_simp

section \<open>A session as a sequence of manager operations\<close>

definition session_op :: "string \<Rightarrow> 'db mop \<Rightarrow> bool" where
  \<comment> \<open>a change of this user's scripts that respects the quota\<close>
  "session_op u op = (u \<noteq> [] \<and> change_of op = Some u \<and> (\<forall>v n src. op \<noteq> OpStore v n src False))"

definition runs_manager :: "'db config \<Rightarrow> 'db session \<Rightarrow> 'db session \<Rightarrow> bool" where
  "runs_manager cf s s' =
     ((se_user s \<noteq> [] \<longrightarrow> se_user s' = se_user s) \<and>
      (\<exists>ops. (\<forall>op \<in> set ops. session_op (se_user s') op) \<and>
         sv_manager s' = manager_run (cf_lib cf) ops (sv_manager s)))"

lemma runs_managerI:
  "(se_user s \<noteq> [] \<longrightarrow> se_user s' = se_user s) \<Longrightarrow> \<forall>op \<in> set ops. session_op (se_user s') op \<Longrightarrow>
     sv_manager s' = manager_run (cf_lib cf) ops (sv_manager s) \<Longrightarrow> runs_manager cf s s'"
  by (auto simp: runs_manager_def)

interpretation runs: session_relation cf "runs_manager cf" for cf
proof unfold_locales
  fix s t v :: "'a session"
  assume 1: "runs_manager cf s t" and 2: "runs_manager cf t v"
  obtain ops1 ops2 where
      o1: "\<forall>op \<in> set ops1. session_op (se_user t) op" "sv_manager t = manager_run (cf_lib cf) ops1 (sv_manager s)"
    and o2: "\<forall>op \<in> set ops2. session_op (se_user v) op" "sv_manager v = manager_run (cf_lib cf) ops2 (sv_manager t)"
    using 1 2 unfolding runs_manager_def by metis
  have "session_op (se_user v) op" if "op \<in> set ops1" for op
  proof -
    have "session_op (se_user t) op" using o1(1) that by blast
    moreover from this have "se_user v = se_user t" using 2 by (simp add: runs_manager_def session_op_def)
    ultimately show ?thesis by simp
  qed
  then show "runs_manager cf s v"
    using 1 2 o1 o2 by (intro runs_managerI [of _ _ "ops1 @ ops2"]) (auto simp: runs_manager_def)
next
  fix s :: "'a session" and op :: "'a mop"
  assume "se_user s \<noteq> []" "change_of op = Some (se_user s)" "\<And>u n src. op \<noteq> OpStore u n src False"
  then show "runs_manager cf s (s\<lparr>sv_manager := snd (perform (cf_lib cf) op (sv_manager s))\<rparr>)"
    by (intro runs_managerI [of _ _ "[op]"]) (simp_all add: session_op_def)
qed (auto intro: runs_managerI [of _ _ "[]"])

section \<open>Properties of the ManageSieve server\<close>

text \<open>
  C27. A whole connection, whatever the client sends, does to the manager what
  some sequence of manager operations does, each of them a change of the scripts
  of the user the connection authenticated as, with the quota enforced. In
  particular a connection that never authenticates changes no script.
\<close>

theorem session_refines_manager:
  "\<exists>ops. (\<forall>op \<in> set ops. session_op (se_user (handleConn cf s)) op) \<and>
     sv_manager (handleConn cf s) = manager_run (cf_lib cf) ops (sv_manager s)"
  using runs.R_handleConn [of cf s] by (auto simp: runs_manager_def)

theorem session_refines_manager_witness:
  "let s = handleConn demo_config (demo_session [] demo_input) in
   se_user s = ''u'' \<and> scriptSource (sv_manager s) ''u'' ''a'' = Some ''keep;'' \<and>
   (\<exists>ops. (\<forall>op \<in> set ops. session_op ''u'' op) \<and> sv_manager s = manager_run mem_lib ops NewManager)"
  using session_refines_manager [of demo_config "demo_session [] demo_input"] demo_run
  by (simp add: Let_def)

text \<open>
  C28. Isolation: a connection leaves the scripts and the active script of every
  user alone except those of the user it is authenticated as when it ends.
\<close>

theorem session_isolated:
  assumes "v \<noteq> se_user (handleConn cf s) \<or> v = []"
  shows "user_view (sv_manager (handleConn cf s)) v = user_view (sv_manager s) v"
  using own.R_handleConn [of s cf] assms by (auto simp: own_scripts_def)

theorem session_isolated_witness:
  "user_view (sv_manager (handleConn demo_config (demo_session [] demo_input))) ''v'' =
     user_view (NewManager :: (string \<times> string) list manager) ''v''"
  using session_isolated [of "''v''" demo_config "demo_session [] demo_input"] demo_run
  by (simp add: Let_def)

text \<open>
  C29. A connection gets a user only by credentials the authentication handler
  accepted, and never in clear text where TLS can be had: if it has a user at
  the end, the user belongs to a login that was accepted, and TLS is on unless
  no certificate is configured. Once set, the user does not change.
\<close>

theorem session_authenticated:
  assumes "se_user s = []" "se_user (handleConn cf s) \<noteq> []"
  shows "granted cf (se_user (handleConn cf s)) \<and> (tlsAvailable cf \<longrightarrow> se_tls (handleConn cf s))"
  using login.R_handleConn [of cf s] assms by (simp add: logged_in_def)

theorem session_authenticated_witness:
  "granted demo_config ''u'' \<and> \<not> tlsAvailable demo_config"
  using session_authenticated [of "demo_session [] demo_input" demo_config] demo_run
  by (simp add: Let_def) (simp add: tlsAvailable_def demo_config_def)

text \<open>
  C30. Every connection keeps what the manager promises: stored scripts compile
  and the active script exists, and each user within the quota stays within it.
\<close>

theorem session_keeps_manager:
  assumes "wf_manager (cf_lib cf) (sv_manager s)" "within_quota (userScripts (sv_manager s) v)"
  shows "wf_manager (cf_lib cf) (sv_manager (handleConn cf s)) \<and>
    within_quota (userScripts (sv_manager (handleConn cf s)) v)"
  using good.R_handleConn [of cf s] assms by (simp add: keeps_good_def)

theorem session_keeps_manager_witness:
  "wf_manager mem_lib (sv_manager (handleConn demo_config (demo_session [] demo_input))) \<and>
   within_quota (userScripts (sv_manager (handleConn demo_config (demo_session [] demo_input))) ''u'')"
proof -
  have "within_quota (userScripts (NewManager :: (string \<times> string) list manager) ''u'')"
    by (simp add: within_quota_def userScripts_def NewManager_def fm_len_def fcard.rep_eq)
  then show ?thesis
    using session_keeps_manager [of demo_config "demo_session [] demo_input" "''u''"] by simp
qed

text \<open>
  C31. Every command line is answered: as long as the client can be written to,
  a round of the session that has read a line writes a response, also when the
  command fails or ends the session.
\<close>

theorem command_answered:
  assumes "se_writes s = None" "fst (ReadLine cf s) = Inr line"
  shows "strict_prefix (se_out s) (se_out (snd (handleOne cf s)))"
  using handleOne_answers [OF assms(1)] assms(2) by (metis prod.collapse)

theorem command_answered_witness:
  "strict_prefix [] (se_out (snd (handleOne demo_config (demo_session [] (''NOOP'' @ [CR, LF])))))"
proof -
  have "fst (ReadLine demo_config (demo_session [] (''NOOP'' @ [CR, LF]))) = Inr ''NOOP''"
    by code_simp
  from command_answered [OF _ this] show ?thesis by simp
qed

text \<open>
  C32. Lockout. Take any interleaving of login attempts for this and other accounts
  with checks and records of client addresses, all within one lockout period. If as
  many wrong passwords as the limit were tried for the account and no right one,
  then the next attempt for it is refused without trying the password, with a NO
  that closes the connection. The table must have room for the keys the run may
  add: a full one evicts entries, perhaps this one.
\<close>

theorem lockout_refuses:
  assumes "0 < cf_maxAuthFailures cf" "cf_authHandler cf = Some h"
    and "\<And>u pw. Attempt u pw \<in> set evs \<Longrightarrow> userLockKey u = userLockKey user \<Longrightarrow> \<not> h u pw"
    and "fm_len (sv_authFailures s) + length evs \<le> 50000"
    and "within_lockout cf (sv_reads s) (Suc (sv_reads (auth_run cf evs s)))"
    and "cf_maxAuthFailures cf \<le> int (wrongs cf (userLockKey user) evs s)"
  shows "fst (checkedAuth cf user pw (auth_run cf evs s)) =
    Inl (MsNo [] ''too many failed authentication attempts'' True)"
proof -
  let ?key = "userLockKey user" and ?s = "auth_run cf evs s"
  have "wrongs cf ?key evs s \<le> length (recorded cf (sv_reads s) ?key ?s)"
    using auth_run_recent [OF assms(1,2,5), of ?key] assms(3,4) by (simp add: maxTrackedFailures_def)
  then have "fst (authLocked cf ?key ?s)"
    using authLocked_recent(2) [OF assms(1,5) auth_run_reads, of ?key] assms(6) by linarith
  then show ?thesis by (cases "authLocked cf ?key ?s") (simp add: checkedAuth_def Let_def)
qed

theorem lockout_refuses_witness:
  "fst (checkedAuth demo_config ''u'' ''p''
     (auth_run demo_config [IPCheck ''10.0.0.1'', Attempt ''u'' ''x'', IPFailure ''10.0.0.1'', Attempt ''v'' ''x'', Attempt ''U'' ''y'']
       (demo_session [] []))) =
   Inl (MsNo [] ''too many failed authentication attempts'' True)"
proof (rule lockout_refuses [where h = "\<lambda>u p. u = ''u'' \<and> p = ''p''"])
  show "cf_maxAuthFailures demo_config \<le> int (wrongs demo_config (userLockKey ''u'')
      [IPCheck ''10.0.0.1'', Attempt ''u'' ''x'', IPFailure ''10.0.0.1'', Attempt ''v'' ''x'', Attempt ''U'' ''y''] (demo_session [] []))"
    by code_simp
qed (auto simp: demo_config_def within_lockout_def fm_len_def fcard.rep_eq)

text \<open>
  C33. The table of failures never grows beyond 50000 clients and accounts, over any
  interleaving of login attempts, checks and records of client addresses, whichever
  entries an eviction visits first.
\<close>

theorem failures_bounded:
  assumes "\<And>m. set (cf_range cf m) = fset (fmdom m)" "fm_len (sv_authFailures s) \<le> 50000"
  shows "fm_len (sv_authFailures (auth_run cf evs s)) \<le> 50000"
  using auth_run_bound [OF assms(1), of s evs] assms(2) by (simp add: maxTrackedFailures_def)

theorem failures_bounded_witness:
  "fm_len (sv_authFailures (auth_run demo_config [IPCheck ''k'', Attempt ''u'' ''x'', IPFailure ''k''] (demo_session [] []))) \<le> 50000"
  by (rule failures_bounded) (simp_all add: demo_config_def fm_len_def fcard.rep_eq)

text \<open>
  C34. Quoting: a value written as an RFC 5804 quoted string is read back
  unchanged, whatever octets it has.
\<close>

theorem unquote_quote: "unquoteManageSieveArg (quoteManageSieveString v) = v"
  by (rule unquote_quote_string)

text \<open>
  C35. A command line built from a command and quoted arguments in UTF-8 is split
  into exactly these, also where arguments hold spaces, quotes or backslashes.
\<close>

theorem parse_line_roundtrip:
  assumes "plain_word cmd" "list_all valid_utf8 args"
  shows "map unquoteManageSieveArg
      (parseManageSieveLine (str_join (cmd # map quoteManageSieveString args) [SP])) =
    unquoteManageSieveArg cmd # args"
  by (simp only: parse_printed_line [OF assms]) (simp add: unquote_quote_string o_def)

theorem parse_line_roundtrip_witness:
  "map unquoteManageSieveArg
     (parseManageSieveLine (str_join (''SETACTIVE'' # map quoteManageSieveString [''a \"b\"'']) [SP])) =
   [''SETACTIVE'', ''a \"b\"'']"
proof -
  have "plain_word ''SETACTIVE''" "list_all valid_utf8 [''a \"b\"'']" by code_simp+
  from parse_line_roundtrip [OF this] show ?thesis by (simp add: unquoteManageSieveArg_def)
qed

text \<open>
  C36. \<^verbatim>\<open>PUTSCRIPT\<close> with a literal stores exactly the octets sent and leaves the
  input at the next command, and \<^verbatim>\<open>GETSCRIPT\<close> sends exactly these octets back:
  for an authenticated session, a valid name and a script the manager accepts.
\<close>

theorem put_get_roundtrip:
  assumes "se_user s \<noteq> []" "se_writes s = None"
    and "se_in s = source @ [CR, LF] @ rest" "int (length source) \<le> maxManageSieveScriptSize"
    and "validScriptName name = None"
    and "fst (storeScript (cf_lib cf) (se_user s) name source True (sv_manager s)) = None"
  defines "s' \<equiv> snd (processCommandSession cf
      (''PUTSCRIPT '' @ quoteManageSieveString name @ '' '' @ literal_arg (length source)) s)"
  shows "se_in s' = rest \<and>
    fst (processCommandSession cf (''GETSCRIPT '' @ quoteManageSieveString name) s') = Inr () \<and>
    se_out (snd (processCommandSession cf (''GETSCRIPT '' @ quoteManageSieveString name) s')) =
      se_out s @ [''OK \"Script stored\"'' @ [CR, LF], ''{'' @ itoa (length source) @ ''}'' @ [CR, LF],
        source @ [CR, LF], ''OK \"Get script complete\"'' @ [CR, LF]]"
proof -
  obtain m' where m': "storeScript (cf_lib cf) (se_user s) name source True (sv_manager s) = (None, m')"
    using assms(6) by (metis prod.collapse)
  have s': "s' = s\<lparr>sv_manager := m', se_in := rest,
      se_out := se_out s @ [''OK \"Script stored\"'' @ [CR, LF]]\<rparr>"
    using put_stores [OF assms(1-5) m'] by (simp add: s'_def)
  have v: "valid_utf8 name" using assms(5) by (auto simp: validScriptName_def split: if_splits)
  have "scriptSource m' (se_user s) name = Some source" using storeScript_source [OF m'] .
  then show ?thesis
    using get_returns [of s' name source cf] s' v assms(1,2) by simp
qed

theorem put_get_roundtrip_witness:
  "se_out (snd (processCommandSession demo_config (''GETSCRIPT '' @ quoteManageSieveString ''a'')
     (snd (processCommandSession demo_config
       (''PUTSCRIPT '' @ quoteManageSieveString ''a'' @ '' '' @ literal_arg (length ''keep;''))
       (demo_session ''u'' (''keep;'' @ [CR, LF] @ ''NOOP'')))))) =
   [''OK \"Script stored\"'' @ [CR, LF], ''{5}'' @ [CR, LF], ''keep;'' @ [CR, LF],
    ''OK \"Get script complete\"'' @ [CR, LF]]"
proof -
  have "fst (storeScript mem_lib ''u'' ''a'' ''keep;'' True NewManager) = None" by code_simp
  then have st: "fst (storeScript (cf_lib demo_config)
      (se_user (demo_session ''u'' (''keep;'' @ [CR, LF] @ ''NOOP''))) ''a'' ''keep;'' True
      (sv_manager (demo_session ''u'' (''keep;'' @ [CR, LF] @ ''NOOP'')))) = None"
    by simp
  have v: "validScriptName ''a'' = None" by code_simp
  have i: "itoa (length ''keep;'') = ''5''" by code_simp
  show ?thesis
    using put_get_roundtrip [of "demo_session ''u'' (''keep;'' @ [CR, LF] @ ''NOOP'')" "''keep;''"
        "''NOOP''" "''a''" demo_config, OF _ _ _ _ v st]
    unfolding i by (simp add: maxManageSieveScriptSize_def)
qed

end
