(* ===== verification/Mail_Store.thy ===== *)
theory Mail_Store
  imports Sieve_Manager
begin

text \<open>
  What delivery writes to: the account database (\<^verbatim>\<open>src/internal/db/db.go\<close>), the
  delivery queue's entry points (\<^verbatim>\<open>src/internal/queue/manager.go\<close>), the message
  blobs (\<^verbatim>\<open>src/internal/storage/messagestore.go\<close>) and the mailbox rows
  (\<^verbatim>\<open>src/internal/storage/database.go\<close>).

  The record \<open>world\<close> holds the buckets and files as finite maps. Every write that
  a disk or a bbolt transaction may refuse asks \<open>tryWrite\<close>: the \<open>n\<close>-th such call
  fails when \<open>e_fails E n\<close> says so, so a theorem for all \<open>e_fails\<close> covers every
  pattern of failures. A transaction that fails changes nothing. \<open>generateID\<close> gives
  every message file a new number, as the time stamp and random bytes of the code
  do. The locks are not modelled: one delivery runs after the other. Of a mailbox
  row only the message, the flags and the size are kept; modification sequences,
  threads and the change log are left out.
\<close>

section \<open>State\<close>

record account =
  ac_IsActive :: bool
  ac_ForwardTo :: string
  ac_ForwardKeepCopy :: bool
  ac_QuotaUsed :: int
  ac_QuotaLimit :: int

record domainData =
  dm_IsActive :: bool
  dm_CatchAllTarget :: string

record aliasData =
  al_Target :: string
  al_IsActive :: bool

record queueEntry =
  qe_From :: string
  qe_To :: "string list"
  qe_MessagePath :: nat
  qe_Notify :: int

record metadata =
  md_MessageID :: string
  md_Flags :: "string list"
  md_Size :: int

type_synonym queueID = "nat \<times> nat"

record 'db world =
  w_accounts :: "(string, account) fmap"
  w_domains :: "(string, domainData) fmap"
  w_aliases :: "(string, aliasData) fmap"
  w_queue :: "(queueID, queueEntry) fmap"
  w_files :: "(nat, string) fmap"
    \<comment> \<open>the message files of the queue\<close>
  w_nextID :: nat
  w_blobs :: "(string \<times> string, string) fmap"
    \<comment> \<open>by user and message ID\<close>
  w_uidnext :: "(string \<times> string, nat) fmap"
    \<comment> \<open>by user and mailbox\<close>
  w_rows :: "((string \<times> string) \<times> nat, metadata) fmap"
    \<comment> \<open>by user, mailbox and UID\<close>
  w_manager :: "'db manager"
  w_vacationReplies :: "(string, int) fmap"
    \<comment> \<open>deadlines, in nanoseconds\<close>
  w_calls :: nat
  w_reads :: nat
    \<comment> \<open>external writes tried and readings taken of the clock\<close>

record host =
  e_fails :: "nat \<Rightarrow> bool"
  e_sha256 :: "string \<Rightarrow> string"
    \<comment> \<open>\<^verbatim>\<open>hex.EncodeToString\<close> of \<^verbatim>\<open>sha256.Sum256\<close>\<close>
  e_hasQueue :: bool
  e_hasStorage :: bool
    \<comment> \<open>\<^verbatim>\<open>queue\<close> and \<^verbatim>\<open>storageDB\<close> are not nil\<close>
  e_maxQueueSize :: nat

definition tryWrite :: "'e host_scheme \<Rightarrow> 'db world \<Rightarrow> bool \<times> 'db world" where
  \<comment> \<open>whether the next external write succeeds\<close>
  "tryWrite E w = (\<not> e_fails E (w_calls w), w\<lparr>w_calls := w_calls w + 1\<rparr>)"

section \<open>Accounts, domains and aliases\<close>

definition AccountKey :: "string \<Rightarrow> string \<Rightarrow> string" where
  "AccountKey domain localPart = domain @ ''/'' @ localPart"

definition GetAccount :: "'db world \<Rightarrow> string \<Rightarrow> string \<Rightarrow> account option" where
  "GetAccount w domain localPart = fmlookup (w_accounts w) (AccountKey domain localPart)"

definition GetDomain :: "'db world \<Rightarrow> string \<Rightarrow> domainData option" where
  "GetDomain w name = fmlookup (w_domains w) name"

definition GetAlias :: "'db world \<Rightarrow> string \<Rightarrow> string \<Rightarrow> aliasData option" where
  "GetAlias w domain localPart = fmlookup (w_aliases w) (domain @ '':'' @ to_lower localPart)"

definition ResolveAlias :: "'db world \<Rightarrow> string \<Rightarrow> string \<Rightarrow> string" where
  \<comment> \<open>the empty string for no alias; the caller only logs the error\<close>
  "ResolveAlias w domain localPart =
     (case GetAlias w domain localPart of
        None \<Rightarrow> []
      | Some alias \<Rightarrow> if \<not> al_IsActive alias then [] else al_Target alias)"

definition quotaAfter :: "account \<Rightarrow> int \<Rightarrow> int option" where
  \<comment> \<open>the new \<^verbatim>\<open>QuotaUsed\<close>, or \<open>None\<close> for a refusal\<close>
  "quotaAfter a delta =
     (let used = (if ac_QuotaUsed a < 0 then 0 else ac_QuotaUsed a) in
      if delta > 0 \<and> used > int64_max - delta then None
      else if delta > 0 \<and> ac_QuotaLimit a > 0 \<and> wrap64 (used + delta) > ac_QuotaLimit a then None
      else if delta < 0 \<and> wrap64 (used + delta) < 0 then Some 0
      else Some (wrap64 (used + delta)))"

definition IncrementQuota ::
  "'e host_scheme \<Rightarrow> string \<Rightarrow> string \<Rightarrow> int \<Rightarrow> 'db world \<Rightarrow> bool \<times> 'db world" where
  "IncrementQuota E domain localPart delta w =
     (case tryWrite E w of
        (False, w) \<Rightarrow> (False, w)
      | (True, w) \<Rightarrow>
          (case fmlookup (w_accounts w) (AccountKey domain localPart) of
             None \<Rightarrow> (False, w)
           | Some a \<Rightarrow>
               (case quotaAfter a delta of
                  None \<Rightarrow> (False, w)
                | Some used \<Rightarrow>
                    (True, w\<lparr>w_accounts := fmupd (AccountKey domain localPart)
                              (a\<lparr>ac_QuotaUsed := used\<rparr>) (w_accounts w)\<rparr>))))"

section \<open>The queue\<close>

definition EnqueueWithLimit ::
  "'e host_scheme \<Rightarrow> queueID \<Rightarrow> queueEntry \<Rightarrow> 'db world \<Rightarrow> bool \<times> 'db world" where
  "EnqueueWithLimit E i entry w =
     (case tryWrite E w of
        (False, w) \<Rightarrow> (False, w)
      | (True, w) \<Rightarrow>
          if fm_len (w_queue w) \<ge> e_maxQueueSize E then (False, w)
          else (True, w\<lparr>w_queue := fmupd i entry (w_queue w)\<rparr>))"

definition Dequeue :: "'e host_scheme \<Rightarrow> queueID \<Rightarrow> 'db world \<Rightarrow> 'db world" where
  "Dequeue E i w =
     (case tryWrite E w of
        (False, w) \<Rightarrow> w
      | (True, w) \<Rightarrow> w\<lparr>w_queue := fmdrop i (w_queue w)\<rparr>)"

definition deleteFile :: "'e host_scheme \<Rightarrow> nat \<Rightarrow> 'db world \<Rightarrow> 'db world" where
  "deleteFile E path w =
     (case tryWrite E w of
        (False, w) \<Rightarrow> w
      | (True, w) \<Rightarrow> w\<lparr>w_files := fmdrop path (w_files w)\<rparr>)"

definition writeFile :: "'e host_scheme \<Rightarrow> nat \<Rightarrow> string \<Rightarrow> 'db world \<Rightarrow> bool \<times> 'db world" where
  \<comment> \<open>written to a temporary file and renamed; opening the directory to sync it comes
    after that, and when it fails the file stays\<close>
  "writeFile E path data w =
     (case tryWrite E w of
        (False, w) \<Rightarrow> (False, w)
      | (True, w) \<Rightarrow> tryWrite E (w\<lparr>w_files := fmupd path data (w_files w)\<rparr>))"

definition rollback :: "'e host_scheme \<Rightarrow> nat \<Rightarrow> nat \<Rightarrow> 'db world \<Rightarrow> 'db world" where
  "rollback E base i w = fold (\<lambda>j. Dequeue E (base, j)) [0..<i] w"

text \<open>The loop over the recipients, shared by both ways to enqueue: entry \<open>i\<close> is for
  the first recipient of the list; a refused entry takes the earlier ones back.\<close>

fun enqueueEntries ::
  "'e host_scheme \<Rightarrow> nat \<Rightarrow> (nat \<Rightarrow> string \<Rightarrow> queueEntry) \<Rightarrow> nat \<Rightarrow> string list \<Rightarrow> 'db world \<Rightarrow> bool \<times> 'db world" where
  "enqueueEntries E base entry i [] w = (True, w)"
| "enqueueEntries E base entry i (recipient # to) w =
     (case EnqueueWithLimit E (base, i) (entry i recipient) w of
        (True, w) \<Rightarrow> enqueueEntries E base entry (i + 1) to w
      | (False, w) \<Rightarrow> (False, deleteFile E base (rollback E base i w)))"

definition enqueueAll ::
  "'e host_scheme \<Rightarrow> (nat \<Rightarrow> nat \<Rightarrow> string \<Rightarrow> queueEntry) \<Rightarrow> string list \<Rightarrow> string \<Rightarrow> 'db world \<Rightarrow> bool \<times> 'db world" where
  "enqueueAll E entry to message w =
     (let base = w_nextID w; w = w\<lparr>w_nextID := base + 1\<rparr> in
      case writeFile E base message w of
        (False, w) \<Rightarrow> (False, w)
      | (True, w) \<Rightarrow> enqueueEntries E base (entry base) 0 to w)"

definition Enqueue ::
  "'e host_scheme \<Rightarrow> string \<Rightarrow> string list \<Rightarrow> string \<Rightarrow> 'db world \<Rightarrow> bool \<times> 'db world" where
  "Enqueue E from to message w =
     (if to = [] then (False, w)
      else
        (case tryWrite E w of \<comment> \<open>\<^verbatim>\<open>os.MkdirAll\<close>\<close>
           (False, w) \<Rightarrow> (False, w)
         | (True, w) \<Rightarrow>
             enqueueAll E (\<lambda>base i recipient.
               \<lparr>qe_From = from, qe_To = [recipient], qe_MessagePath = base, qe_Notify = 0\<rparr>) to message w))"

section \<open>Delivery status notifications asked for\<close>

abbreviation DSNNotifyNever :: int where "DSNNotifyNever \<equiv> 1"
abbreviation DSNNotifySuccess :: int where "DSNNotifySuccess \<equiv> 2"
abbreviation DSNNotifyFailure :: int where "DSNNotifyFailure \<equiv> 4"
abbreviation DSNNotifyDelay :: int where "DSNNotifyDelay \<equiv> 8"

unbundle bit_operations_syntax

definition notifyToken :: "string \<Rightarrow> int \<Rightarrow> int" where
  "notifyToken token notify =
     (let t = trim_space token in
      if t = ''NEVER'' then notify OR DSNNotifyNever
      else if t = ''SUCCESS'' then notify OR DSNNotifySuccess
      else if t = ''FAILURE'' then notify OR DSNNotifyFailure
      else if t = ''DELAY'' then notify OR DSNNotifyDelay
      else notify)"

definition ParseDSNNotify :: "string \<Rightarrow> int" where
  "ParseDSNNotify v =
     (if v = [] then 0 else fold notifyToken (split_byte (CHR '','') (to_upper v)) 0)"

definition HasNotify :: "int \<Rightarrow> int \<Rightarrow> bool" where
  "HasNotify n notify = (n AND notify \<noteq> 0)"

text \<open>\<^verbatim>\<open>EnqueueWithDSN\<close>; the parameters that only reach the text of a report (RET,
  ENVID, ORCPT) are left out.\<close>

definition EnqueueWithDSN ::
  "'e host_scheme \<Rightarrow> string \<Rightarrow> string list \<Rightarrow> string list \<Rightarrow> string \<Rightarrow> 'db world \<Rightarrow> bool \<times> 'db world" where
  "EnqueueWithDSN E from to notify message w =
     (if to = [] then (False, w)
      else
        enqueueAll E (\<lambda>base i recipient.
          \<lparr>qe_From = from, qe_To = [recipient], qe_MessagePath = base,
           qe_Notify = (if i < length notify \<and> notify ! i \<noteq> [] then ParseDSNNotify (notify ! i) else 0)\<rparr>)
          to message w)"

section \<open>Message blobs\<close>

definition validatePathComponent :: "string \<Rightarrow> bool" where
  "validatePathComponent s =
     (\<not> (s = [] \<or> s = ''.'' \<or> s = ''..'' \<or> (\<exists>c \<in> set s. c = CHR ''/'' \<or> c = BSLASH)))"

definition is_hex :: "char \<Rightarrow> bool" where
  "is_hex c =
     (is_digit c \<or> (97 \<le> byte c \<and> byte c \<le> 102) \<or> (65 \<le> byte c \<and> byte c \<le> 70))"

definition is_base64url :: "char \<Rightarrow> bool" where
  "is_base64url c =
     (is_digit c \<or> (97 \<le> byte c \<and> byte c \<le> 122) \<or> (65 \<le> byte c \<and> byte c \<le> 90) \<or>
      c = CHR ''-'' \<or> c = CHR ''_'')"

definition isValidMessageID :: "string \<Rightarrow> bool" where
  "isValidMessageID messageID =
     (if length messageID < 64 \<or> length messageID > 256 then False
      else if \<not> list_all is_hex (take 64 messageID) then False
      else
        (case drop 64 messageID of
           [] \<Rightarrow> True
         | c # rest \<Rightarrow>
             if c \<noteq> CHR ''_'' then False
             else
               (let uid = takeWhile (\<lambda>c. c \<noteq> CHR ''_'') rest in
                if length uid = length rest \<or> uid = [] \<or> length uid + 1 = length rest then False
                else list_all is_digit uid \<and> list_all is_base64url (drop (length uid + 1) rest))))"

definition maxMessageSize :: nat where "maxMessageSize = 100 * 1024 * 1024"

text \<open>A blob of the right size is left as it is, one of another size replaced.\<close>

definition StoreMessage :: "'e host_scheme \<Rightarrow> string \<Rightarrow> string \<Rightarrow> 'db world \<Rightarrow> string option \<times> 'db world" where
  "StoreMessage E user data w =
     (if \<not> validatePathComponent user then (None, w)
      else if length data > maxMessageSize then (None, w)
      else
        (let messageID = e_sha256 E data in
         case tryWrite E w of
           (False, w) \<Rightarrow> (None, w)
         | (True, w) \<Rightarrow>
             (case fmlookup (w_blobs w) (user, messageID) of
                Some old \<Rightarrow>
                  if length old = length data then (Some messageID, w)
                  else (Some messageID, w\<lparr>w_blobs := fmupd (user, messageID) data (w_blobs w)\<rparr>)
              | None \<Rightarrow> (Some messageID, w\<lparr>w_blobs := fmupd (user, messageID) data (w_blobs w)\<rparr>))))"

definition MessageExists :: "'db world \<Rightarrow> string \<Rightarrow> string \<Rightarrow> bool" where
  "MessageExists w user messageID =
     (validatePathComponent user \<and> isValidMessageID messageID \<and>
      fmlookup (w_blobs w) (user, messageID) \<noteq> None)"

definition DeleteMessageUnchecked :: "'e host_scheme \<Rightarrow> string \<Rightarrow> string \<Rightarrow> 'db world \<Rightarrow> 'db world" where
  \<comment> \<open>the caller only logs its error\<close>
  "DeleteMessageUnchecked E user messageID w =
     (if \<not> validatePathComponent user \<or> \<not> isValidMessageID messageID then w
      else
        (case tryWrite E w of
           (False, w) \<Rightarrow> w
         | (True, w) \<Rightarrow> w\<lparr>w_blobs := fmdrop (user, messageID) (w_blobs w)\<rparr>))"

section \<open>Mailboxes\<close>

abbreviation maxUint32 :: nat where "maxUint32 \<equiv> 4294967295"

definition CreateMailbox :: "'e host_scheme \<Rightarrow> string \<Rightarrow> string \<Rightarrow> 'db world \<Rightarrow> 'db world" where
  \<comment> \<open>the caller only logs its error\<close>
  "CreateMailbox E user mailbox w =
     (case tryWrite E w of
        (False, w) \<Rightarrow> w
      | (True, w) \<Rightarrow>
          (case fmlookup (w_uidnext w) (user, mailbox) of
             None \<Rightarrow> w\<lparr>w_uidnext := fmupd (user, mailbox) 1 (w_uidnext w)\<rparr>
           | Some _ \<Rightarrow> w))"

definition GetNextUID :: "'e host_scheme \<Rightarrow> string \<Rightarrow> string \<Rightarrow> 'db world \<Rightarrow> nat option \<times> 'db world" where
  "GetNextUID E user mailbox w =
     (case tryWrite E w of
        (False, w) \<Rightarrow> (None, w)
      | (True, w) \<Rightarrow>
          (let stored = (case fmlookup (w_uidnext w) (user, mailbox) of None \<Rightarrow> 0 | Some n \<Rightarrow> n);
               uid = (if stored = 0 then 1 else stored)
           in if uid = maxUint32 then (None, w)
              else (Some uid, w\<lparr>w_uidnext := fmupd (user, mailbox) (uid + 1) (w_uidnext w)\<rparr>)))"

fun normFlagsFrom :: "string list \<Rightarrow> string list \<Rightarrow> string list" where
  "normFlagsFrom [] out = out"
| "normFlagsFrom (f # fs) out =
     (if f = [] \<or> to_lower f \<in> set (map to_lower out) then normFlagsFrom fs out
      else normFlagsFrom fs (out @ [f]))"

definition normalizeFlags :: "string list \<Rightarrow> string list" where
  "normalizeFlags flags = normFlagsFrom flags []"

definition StoreMessageMetadata ::
  "'e host_scheme \<Rightarrow> string \<Rightarrow> string \<Rightarrow> nat \<Rightarrow> metadata \<Rightarrow> 'db world \<Rightarrow> bool \<times> 'db world" where
  "StoreMessageMetadata E user mailbox uid meta w =
     (case tryWrite E w of
        (False, w) \<Rightarrow> (False, w)
      | (True, w) \<Rightarrow>
          (let w = (case fmlookup (w_uidnext w) (user, mailbox) of
                      Some cur \<Rightarrow>
                        if uid \<noteq> maxUint32 \<and> cur \<le> uid
                        then w\<lparr>w_uidnext := fmupd (user, mailbox) (uid + 1) (w_uidnext w)\<rparr> else w
                    | None \<Rightarrow> w)
           in (True, w\<lparr>w_rows := fmupd ((user, mailbox), uid)
                        (meta\<lparr>md_Flags := normalizeFlags (md_Flags meta)\<rparr>) (w_rows w)\<rparr>)))"

end
