(* ===== verification/Filters.thy ===== *)
theory Filters
  imports Sieve_Compile
begin

text \<open>
  Webmail filters compiled to Sieve scripts (\<^verbatim>\<open>src/internal/api/filters_sieve.go\<close>
  and the limits of \<^verbatim>\<open>src/internal/api/filters.go\<close>).

  \<open>addressName\<close> is the display name of what \<^verbatim>\<open>mail.ParseAddress\<close> returns, beside
  the address itself in the record of library functions. \<^verbatim>\<open>strings.ReplaceAll\<close>
  with a one-byte pattern is a map over the bytes, and two of them in a row are
  one map as long as the second does not see what the first put in: the
  backslashes and wildcards of \<open>sieveQuote\<close> and \<open>sieveGlobEscape\<close>.
\<close>

record filterCondition =
  fc_Field :: string
  fc_Operator :: string
  fc_Value :: string
  fc_HeaderName :: string

record filterAction =
  fa_Type :: string
  fa_Target :: string
  fa_ForwardTo :: string

record emailFilter =
  ef_ID :: string
  ef_Enabled :: bool
  ef_MatchAll :: bool
  ef_Conditions :: "filterCondition list"
  ef_Actions :: "filterAction list"
  ef_Priority :: int
  ef_CreatedAt :: int

section \<open>The order of the filters\<close>

definition filterBefore :: "emailFilter \<Rightarrow> emailFilter \<Rightarrow> bool" where
  "filterBefore a b =
     (if ef_Priority a \<noteq> ef_Priority b then ef_Priority a < ef_Priority b
      else if ef_CreatedAt a \<noteq> ef_CreatedAt b then ef_CreatedAt a < ef_CreatedAt b
      else str_compare (ef_ID a) (ef_ID b) < 0)"

text \<open>\<^verbatim>\<open>sort.SliceStable\<close> as insertion from the right: an element goes before the
  first one that is not strictly before it.\<close>

fun insertFilter :: "emailFilter \<Rightarrow> emailFilter list \<Rightarrow> emailFilter list" where
  "insertFilter f [] = [f]"
| "insertFilter f (g # gs) = (if filterBefore g f then g # insertFilter f gs else f # g # gs)"

definition renumber :: "emailFilter list \<Rightarrow> emailFilter list" where
  "renumber fs = map (\<lambda>(i, f). f\<lparr>ef_Priority := int i\<rparr>) (enumerate 0 fs)"

definition LoadUserFilters :: "emailFilter list \<Rightarrow> emailFilter list" where
  \<comment> \<open>from the rows of the bucket that decode, in key order\<close>
  "LoadUserFilters rows = renumber (foldr insertFilter rows [])"

section \<open>Quoting\<close>

definition replace_byte :: "char \<Rightarrow> string \<Rightarrow> string \<Rightarrow> string" where
  "replace_byte c new s = concat (map (\<lambda>a. if a = c then new else [a]) s)"

definition sieveQuote :: "string \<Rightarrow> string" where
  "sieveQuote s =
     [DQUOTE] @ replace_byte DQUOTE [BSLASH, DQUOTE] (replace_byte BSLASH [BSLASH, BSLASH] s) @ [DQUOTE]"

definition sieveGlobEscape :: "string \<Rightarrow> string" where
  "sieveGlobEscape s =
     replace_byte (CHR ''?'') [BSLASH, CHR ''?'']
       (replace_byte (CHR ''*'') [BSLASH, CHR ''*''] (replace_byte BSLASH [BSLASH, BSLASH] s))"

section \<open>Conditions and actions\<close>

definition maxSievePatternLen :: nat where "maxSievePatternLen = 1024"

definition headerNameRE :: "string \<Rightarrow> bool" where
  \<comment> \<open>\<^verbatim>\<open>^[!-9;-~]+$\<close>\<close>
  "headerNameRE s =
     (s \<noteq> [] \<and> list_all (\<lambda>c. 33 \<le> byte c \<and> byte c \<le> 57 \<or> 59 \<le> byte c \<and> byte c \<le> 126) s)"

definition conditionMatch :: "golib \<Rightarrow> filterCondition \<Rightarrow> (string \<times> string) option" where
  \<comment> \<open>the match type and key of a condition\<close>
  "conditionMatch lib c =
     (if fc_Operator c = ''contains'' then Some ('':contains'', fc_Value c)
      else if fc_Operator c = ''equals'' then Some ('':is'', fc_Value c)
      else if fc_Operator c = ''startsWith'' then Some ('':matches'', sieveGlobEscape (fc_Value c) @ ''*'')
      else if fc_Operator c = ''endsWith'' then Some ('':matches'', ''*'' @ sieveGlobEscape (fc_Value c))
      else if fc_Operator c = ''matches'' then
        (if regexp_compile lib (fc_Value c) then Some ('':regex'', fc_Value c) else None)
      else None)"

definition filterSieveCondition :: "golib \<Rightarrow> filterCondition \<Rightarrow> string" where
  "filterSieveCondition lib c =
     (if fc_Value c = [] then []
      else
        (case conditionMatch lib c of
           None \<Rightarrow> []
         | Some (match, key) \<Rightarrow>
             if (match = '':matches'' \<or> match = '':regex'') \<and> length key > maxSievePatternLen then []
             else
               (let test = (if (fc_Field c = ''from'' \<or> fc_Field c = ''to'') \<and>
                               (match = '':is'' \<or> match = '':matches'')
                            then ''address :all'' else ''header'')
                in if fc_Field c = ''from'' then test @ '' '' @ match @ '' \"from\" '' @ sieveQuote key
                   else if fc_Field c = ''to'' then test @ '' '' @ match @ '' [\"to\", \"cc\"] '' @ sieveQuote key
                   else if fc_Field c = ''subject'' then ''header '' @ match @ '' \"subject\" '' @ sieveQuote key
                   else if fc_Field c = ''header'' then
                     (if \<not> headerNameRE (fc_HeaderName c) then []
                      else ''header '' @ match @ '' '' @ sieveQuote (fc_HeaderName c) @ '' '' @ sieveQuote key)
                   else if fc_Field c = ''body'' then ''body :text '' @ match @ '' '' @ sieveQuote key
                   else [])))"

definition validFilterFolder :: "string \<Rightarrow> bool" where
  "validFilterFolder name =
     (if trim_space name = [] \<or> length name > 255 then False
      else \<not> (\<exists>r \<in> set (runes name). r < 32 \<or> r = 127))"

definition filterSieveAction ::
  "golib \<Rightarrow> (string \<Rightarrow> string) \<Rightarrow> filterAction \<Rightarrow> string \<times> bool" where
  "filterSieveAction lib addressName a =
     (if fa_Type a = ''markRead'' then (''addflag '' @ [DQUOTE, BSLASH, BSLASH] @ ''Seen\";'', True)
      else if fa_Type a = ''flag'' then (''addflag '' @ [DQUOTE, BSLASH, BSLASH] @ ''Flagged\";'', True)
      else if fa_Type a = ''move'' then
        (if equal_fold (fa_Target a) ''INBOX'' then (''keep;'', False)
         else if \<not> validFilterFolder (fa_Target a) then ([], False)
         else (''fileinto '' @ sieveQuote (fa_Target a) @ '';'', False))
      else if fa_Type a = ''copy'' then
        (if equal_fold (fa_Target a) ''INBOX'' \<or> \<not> validFilterFolder (fa_Target a) then ([], False)
         else (''fileinto :copy '' @ sieveQuote (fa_Target a) @ '';'', False))
      else if fa_Type a = ''delete'' then (''fileinto \"Trash\";'', False)
      else if fa_Type a = ''markSpam'' then (''fileinto \"Junk\";'', False)
      else if fa_Type a = ''forward'' then
        (case mail_ParseAddress lib (fa_ForwardTo a) of
           None \<Rightarrow> ([], False)
         | Some addr \<Rightarrow>
             if addressName (fa_ForwardTo a) \<noteq> [] \<or> \<not> str_contains addr ''@'' then ([], False)
             else (''redirect :copy '' @ sieveQuote addr @ '';'', False))
      else ([], False))"

section \<open>Scripts\<close>

definition filterSieveTest :: "golib \<Rightarrow> emailFilter \<Rightarrow> string" where
  "filterSieveTest lib f =
     (let tests = filter (\<lambda>t. t \<noteq> []) (map (filterSieveCondition lib) (ef_Conditions f)) in
      if tests = [] \<or> (ef_MatchAll f \<and> length tests \<noteq> length (ef_Conditions f)) then []
      else if length tests = 1 then hd tests
      else (if ef_MatchAll f then ''allof'' else ''anyof'') @ ''('' @ str_join tests '', '' @ '')'')"

definition sieveIf :: "string \<Rightarrow> string list \<Rightarrow> string" where
  "sieveIf test cmds =
     ''if '' @ test @ '' {'' @ [LF] @ ''  '' @ str_join cmds ([LF] @ ''  '') @ [LF] @ ''}'' @ [LF]"

definition filterSieveRequires :: string where
  "filterSieveRequires = ''require [\"fileinto\", \"copy\", \"imap4flags\", \"body\", \"regex\"];''"

definition filterCmds ::
  "golib \<Rightarrow> (string \<Rightarrow> string) \<Rightarrow> bool \<Rightarrow> emailFilter \<Rightarrow> string list" where
  \<comment> \<open>the flag commands or the folder commands of a filter\<close>
  "filterCmds lib addressName flag f =
     map fst (filter (\<lambda>(cmd, isFlag). cmd \<noteq> [] \<and> isFlag = flag)
       (map (filterSieveAction lib addressName) (ef_Actions f)))"

definition filterRules ::
  "golib \<Rightarrow> (string \<Rightarrow> string) \<Rightarrow> bool \<Rightarrow> emailFilter list \<Rightarrow> string list" where
  "filterRules lib addressName flag filters =
     map (\<lambda>f. sieveIf (filterSieveTest lib f) (filterCmds lib addressName flag f))
       (filter (\<lambda>f. ef_Enabled f \<and> filterSieveTest lib f \<noteq> [] \<and> filterCmds lib addressName flag f \<noteq> [])
         filters)"

definition FiltersToSieve :: "golib \<Rightarrow> (string \<Rightarrow> string) \<Rightarrow> emailFilter list \<Rightarrow> string" where
  "FiltersToSieve lib addressName filters =
     (let flagRules = filterRules lib addressName True filters;
          folderRules = filterRules lib addressName False filters
      in if flagRules = [] \<and> folderRules = [] then []
         else filterSieveRequires @ [LF] @ concat (flagRules @ folderRules))"

section \<open>What the API accepts\<close>

definition validateCondition :: "golib \<Rightarrow> filterCondition \<Rightarrow> bool" where
  "validateCondition lib c =
     ((fc_Field c \<in> {''from'', ''to'', ''subject'', ''body''} \<or>
       fc_Field c = ''header'' \<and> headerNameRE (fc_HeaderName c)) \<and>
      (fc_Operator c \<in> {''contains'', ''equals'', ''startsWith'', ''endsWith''} \<or>
       fc_Operator c = ''matches'' \<and> regexp_compile lib (fc_Value c)) \<and>
      \<not> (fc_Value c \<noteq> [] \<and> filterSieveCondition lib c = []))"

definition validateAction :: "golib \<Rightarrow> (string \<Rightarrow> string) \<Rightarrow> filterAction \<Rightarrow> bool" where
  "validateAction lib addressName a =
     (fa_Type a \<in> {''markRead'', ''flag'', ''delete'', ''markSpam''} \<or>
      fa_Type a \<in> {''move'', ''copy''} \<and> validFilterFolder (fa_Target a) \<or>
      fa_Type a = ''forward'' \<and> fst (filterSieveAction lib addressName a) \<noteq> [])"

definition validateFilterRule ::
  "golib \<Rightarrow> (string \<Rightarrow> string) \<Rightarrow> filterCondition list \<Rightarrow> filterAction list \<Rightarrow> bool" where
  \<comment> \<open>whether the message it returns is empty\<close>
  "validateFilterRule lib addressName conditions actions =
     (list_all (validateCondition lib) conditions \<and> list_all (validateAction lib addressName) actions)"

definition validateFilterFields ::
  "golib \<Rightarrow> (string \<Rightarrow> string) \<Rightarrow> string \<Rightarrow> filterCondition list \<Rightarrow> filterAction list \<Rightarrow> bool" where
  "validateFilterFields lib addressName name conditions actions =
     (length name \<le> 255 \<and> length conditions \<le> 50 \<and> length actions \<le> 20 \<and>
      list_all (\<lambda>c. fc_Value c \<noteq> [] \<and> length (fc_Value c) \<le> 1000 \<and>
        \<not> (fc_Field c = ''header'' \<and> fc_HeaderName c = [])) conditions \<and>
      validateFilterRule lib addressName conditions actions)"

end
