(* ===== verification/Delivery.thy ===== *)
theory Delivery
  imports Mail_Store Filters
begin

text \<open>
  The delivery of a message to its recipients
  (\<^verbatim>\<open>src/internal/server/server_handlers.go\<close>, \<^verbatim>\<open>server_sieve_delivery.go\<close>,
  \<^verbatim>\<open>server_rcpt_route.go\<close>): routing through aliases and domains, the owner's Sieve
  script or webmail filters, account forwarding, storing with quota, relaying, and
  the settlement of the recipients that failed.

  The record \<open>senv\<close> extends the environment of \<open>Mail_Store\<close> by what a server is set
  up with and by the library functions: \<open>s_header\<close> is the header of
  \<^verbatim>\<open>mail.ReadMessage\<close>, \<open>s_expired\<close> the clock of a script run, \<open>s_filters\<close> the filter
  rows of a user (\<open>None\<close>: no database or a read error), \<open>s_dsn\<close> the text of a failure
  report (or an error), \<open>s_folderFault\<close> the failures tests inject per folder,
  \<open>s_autoReply\<close> what a vacation action sends. What happens beside the delivery
  itself (webhooks, push, metrics, search index, notifications, the account's own
  vacation settings, which a background task answers) is left out, and with it the
  field \<^verbatim>\<open>vacationSent\<close> of \<^verbatim>\<open>copyState\<close>; so are tracing and logging.
\<close>

section \<open>Addresses and routes\<close>

definition parseEmail :: "string \<Rightarrow> string \<times> string" where
  "parseEmail email =
     (case last_index_byte email (CHR ''@'') of
        None \<Rightarrow> (email, [])
      | Some i \<Rightarrow> (take i email, drop (i + 1) email))"

definition normalizeRcpt :: "string \<Rightarrow> string \<times> string" where
  "normalizeRcpt addr =
     (case parseEmail (trim_space addr) of
        (user, domain) \<Rightarrow> (to_lower user, trim_right (to_lower domain) {CHR ''.''}))"

definition maxAliasHops :: nat where "maxAliasHops = 10"

datatype route =
    LocalBox string string
  | External string
  | AliasLoop string

text \<open>The round of \<^verbatim>\<open>routeRecipient\<close> for an address in an active domain: the target
  of its alias, of the alias of its base address, or the mailbox itself.\<close>

definition aliasTarget :: "'db world \<Rightarrow> string \<Rightarrow> string \<Rightarrow> string \<times> string" where
  \<comment> \<open>the target (empty for none) and the user the mailbox falls back to\<close>
  "aliasTarget w user domain =
     (let target = ResolveAlias w domain user in
      if target \<noteq> [] then (target, user)
      else
        (case cut_byte (CHR ''+'') user of
           None \<Rightarrow> ([], user)
         | Some base \<Rightarrow>
             if base \<noteq> [] \<and> GetAccount w domain user = None then
               (let t = ResolveAlias w domain base in if t \<noteq> [] then (t, user) else ([], base))
             else ([], user)))"

function routeFrom :: "'db world \<Rightarrow> nat \<Rightarrow> string list \<Rightarrow> string \<Rightarrow> string \<Rightarrow> route" where
  "routeFrom w hop seen user domain =
     (let addr = user @ ''@'' @ domain in
      case GetDomain w domain of
        None \<Rightarrow> External addr
      | Some d \<Rightarrow>
          if \<not> dm_IsActive d then External addr
          else if addr \<in> set seen \<or> hop > maxAliasHops then AliasLoop addr
          else
            (case aliasTarget w user domain of
               (target, user') \<Rightarrow>
                 if target \<noteq> [] \<and> fst (normalizeRcpt target) \<noteq> [] \<and> snd (normalizeRcpt target) \<noteq> []
                 then routeFrom w (hop + 1) (addr # seen) (fst (normalizeRcpt target)) (snd (normalizeRcpt target))
                 else LocalBox user' domain))"
  by pat_completeness auto
termination
  by (relation "measure (\<lambda>(_, hop, _, _, _). Suc maxAliasHops - hop)") auto

declare routeFrom.simps [simp del]

definition routeRecipient :: "'db world \<Rightarrow> string \<Rightarrow> route" where
  "routeRecipient w rcpt = (case normalizeRcpt rcpt of (user, domain) \<Rightarrow> routeFrom w 0 [] user domain)"

definition routesToMailbox :: "'db world \<Rightarrow> string \<Rightarrow> string \<Rightarrow> bool" where
  "routesToMailbox w addr mailbox =
     (let trim = (\<lambda>s. trim_right (trim_left s {CHR ''<'', CHR ''>'', SP}) {CHR ''<'', CHR ''>'', SP});
          addr = trim addr; mailbox = trim mailbox
      in equal_fold addr mailbox \<or>
         (case routeRecipient w addr of
            LocalBox u d \<Rightarrow> equal_fold (u @ ''@'' @ d) mailbox
          | _ \<Rightarrow> False))"

definition senderAllowed :: "'db world \<Rightarrow> string \<Rightarrow> string \<Rightarrow> bool" where
  "senderAllowed w username from =
     (if trim_space from = [] then True
      else if normalizeRcpt from = normalizeRcpt username then True
      else
        (case routeRecipient w from of
           LocalBox u d \<Rightarrow> (u, d) = normalizeRcpt username
         | _ \<Rightarrow> False))"

definition rcptDedupKey :: "route \<Rightarrow> string" where
  "rcptDedupKey r =
     (case r of
        External external \<Rightarrow> ''x:'' @ to_lower external
      | LocalBox user domain \<Rightarrow> ''l:'' @ to_lower user @ ''@'' @ to_lower domain
      | AliasLoop _ \<Rightarrow> [])"

section \<open>Header fields\<close>

text \<open>\<^verbatim>\<open>forEachHeaderField\<close>: the names and lines it calls its function with, the lines
  of \<open>data\<close> up to the first empty one.\<close>

definition fieldOf :: "string \<Rightarrow> (string \<times> string) list" where
  "fieldOf line0 =
     (let line = trim_suffix line0 [CR] in
      if line \<noteq> [] \<and> hd line \<noteq> SP \<and> hd line \<noteq> HT then
        (case cut_byte (CHR '':'') line of
           None \<Rightarrow> []
         | Some name \<Rightarrow> if name \<noteq> [] then [(trim_right name {SP, HT}, line0)] else [])
      else [])"

fun fieldsIn :: "string list \<Rightarrow> (string \<times> string) list" where
  "fieldsIn [] = []"
| "fieldsIn (line # ls) =
     (if trim_suffix line [CR] = [] then [] else fieldOf line @ fieldsIn ls)"

definition headerFields :: "string \<Rightarrow> (string \<times> string) list" where
  "headerFields data = fieldsIn (split_byte LF data)"

definition fieldValue :: "string \<Rightarrow> string" where
  \<comment> \<open>\<^verbatim>\<open>line[strings.IndexByte(line, ':')+1:]\<close>\<close>
  "fieldValue line = tl (dropWhile (\<lambda>c. c \<noteq> CHR '':'') line)"

definition hasSpamVerdict :: "string \<Rightarrow> bool" where
  "hasSpamVerdict data =
     (\<exists>(name, line) \<in> set (headerFields data).
        equal_fold name ''X-Spam-Status'' \<and>
        (let v = trim_space (fieldValue line) in length v \<ge> 3 \<and> equal_fold (take 3 v) ''yes''))"

definition maxReceivedHops :: nat where "maxReceivedHops = 100"

definition tooManyHops :: "string \<Rightarrow> bool" where
  \<comment> \<open>\<^verbatim>\<open>checkHopCount\<close> returns its error\<close>
  "tooManyHops data =
     (length (filter (\<lambda>(name, _). equal_fold name ''Received'') (headerFields data)) > maxReceivedHops)"

definition autoReplyAllowed :: "string \<Rightarrow> string \<Rightarrow> bool" where
  "autoReplyAllowed from data =
     (from \<noteq> [] \<and>
      list_all (\<lambda>(name, line).
        let v = to_lower (trim_space (fieldValue line)) in
        if equal_fold name ''Auto-Submitted'' then
          trim_space (case cut_byte (CHR '';'') v of None \<Rightarrow> v | Some x \<Rightarrow> x) = ''no''
        else if equal_fold name ''Precedence'' then v \<notin> {''bulk'', ''list'', ''junk''}
        else \<not> (length name \<ge> 5 \<and> equal_fold (take 5 name) ''List-'')) (headerFields data))"

section \<open>The header lines delivery adds\<close>

definition addMailLoopHeader :: "string \<Rightarrow> string \<Rightarrow> string" where
  "addMailLoopHeader data addr =
     (case str_index data [CR, LF, CR, LF] of
        Some i \<Rightarrow> take (i + 2) data @ ''X-Mail-Loop: '' @ addr @ [CR, LF] @ drop (i + 2) data
      | None \<Rightarrow>
          (case str_index data [LF, LF] of
             Some i \<Rightarrow> take (i + 1) data @ ''X-Mail-Loop: '' @ addr @ [LF] @ drop (i + 1) data
           | None \<Rightarrow> data))"

text \<open>\<^verbatim>\<open>addReturnPath\<close>: the lines of the header, each with its line end, without the
  old Return-Path field and its continuation lines. \<^verbatim>\<open>strings.Map\<close> also rewrites
  invalid UTF-8 in the address, which the model leaves alone.\<close>

fun lines_of :: "string \<Rightarrow> string list" where
  "lines_of [] = []"
| "lines_of (c # s) =
     (if c = LF then [LF] # lines_of s
      else (case lines_of s of [] \<Rightarrow> [[c]] | l # ls \<Rightarrow> (c # l) # ls))"

fun dropReturnPath :: "string list \<Rightarrow> bool \<Rightarrow> string" where
  "dropReturnPath [] skipping = []"
| "dropReturnPath (line # ls) skipping =
     (if line \<noteq> [] \<and> (hd line = SP \<or> hd line = HT)
      then (if skipping then [] else line) @ dropReturnPath ls skipping
      else
        (let skipping = (length line \<ge> 12 \<and> equal_fold (take 12 line) ''Return-Path:'')
         in (if skipping then [] else line) @ dropReturnPath ls skipping))"

definition headerEnd :: "string \<Rightarrow> nat" where
  "headerEnd data =
     (let e = (case str_index data [CR, LF, CR, LF] of Some i \<Rightarrow> i + 2 | None \<Rightarrow> length data)
      in case str_index data [LF, LF] of
           Some j \<Rightarrow> if j + 1 < e then j + 1 else e
         | None \<Rightarrow> e)"

definition addReturnPath :: "string \<Rightarrow> string \<Rightarrow> string" where
  "addReturnPath data from =
     (let from = filter (\<lambda>c. c \<notin> {CR, LF, CHR ''<'', CHR ''>''}) from; e = headerEnd data in
      ''Return-Path: <'' @ from @ ''>'' @ [CR, LF] @
      dropReturnPath (lines_of (take e data)) False @ drop e data)"

section \<open>Server environment\<close>

datatype delivery_error =
    ErrNoUser
  | ErrMailboxFull
  | ErrStore
  | ErrMetadata
  | ErrQueue
  | ErrDSN
  | ErrFault
  | ErrRoute
  | ErrTooManyHops
  | ErrStopping
  | ErrFailed "delivery_error list"

record rcptFailure =
  rf_rcpt :: string
  rf_notify :: string
  rf_err :: delivery_error
  rf_diag :: string

record 'db senv = host +
  s_lib :: "'db mlib"
  s_bolt :: "'db option"
  s_expired :: "nat \<Rightarrow> bool"
  s_header :: "string \<Rightarrow> (string \<times> string list) list option"
  s_addressName :: "string \<Rightarrow> string"
  s_filters :: "string \<Rightarrow> emailFilter list option"
  s_dsn :: "rcptFailure \<Rightarrow> string \<Rightarrow> string \<Rightarrow> string option"
  s_folderFault :: "string \<Rightarrow> bool"
  s_autoReply :: "string \<Rightarrow> string \<Rightarrow> string \<Rightarrow> vacation \<Rightarrow> string"
  s_now :: "nat \<Rightarrow> int"
  s_stopping :: bool

definition getMailLoopHeaders :: "'db senv \<Rightarrow> string \<Rightarrow> string list" where
  "getMailLoopHeaders E data =
     (if data = [] then []
      else
        (case s_header E data of
           None \<Rightarrow> []
         | Some h \<Rightarrow> (case map_of h ''X-Mail-Loop'' of None \<Rightarrow> [] | Some vs \<Rightarrow> vs)))"

section \<open>Local delivery\<close>

record copyState =
  cs_forwardHandled :: bool
  cs_dropLocal :: bool
  cs_flags :: "string list"

text \<open>The loop over the addresses of \<^verbatim>\<open>ForwardTo\<close>: how many were queued, and whether
  one failed.\<close>

fun forwardAll ::
  "'db senv \<Rightarrow> string \<Rightarrow> string \<Rightarrow> string list \<Rightarrow> nat \<times> bool \<Rightarrow> 'db world \<Rightarrow> (nat \<times> bool) \<times> 'db world" where
  "forwardAll E email data [] st w = (st, w)"
| "forwardAll E email data (fwd # fs) (n, failed) w =
     (let fwd = trim_space fwd in
      if fwd = [] then forwardAll E email data fs (n, failed) w
      else if \<not> e_hasQueue E then forwardAll E email data fs (n, True) w
      else
        (case Enqueue E email [fwd] data w of
           (False, w) \<Rightarrow> forwardAll E email data fs (n, True) w
         | (True, w) \<Rightarrow> forwardAll E email data fs (n + 1, failed) w))"

definition forwardMail ::
  "'db senv \<Rightarrow> account \<Rightarrow> string \<Rightarrow> string \<Rightarrow> 'db world \<Rightarrow> bool \<times> 'db world" where
  \<comment> \<open>the forward of an account; whether it consumed the message\<close>
  "forwardMail E account email data w =
     (let looped = (\<exists>loopAddr \<in> set (getMailLoopHeaders E data). equal_fold loopAddr email);
          dataWithLoop = addMailLoopHeader data email
      in case (if looped then ((0, False), w)
               else forwardAll E email dataWithLoop (split_byte (CHR '','') (ac_ForwardTo account)) (0, False) w) of
           ((forwarded, forwardFailed), w) \<Rightarrow>
             (\<not> ac_ForwardKeepCopy account \<and> forwarded > 0 \<and> \<not> forwardFailed, w))"

text \<open>The metadata of a stored message: the UID and the row, or what \<^verbatim>\<open>metaFail\<close> takes
  back.\<close>

definition metaFail ::
  "'db senv \<Rightarrow> string \<Rightarrow> string \<Rightarrow> string \<Rightarrow> int \<Rightarrow> 'db world \<Rightarrow> delivery_error option \<times> 'db world" where
  "metaFail E user domain messageID reserved w =
     (if reserved > 0 then
        (let w = DeleteMessageUnchecked E (user @ ''@'' @ domain) messageID w
         in (Some ErrMetadata, snd (IncrementQuota E domain user (- reserved) w)))
      else (Some ErrMetadata, w))"

definition storeMetadata ::
  "'db senv \<Rightarrow> string \<Rightarrow> string \<Rightarrow> string \<Rightarrow> string \<Rightarrow> string \<Rightarrow> string list \<Rightarrow> int \<Rightarrow> 'db world \<Rightarrow>
   delivery_error option \<times> 'db world" where
  "storeMetadata E user domain folder data messageID flags reserved w =
     (let email = user @ ''@'' @ domain;
          w = (if folder \<noteq> ''INBOX'' then CreateMailbox E email folder w else w)
      in case GetNextUID E email folder w of
           (None, w) \<Rightarrow> metaFail E user domain messageID reserved w
         | (Some uid, w) \<Rightarrow>
             (case StoreMessageMetadata E email folder uid
                     \<lparr>md_MessageID = messageID, md_Flags = [BSLASH # ''Recent''] @ flags, md_Size = int (length data)\<rparr> w of
                (False, w) \<Rightarrow> metaFail E user domain messageID reserved w
              | (True, w) \<Rightarrow> (None, w)))"

definition storeLocal ::
  "'db senv \<Rightarrow> string \<Rightarrow> string \<Rightarrow> string \<Rightarrow> string \<Rightarrow> string list \<Rightarrow> 'db world \<Rightarrow>
   delivery_error option \<times> 'db world" where
  \<comment> \<open>the part of \<^verbatim>\<open>deliverLocalHop\<close> under the delivery lock; \<open>data\<close> has its Return-Path\<close>
  "storeLocal E user domain folder data flags w =
     (let email = user @ ''@'' @ domain in
      case GetAccount w domain user of
        None \<Rightarrow> (Some ErrNoUser, w)
      | Some acc2 \<Rightarrow>
          if \<not> ac_IsActive acc2 then (Some ErrNoUser, w)
          else
            (let reserved = (if MessageExists w email (e_sha256 E data) then 0 else int (length data)) in
             case (if reserved > 0 then IncrementQuota E domain user reserved w else (True, w)) of
               (False, w) \<Rightarrow> (Some ErrMailboxFull, w)
             | (True, w) \<Rightarrow>
                 (case StoreMessage E email data w of
                    (None, w) \<Rightarrow>
                      (Some ErrStore,
                       if reserved > 0 then snd (IncrementQuota E domain user (- reserved) w) else w)
                  | (Some messageID, w) \<Rightarrow>
                      if e_hasStorage E
                      then storeMetadata E user domain folder data messageID flags reserved w
                      else (None, w))))"

text \<open>The forward, then the local copy. Without a \<^verbatim>\<open>copyState\<close> (\<open>None\<close>) every call
  forwards; with one, only the first copy of a message does.\<close>

definition deliverToAccount ::
  "'db senv \<Rightarrow> account \<Rightarrow> string \<Rightarrow> string \<Rightarrow> string \<Rightarrow> string \<Rightarrow> copyState option \<Rightarrow> string \<Rightarrow> 'db world \<Rightarrow>
   delivery_error option \<times> copyState option \<times> 'db world" where
  "deliverToAccount E account user domain from data st folder w =
     (let email = user @ ''@'' @ domain;
          flags = (case st of None \<Rightarrow> [] | Some s \<Rightarrow> cs_flags s);
          keep = (\<lambda>st w. case storeLocal E user domain folder (addReturnPath data from) flags w of
                           (err, w) \<Rightarrow> (err, st, w))
      in case st of
           Some s \<Rightarrow>
             if cs_forwardHandled s then (if cs_dropLocal s then (None, st, w) else keep st w)
             else if ac_ForwardTo account \<noteq> [] \<and> folder \<noteq> ''Junk'' then
               (case forwardMail E account email data w of
                  (consumed, w) \<Rightarrow>
                    (let st = Some (s\<lparr>cs_forwardHandled := True, cs_dropLocal := consumed\<rparr>) in
                     if consumed then (None, st, w) else keep st w))
             else keep st w
         | None \<Rightarrow>
             if ac_ForwardTo account \<noteq> [] \<and> folder \<noteq> ''Junk'' then
               (case forwardMail E account email data w of
                  (consumed, w) \<Rightarrow> if consumed then (None, st, w) else keep st w)
             else keep st w)"

function deliverLocalHop ::
  "'db senv \<Rightarrow> string \<Rightarrow> string \<Rightarrow> string \<Rightarrow> string \<Rightarrow> bool \<Rightarrow> copyState option \<Rightarrow> string \<Rightarrow> 'db world \<Rightarrow>
   delivery_error option \<times> copyState option \<times> 'db world" where
  "deliverLocalHop E user0 domain0 from data allowCatchAll st targetFolder w =
     (let user = to_lower user0;
          domain = trim_right (to_lower domain0) {CHR ''.''};
          folder = (if targetFolder \<noteq> [] then targetFolder else ''INBOX'');
          deliver = (\<lambda>account. deliverToAccount E account user domain from data st folder w);
          missing = (if allowCatchAll then
                       (case GetDomain w domain of
                          None \<Rightarrow> (Some ErrNoUser, st, w)
                        | Some d \<Rightarrow>
                            if dm_CatchAllTarget d \<noteq> [] \<and> fst (normalizeRcpt (dm_CatchAllTarget d)) \<noteq> [] \<and>
                               snd (normalizeRcpt (dm_CatchAllTarget d)) \<noteq> []
                            then deliverLocalHop E (fst (normalizeRcpt (dm_CatchAllTarget d)))
                                   (snd (normalizeRcpt (dm_CatchAllTarget d))) from data False st targetFolder w
                            else (Some ErrNoUser, st, w))
                     else (Some ErrNoUser, st, w))
      in case GetAccount w domain user of
           None \<Rightarrow> missing
         | Some account \<Rightarrow> if ac_IsActive account then deliver account else missing)"
  by pat_completeness auto
termination
  by (relation "measure (\<lambda>(_, _, _, _, _, allowCatchAll, _, _, _). if allowCatchAll then 1 else 0)") auto

declare deliverLocalHop.simps [simp del]

definition deliverLocalFor ::
  "'db senv \<Rightarrow> string \<Rightarrow> string \<Rightarrow> string \<Rightarrow> string \<Rightarrow> string \<Rightarrow> 'db world \<Rightarrow> delivery_error option \<times> 'db world" where
  "deliverLocalFor E user domain from data folder w =
     (case deliverLocalHop E user domain from data True None folder w of (err, _, w) \<Rightarrow> (err, w))"

end
