(* ===== verification/Sieve_Delivery.thy ===== *)
theory Sieve_Delivery
  imports Delivery
begin

text \<open>
  Delivery under the control of the mailbox owner's Sieve script or webmail
  filters (\<^verbatim>\<open>src/internal/server/server_sieve_delivery.go\<close>, the Sieve part of
  \<^verbatim>\<open>server_vacation.go\<close>), and the delivery of one message to all its recipients
  (\<^verbatim>\<open>deliverMessageToFolderDSN\<close>, \<^verbatim>\<open>deliverMessageWithSieve\<close>, \<^verbatim>\<open>settleDelivery\<close>,
  \<^verbatim>\<open>bounceFailedRecipients\<close> of \<^verbatim>\<open>server_handlers.go\<close>). The server has a Sieve manager, as \<^verbatim>\<open>New\<close> gives it one.
\<close>

section \<open>What a script decided\<close>

definition maxSieveRedirects :: nat where "maxSieveRedirects = 10"

record sieveOutcome =
  so_keep :: bool
  so_keepFlags :: "string list"
  so_folders :: "string list"
  so_folderFlags :: "(string, string list) fmap"
  so_redirects :: "string list"
  so_rejected :: bool
  so_rejectMsg :: string
  so_vacation :: "vacation option"

text \<open>The inner loop of \<^verbatim>\<open>mergeFlags\<close>.\<close>

fun addFlags :: "string list \<Rightarrow> string list \<Rightarrow> string list" where
  "addFlags flags [] = flags"
| "addFlags flags (f # fs) =
     (if \<exists>have' \<in> set flags. equal_fold have' f then addFlags flags fs
      else addFlags (flags @ [f]) fs)"

definition mergeFlags :: "string list \<Rightarrow> string \<Rightarrow> string list" where
  "mergeFlags flags fs = addFlags flags (str_fields fs)"

definition flagsOf :: "(string, string list) fmap \<Rightarrow> string \<Rightarrow> string list" where
  "flagsOf m f = (case fmlookup m f of None \<Rightarrow> [] | Some fs \<Rightarrow> fs)"

definition outcomeStep :: "action \<Rightarrow> sieveOutcome \<times> bool \<Rightarrow> sieveOutcome \<times> bool" where
  \<comment> \<open>one round of the loop of \<^verbatim>\<open>sieveOutcomeOf\<close>; the flag is \<^verbatim>\<open>implicitKeep\<close>\<close>
  "outcomeStep a s =
     (case s of (out, implicitKeep) \<Rightarrow>
        (case a of
           KeepAction fs \<Rightarrow>
             (out\<lparr>so_keep := True, so_keepFlags := mergeFlags (so_keepFlags out) fs\<rparr>, implicitKeep)
         | FileintoAction folder _ fs \<Rightarrow>
             (out\<lparr>so_folders := so_folders out @ [folder],
                  so_folderFlags := fmupd folder (mergeFlags (flagsOf (so_folderFlags out) folder) fs)
                    (so_folderFlags out)\<rparr>, False)
         | RedirectAction addr _ \<Rightarrow> (out\<lparr>so_redirects := so_redirects out @ [addr]\<rparr>, False)
         | DiscardAction \<Rightarrow> (out, False)
         | RejectAction msg \<Rightarrow> (out\<lparr>so_rejected := True, so_rejectMsg := msg\<rparr>, False)
         | VacationAction v \<Rightarrow> (out\<lparr>so_vacation := Some v\<rparr>, implicitKeep)
         | StopAction \<Rightarrow> (out, implicitKeep)))"

definition noOutcome :: sieveOutcome where
  "noOutcome = \<lparr>so_keep = False, so_keepFlags = [], so_folders = [], so_folderFlags = fmempty,
     so_redirects = [], so_rejected = False, so_rejectMsg = [], so_vacation = None\<rparr>"

definition sieveOutcomeOf :: "action list \<Rightarrow> sieveOutcome" where
  "sieveOutcomeOf actions =
     (case fold outcomeStep actions (noOutcome, True) of
        (out, implicitKeep) \<Rightarrow> out\<lparr>so_keep := so_keep out \<or> implicitKeep\<rparr>)"

section \<open>Running the script or the filters\<close>

definition attachSieveStore :: "'db senv \<Rightarrow> 'db world \<Rightarrow> 'db world" where
  "attachSieveStore E w =
     (if s_bolt E = None \<or> StoreAttached (w_manager w) then w
      else w\<lparr>w_manager := snd (AttachStore (s_lib E) (s_bolt E) (w_manager w))\<rparr>)"

definition activeSieveUser :: "'db world \<Rightarrow> string \<Rightarrow> string" where
  \<comment> \<open>after \<open>attachSieveStore\<close>\<close>
  "activeSieveUser w mailbox =
     (if HasActiveScript (w_manager w) mailbox then mailbox
      else
        (let lower = to_lower mailbox in
         if lower \<noteq> mailbox \<and> HasActiveScript (w_manager w) lower then lower else []))"

definition sieveMessageContext :: "'db senv \<Rightarrow> string \<Rightarrow> string \<Rightarrow> string \<Rightarrow> message" where
  "sieveMessageContext E rcpt from data =
     \<lparr>mc_From = (if from = [] then ''<>'' else from), mc_To = [rcpt],
      mc_Headers = (case s_header E data of None \<Rightarrow> [] | Some h \<Rightarrow> h),
      mc_Body = data, mc_Size = int (length data), mc_BodyIsFullMessage = True\<rparr>"

definition runUserSieve ::
  "'db senv \<Rightarrow> 'db world \<Rightarrow> string \<Rightarrow> string \<Rightarrow> string \<Rightarrow> string \<Rightarrow> sieveOutcome option" where
  "runUserSieve E w scriptUser rcpt from data =
     Some (sieveOutcomeOf (ProcessMessage (s_lib E) (s_expired E) (w_manager w) scriptUser
       (sieveMessageContext E rcpt from data)))"

definition runUserFilters ::
  "'db senv \<Rightarrow> string \<Rightarrow> string \<Rightarrow> string \<Rightarrow> string \<Rightarrow> sieveOutcome option" where
  "runUserFilters E mailbox rcpt from data =
     (case s_filters E (to_lower mailbox) of
        None \<Rightarrow> None
      | Some rows \<Rightarrow>
          (let src = FiltersToSieve (ml_go (s_lib E)) (s_addressName E) (LoadUserFilters rows) in
           if src = [] then None
           else
             (case Compile (ml_go (s_lib E)) src of
                Inl err \<Rightarrow> None
              | Inr script \<Rightarrow>
                  (case Execute (ml_go (s_lib E)) (s_expired E) script (sieveMessageContext E rcpt from data) of
                     (_, Some err) \<Rightarrow> None
                   | (actions, None) \<Rightarrow> Some (sieveOutcomeOf actions)))))"

definition filtered ::
  "'db senv \<Rightarrow> 'db world \<Rightarrow> string \<Rightarrow> string \<Rightarrow> string \<Rightarrow> string \<Rightarrow> string \<Rightarrow> sieveOutcome option" where
  \<comment> \<open>the decision for a message: the script's, else the filters' unless it is spam\<close>
  "filtered E w mailbox rcpt from data folder =
     (let scriptUser = activeSieveUser w mailbox in
      if scriptUser \<noteq> [] then runUserSieve E w scriptUser rcpt from data
      else if folder \<noteq> ''Junk'' then runUserFilters E mailbox rcpt from data
      else None)"

section \<open>Redirects\<close>

definition redirectOK :: "'db senv \<Rightarrow> string \<Rightarrow> string option" where
  \<comment> \<open>the address of a redirect that may be queued\<close>
  "redirectOK E raw =
     (case mail_ParseAddress (ml_go (s_lib E)) raw of
        None \<Rightarrow> None
      | Some addr \<Rightarrow>
          if (\<exists>c \<in> set addr. c \<in> {CR, LF, CHR ''<'', CHR ''>''}) \<or> \<not> str_contains addr ''@'' then None
          else Some addr)"

fun redirectAll ::
  "'db senv \<Rightarrow> string \<Rightarrow> string \<Rightarrow> string list \<Rightarrow> bool \<Rightarrow> 'db world \<Rightarrow> bool \<times> 'db world" where
  "redirectAll E mailbox dataWithLoop [] failed w = (failed, w)"
| "redirectAll E mailbox dataWithLoop (raw # rs) failed w =
     (case redirectOK E raw of
        None \<Rightarrow> redirectAll E mailbox dataWithLoop rs True w
      | Some addr \<Rightarrow>
          if \<not> e_hasQueue E then redirectAll E mailbox dataWithLoop rs True w
          else
            (case Enqueue E mailbox [addr] dataWithLoop w of
               (False, w) \<Rightarrow> redirectAll E mailbox dataWithLoop rs True w
             | (True, w) \<Rightarrow> redirectAll E mailbox dataWithLoop rs failed w))"

definition redirectBySieve ::
  "'db senv \<Rightarrow> string \<Rightarrow> string \<Rightarrow> string list \<Rightarrow> 'db world \<Rightarrow> bool \<times> 'db world" where
  "redirectBySieve E mailbox data redirects w =
     (if redirects = [] then (False, w)
      else if \<exists>loopAddr \<in> set (getMailLoopHeaders E data). equal_fold loopAddr mailbox then (True, w)
      else redirectAll E mailbox (addMailLoopHeader data mailbox) (take maxSieveRedirects redirects)
             (length redirects > maxSieveRedirects) w)"

section \<open>Vacation replies of a script\<close>

definition normDedup :: "string \<Rightarrow> string" where
  "normDedup a0 =
     (let a = trim_space a0; a = trim_suffix (trim_prefix a ''<'') ''>''
      in to_lower (replace_byte (CHR ''|'') ''__'' a))"

definition vacationDedupKey :: "string \<Rightarrow> string \<Rightarrow> string" where
  "vacationDedupKey recipient sender = normDedup recipient @ ''|'' @ normDedup sender"

definition sieveVacationHandle :: "'db senv \<Rightarrow> vacation \<Rightarrow> string" where
  "sieveVacationHandle E va =
     (if vc_Handle va \<noteq> [] then ''h:'' @ vc_Handle va
      else
        (let q = go_quote (ml_go (s_lib E)) in
         ''d:'' @ take 32 (e_sha256 E (q (vc_Subject va) @ [CHR 0x00] @ q (vc_Body va) @ [CHR 0x00] @
           (if vc_Mime va then ''true'' else ''false'')))))"

definition sieveVacationKey :: "'db senv \<Rightarrow> string \<Rightarrow> string \<Rightarrow> vacation \<Rightarrow> string" where
  "sieveVacationKey E recipient sender va =
     vacationDedupKey recipient sender @ ''|'' @ sieveVacationHandle E va"

definition headerGet :: "(string \<times> string list) list \<Rightarrow> string \<Rightarrow> string" where
  \<comment> \<open>\<^verbatim>\<open>mail.Header.Get\<close> with a canonical name\<close>
  "headerGet h name = (case map_of h name of Some (v # _) \<Rightarrow> v | _ \<Rightarrow> [])"

definition vacationSuppressedByHeaders :: "(string \<times> string list) list \<Rightarrow> bool" where
  "vacationSuppressedByHeaders h =
     (let as = trim_space (headerGet h ''Auto-Submitted'') in
      (as \<noteq> [] \<and> \<not> equal_fold as ''no'') \<or>
      to_lower (trim_space (headerGet h ''Precedence'')) \<in> {''bulk'', ''list'', ''junk''} \<or>
      (\<exists>name \<in> {''List-Id'', ''List-Post'', ''List-Unsubscribe'', ''X-Auto-Response-Suppress''}.
         trim_space (headerGet h name) \<noteq> []))"

definition ownAddress ::
  "'db senv \<Rightarrow> 'db world \<Rightarrow> string \<Rightarrow> string \<Rightarrow> string list \<Rightarrow> string \<Rightarrow> bool" where
  "ownAddress E w mailbox rcpt extra a =
     (equal_fold a mailbox \<or> equal_fold a rcpt \<or>
      (\<exists>e \<in> set extra. case mail_ParseAddress (ml_go (s_lib E)) (trim_space e) of
         None \<Rightarrow> False | Some ea \<Rightarrow> equal_fold ea a) \<or>
      routesToMailbox w a mailbox)"

definition vacationMatchedAddress ::
  "'db senv \<Rightarrow> 'db world \<Rightarrow> (string \<times> string list) list \<Rightarrow> string \<Rightarrow> string \<Rightarrow> string list \<Rightarrow> string" where
  "vacationMatchedAddress E w h mailbox rcpt extra =
     (let addrs = concat (map (\<lambda>name.
            concat (map (\<lambda>v. case mail_ParseAddressList (ml_go (s_lib E)) v of None \<Rightarrow> [] | Some l \<Rightarrow> l)
              (case map_of h name of None \<Rightarrow> [] | Some vs \<Rightarrow> vs)))
          [''To'', ''Cc'', ''Bcc'', ''Resent-To'', ''Resent-Cc'', ''Resent-Bcc''])
      in case find (ownAddress E w mailbox rcpt extra) addrs of None \<Rightarrow> [] | Some a \<Rightarrow> a)"

definition localOf :: "string \<Rightarrow> string" where
  "localOf addr = (case last_index_byte addr (CHR ''@'') of None \<Rightarrow> addr | Some i \<Rightarrow> take i addr)"

definition normalizeAddress :: "string \<Rightarrow> string" where
  "normalizeAddress addr =
     (let a = trim_space addr in
      to_lower (if has_prefix a ''<'' \<and> has_suffix a ''>'' then trim_space (butlast (tl a)) else a))"

definition isAutomatedSender :: "string \<Rightarrow> bool" where
  "isAutomatedSender addr =
     (addr = [] \<or> localOf addr = ''mailer-daemon'' \<or> has_prefix (localOf addr) ''owner-'' \<or>
      has_suffix (localOf addr) ''-request'')"

definition IsAutomatedSender :: "string \<Rightarrow> bool" where
  "IsAutomatedSender sender =
     (let addr = normalizeAddress sender in
      isAutomatedSender addr \<or>
      localOf addr \<in> {''postmaster'', ''noreply'', ''no-reply'', ''donotreply'', ''do-not-reply'',
        ''bounce'', ''bounces''})"

definition defaultVacationInterval :: int where "defaultVacationInterval = 7 * one_day"

definition cleanupVacationReplies :: "int \<Rightarrow> (string, int) fmap \<Rightarrow> (string, int) fmap" where
  \<comment> \<open>drops deadlines more than 48 hours past\<close>
  "cleanupVacationReplies now m = fmfilter (\<lambda>k. case fmlookup m k of
     None \<Rightarrow> False | Some lastSent \<Rightarrow> \<not> lastSent < now - 2 * one_day) m"

definition readClock :: "'db senv \<Rightarrow> 'db world \<Rightarrow> int \<times> 'db world" where
  "readClock E w = (s_now E (w_reads w), w\<lparr>w_reads := w_reads w + 1\<rparr>)"

definition claimVacationReply ::
  "'db senv \<Rightarrow> string \<Rightarrow> int \<Rightarrow> int \<Rightarrow> 'db world \<Rightarrow> bool \<times> 'db world" where
  "claimVacationReply E key now interval0 w =
     (let interval = (if interval0 \<le> 0 then defaultVacationInterval else interval0) in
      if (case fmlookup (w_vacationReplies w) key of None \<Rightarrow> False | Some until' \<Rightarrow> now < until')
      then (False, w)
      else
        (let m = fmupd key (now + interval) (w_vacationReplies w) in
         if fm_len m > 100 then
           (case readClock E w of (now', w) \<Rightarrow> (True, w\<lparr>w_vacationReplies := cleanupVacationReplies now' m\<rparr>))
         else (True, w\<lparr>w_vacationReplies := m\<rparr>)))"

definition handleSieveVacationAs ::
  "'db senv \<Rightarrow> string \<Rightarrow> string \<Rightarrow> string \<Rightarrow> vacation \<Rightarrow> 'db world \<Rightarrow> 'db world" where
  "handleSieveVacationAs E sender recipient matched va w =
     (let bare = trim_right (trim_left sender {CHR ''<'', CHR ''>'', SP}) {CHR ''<'', CHR ''>'', SP} in
      if \<not> e_hasQueue E then w
      else if IsAutomatedSender sender \<or> equal_fold bare recipient then w
      else
        (case readClock E w of
           (now, w) \<Rightarrow>
             (case (if wrap64 (vc_Seconds va * 1000000000) > 0
                    then claimVacationReply E (sieveVacationKey E recipient sender va) now
                           (wrap64 (vc_Seconds va * 1000000000)) w
                    else (True, w)) of
                (False, w) \<Rightarrow> w
              | (True, w) \<Rightarrow> snd (Enqueue E [] [sender] (s_autoReply E sender recipient matched va) w))))"

definition sieveVacationReply ::
  "'db senv \<Rightarrow> string \<Rightarrow> string \<Rightarrow> string \<Rightarrow> string \<Rightarrow> vacation \<Rightarrow> 'db world \<Rightarrow> 'db world" where
  "sieveVacationReply E mailbox rcpt from data va w =
     (let hdr = (case s_header E data of None \<Rightarrow> [] | Some h \<Rightarrow> h);
          matched = vacationMatchedAddress E w hdr mailbox rcpt (vc_Addresses va)
      in if matched = [] \<or> vacationSuppressedByHeaders hdr then w
         else
           (let window = (if vc_SecondsSet va then wrap64 (vc_Seconds va * 1000000000)
                          else wrap64 (wrap64 (vc_Days va * 24) * one_hour))
            in case readClock E w of
                 (now, w) \<Rightarrow>
                   (case readClock E w of
                      (now', w) \<Rightarrow>
                        (case CheckAndRecordVacationFor now now' (sieveVacationKey E rcpt from va) window (w_manager w) of
                           (ok, m) \<Rightarrow>
                             (let w = w\<lparr>w_manager := m\<rparr> in
                              if ok then handleSieveVacationAs E from rcpt matched va w else w)))))"

section \<open>Failure reports\<close>

text \<open>\<open>diagOf\<close> is the diagnostic of a report: the one given, or one chosen by the error.\<close>

definition diagOf :: "rcptFailure \<Rightarrow> string" where
  "diagOf f =
     (if rf_diag f \<noteq> [] then rf_diag f
      else if rf_err f = ErrMailboxFull then ''smtp; 552 5.2.2 mailbox full''
      else ''smtp; 550 5.0.0 local delivery failed'')"

fun bounceAll ::
  "'db senv \<Rightarrow> string \<Rightarrow> string \<Rightarrow> rcptFailure list \<Rightarrow> 'db world \<Rightarrow> delivery_error option \<times> 'db world" where
  "bounceAll E from data [] w = (None, w)"
| "bounceAll E from data (f # fs) w =
     (if HasNotify (ParseDSNNotify (rf_notify f)) DSNNotifyNever then bounceAll E from data fs w
      else
        (case s_dsn E f data (diagOf f) of
           None \<Rightarrow> (Some ErrDSN, w)
         | Some msg \<Rightarrow>
             (case Enqueue E [] [from] msg w of
                (False, w) \<Rightarrow> (Some ErrQueue, w)
              | (True, w) \<Rightarrow> bounceAll E from data fs w)))"

definition bounceFailedRecipients ::
  "'db senv \<Rightarrow> string \<Rightarrow> string \<Rightarrow> rcptFailure list \<Rightarrow> 'db world \<Rightarrow> delivery_error option \<times> 'db world" where
  "bounceFailedRecipients E from data failed w =
     (if from = [] then (None, w)
      else if \<not> e_hasQueue E then (Some ErrQueue, w)
      else bounceAll E from data failed w)"

section \<open>Delivery to one mailbox\<close>

definition addTarget ::
  "string \<Rightarrow> string list \<Rightarrow> string list \<times> (string, string list) fmap \<Rightarrow> string list \<times> (string, string list) fmap" where
  "addTarget f0 flags t =
     (case t of (targets, targetFlags) \<Rightarrow>
        (let f = (if equal_fold f0 ''INBOX'' then [] else f0) in
         (if fmlookup targetFlags f = None then targets @ [f] else targets,
          fmupd f (mergeFlags (flagsOf targetFlags f) (str_join flags '' '')) targetFlags)))"

definition sieveTargets ::
  "bool \<Rightarrow> string \<Rightarrow> sieveOutcome \<Rightarrow> string list \<times> (string, string list) fmap" where
  "sieveTargets keep folder out =
     fold (\<lambda>f. addTarget (if f = [] then folder else f) (flagsOf (so_folderFlags out) f)) (so_folders out)
       (if keep then addTarget folder (so_keepFlags out) ([], fmempty) else ([], fmempty))"

definition deliverCopy ::
  "'db senv \<Rightarrow> string \<Rightarrow> string \<Rightarrow> string \<Rightarrow> string \<Rightarrow> (string, string list) fmap \<Rightarrow> string \<Rightarrow> copyState \<Rightarrow>
   'db world \<Rightarrow> delivery_error option \<times> copyState \<times> 'db world" where
  \<comment> \<open>one target: the injected fault, then \<^verbatim>\<open>deliverLocalCopies\<close>\<close>
  "deliverCopy E user domain from data targetFlags f st w =
     (if s_folderFault E f then (Some ErrFault, st, w)
      else
        (case deliverLocalHop E user domain from data True (Some (st\<lparr>cs_flags := flagsOf targetFlags f\<rparr>)) f w of
           (err, st', w) \<Rightarrow> (err, (case st' of Some s \<Rightarrow> s | None \<Rightarrow> st), w)))"

fun deliverTargets ::
  "'db senv \<Rightarrow> string \<Rightarrow> string \<Rightarrow> string \<Rightarrow> string \<Rightarrow> (string, string list) fmap \<Rightarrow> string list \<Rightarrow>
   delivery_error option \<Rightarrow> nat \<Rightarrow> string list \<Rightarrow> copyState \<Rightarrow> 'db world \<Rightarrow>
   (delivery_error option \<times> nat \<times> string list) \<times> copyState \<times> 'db world" where
  \<comment> \<open>the loop over the targets: the first error, how many were stored, which failed\<close>
  "deliverTargets E user domain from data targetFlags [] firstErr stored failed st w =
     ((firstErr, stored, failed), st, w)"
| "deliverTargets E user domain from data targetFlags (f # fs) firstErr stored failed st w =
     (case deliverCopy E user domain from data targetFlags f st w of
        (Some err, st, w) \<Rightarrow>
          deliverTargets E user domain from data targetFlags fs
            (case firstErr of None \<Rightarrow> Some err | Some e \<Rightarrow> Some e) stored (failed @ [f]) st w
      | (None, st, w) \<Rightarrow>
          deliverTargets E user domain from data targetFlags fs firstErr (stored + 1) failed st w)"

definition rejectReason :: "string \<Rightarrow> string" where
  "rejectReason msg =
     (let reason = take 200 (str_join (str_fields msg) '' '')
      in if reason = [] then ''Message rejected by recipient filter'' else reason)"

definition deliverOutcome ::
  "'db senv \<Rightarrow> string \<Rightarrow> string \<Rightarrow> string \<Rightarrow> string \<Rightarrow> bool \<Rightarrow> string \<Rightarrow> sieveOutcome \<Rightarrow> 'db world \<Rightarrow>
   delivery_error option \<times> 'db world" where
  \<comment> \<open>the copies of a message, with the INBOX as fallback for a folder that failed\<close>
  "deliverOutcome E user domain from data keep folder out w =
     (case sieveTargets keep folder out of
        (targets, targetFlags) \<Rightarrow>
          (case deliverTargets E user domain from data targetFlags targets None 0 []
                  \<lparr>cs_forwardHandled = False, cs_dropLocal = False, cs_flags = []\<rparr> w of
             ((firstErr, stored, failed), st, w) \<Rightarrow>
               (case firstErr of
                  None \<Rightarrow> (None, w)
                | Some err \<Rightarrow>
                    if stored = 0 then (Some err, w)
                    else if [] \<in> set targets \<and> [] \<notin> set failed then (None, w)
                    else (case deliverCopy E user domain from data targetFlags [] st w of (_, _, w) \<Rightarrow> (None, w)))))"

definition deliverLocalFiltered ::
  "'db senv \<Rightarrow> string \<Rightarrow> string \<Rightarrow> string \<Rightarrow> string \<Rightarrow> string \<Rightarrow> string \<Rightarrow> string \<Rightarrow> 'db world \<Rightarrow>
   delivery_error option \<times> 'db world" where
  "deliverLocalFiltered E user domain rcpt from notify data folder w0 =
     (let mailbox = user @ ''@'' @ domain; w = attachSieveStore E w0 in
      case filtered E w mailbox rcpt from data folder of
        None \<Rightarrow> deliverLocalFor E user domain from data folder w
      | Some out \<Rightarrow>
          if so_rejected out \<and> \<not> so_keep out \<and> so_folders out = [] \<and> so_redirects out = [] then
            bounceFailedRecipients E from data \<comment> \<open>with a diagnostic the error is not read; the code leaves it nil\<close>
              [\<lparr>rf_rcpt = rcpt, rf_notify = notify, rf_err = ErrFault,
                rf_diag = ''smtp; 550 5.7.1 '' @ rejectReason (so_rejectMsg out)\<rparr>] w
          else
            (case redirectBySieve E mailbox data (so_redirects out) w of
               (failed, w) \<Rightarrow>
                 (let w = (case so_vacation out of
                             None \<Rightarrow> w
                           | Some va \<Rightarrow>
                               if from \<noteq> [] \<and> folder \<noteq> ''Junk'' then sieveVacationReply E mailbox rcpt from data va w
                               else w)
                  in deliverOutcome E user domain from data (so_keep out \<or> failed) folder out w)))"

section \<open>Delivery of a message\<close>

definition relayMessageWithDSN ::
  "'db senv \<Rightarrow> string \<Rightarrow> string \<Rightarrow> string list \<Rightarrow> string \<Rightarrow> 'db world \<Rightarrow> delivery_error option \<times> 'db world" where
  "relayMessageWithDSN E from to notify data w =
     (if e_hasQueue E then
        (case EnqueueWithDSN E from [to] notify data w of
           (False, w) \<Rightarrow> (Some ErrQueue, w)
         | (True, w) \<Rightarrow> (None, w))
      else (None, w))"

definition relayMessage ::
  "'db senv \<Rightarrow> string \<Rightarrow> string \<Rightarrow> string \<Rightarrow> 'db world \<Rightarrow> delivery_error option \<times> 'db world" where
  "relayMessage E from to data w =
     (if \<not> e_hasQueue E then (Some ErrQueue, w)
      else
        (case Enqueue E from [to] data w of
           (False, w) \<Rightarrow> (Some ErrQueue, w)
         | (True, w) \<Rightarrow> (None, w)))"

definition settleDelivery ::
  "'db senv \<Rightarrow> string \<Rightarrow> string \<Rightarrow> nat \<Rightarrow> rcptFailure list \<Rightarrow> 'db world \<Rightarrow> delivery_error option \<times> 'db world" where
  "settleDelivery E from data delivered failed w =
     (if failed = [] then (None, w)
      else
        (let joined = ErrFailed (map rf_err failed) in
         if delivered = 0 then (Some joined, w)
         else
           (case bounceFailedRecipients E from data failed w of
              (Some err, w) \<Rightarrow> (Some (ErrFailed [joined, err]), w)
            | (None, w) \<Rightarrow> (None, w))))"

text \<open>The loop over the recipients, each with its NOTIFY value, shared by both ways to
  deliver: \<open>serve\<close> is what its body does for a route, \<open>seen\<close> are the keys of the
  destinations already served.\<close>

fun deliverEach ::
  "(string \<Rightarrow> string \<Rightarrow> route \<Rightarrow> 'db world \<Rightarrow> delivery_error option \<times> 'db world) \<Rightarrow> (string \<times> string) list \<Rightarrow>
   string list \<Rightarrow> nat \<Rightarrow> rcptFailure list \<Rightarrow> 'db world \<Rightarrow> (nat \<times> rcptFailure list) \<times> 'db world" where
  "deliverEach serve [] seen delivered failed w = ((delivered, failed), w)"
| "deliverEach serve ((recipient, notify) # rs) seen delivered failed w =
     (let route = routeRecipient w recipient; k = rcptDedupKey route;
          failure = (\<lambda>err. \<lparr>rf_rcpt = recipient, rf_notify = notify, rf_err = err, rf_diag = []\<rparr>)
      in case route of
           AliasLoop _ \<Rightarrow> deliverEach serve rs seen delivered (failed @ [failure ErrRoute]) w
         | _ \<Rightarrow>
             if k \<in> set seen then deliverEach serve rs seen delivered failed w
             else
               (case serve recipient notify route w of
                  (Some e, w) \<Rightarrow> deliverEach serve rs (k # seen) delivered (failed @ [failure e]) w
                | (None, w) \<Rightarrow> deliverEach serve rs (k # seen) (delivered + 1) failed w))"

definition serveFiltered ::
  "'db senv \<Rightarrow> string \<Rightarrow> string \<Rightarrow> string \<Rightarrow> string \<Rightarrow> string \<Rightarrow> route \<Rightarrow> 'db world \<Rightarrow>
   delivery_error option \<times> 'db world" where
  \<comment> \<open>the body of the loop of \<^verbatim>\<open>deliverMessageToFolderDSN\<close>\<close>
  "serveFiltered E from data folder recipient notify route w =
     (case route of
        External external \<Rightarrow> relayMessageWithDSN E from external [notify] data w
      | LocalBox user domain \<Rightarrow> deliverLocalFiltered E user domain recipient from notify data folder w
      | AliasLoop _ \<Rightarrow> (Some ErrRoute, w))"

definition servePlain ::
  "'db senv \<Rightarrow> string \<Rightarrow> string \<Rightarrow> string \<Rightarrow> string \<Rightarrow> string \<Rightarrow> route \<Rightarrow> 'db world \<Rightarrow>
   delivery_error option \<times> 'db world" where
  \<comment> \<open>the body of the loop of \<^verbatim>\<open>deliverMessageWithSieve\<close>\<close>
  "servePlain E from data folder recipient notify route w =
     (case route of
        External external \<Rightarrow> relayMessage E from external data w
      | LocalBox user domain \<Rightarrow> deliverLocalFor E user domain from data folder w
      | AliasLoop _ \<Rightarrow> (Some ErrRoute, w))"

definition withNotify :: "string list \<Rightarrow> string list \<Rightarrow> (string \<times> string) list" where
  "withNotify to notify = map (\<lambda>i. (to ! i, if i < length notify then notify ! i else [])) [0..<length to]"

definition deliverMessageToFolderDSN ::
  "'db senv \<Rightarrow> string \<Rightarrow> string list \<Rightarrow> string list \<Rightarrow> string \<Rightarrow> string \<Rightarrow> 'db world \<Rightarrow>
   delivery_error option \<times> 'db world" where
  "deliverMessageToFolderDSN E from to notify data folder w =
     (if s_stopping E then (Some ErrStopping, w)
      else if tooManyHops data then (Some ErrTooManyHops, w)
      else
        (case deliverEach (serveFiltered E from data folder) (withNotify to notify) [] 0 [] w of
           ((delivered, failed), w) \<Rightarrow> settleDelivery E from data delivered failed w))"

definition deliverInboundWithDSN ::
  "'db senv \<Rightarrow> string \<Rightarrow> string list \<Rightarrow> string list \<Rightarrow> string \<Rightarrow> 'db world \<Rightarrow> delivery_error option \<times> 'db world" where
  "deliverInboundWithDSN E from to notify data w =
     deliverMessageToFolderDSN E from to notify data (if hasSpamVerdict data then ''Junk'' else []) w"

text \<open>Delivery without the owner's script, which local submissions use
  (\<^verbatim>\<open>deliverMessage\<close>): a caller may name a folder and redirects of its own.\<close>

definition sieveActionStep :: "string \<Rightarrow> string \<times> string list \<Rightarrow> string \<times> string list" where
  "sieveActionStep action t =
     (case t of (targetFolder, redirectAddrs) \<Rightarrow>
        if has_prefix action ''fileinto:'' then (trim_prefix action ''fileinto:'', redirectAddrs)
        else if has_prefix action ''redirect:'' then
          (targetFolder,
           if trim_prefix action ''redirect:'' \<noteq> [] then redirectAddrs @ [trim_prefix action ''redirect:'']
           else redirectAddrs)
        else (targetFolder, redirectAddrs))"

fun relayRedirects :: "'db senv \<Rightarrow> string \<Rightarrow> string \<Rightarrow> string list \<Rightarrow> 'db world \<Rightarrow> 'db world" where
  "relayRedirects E from data [] w = w"
| "relayRedirects E from data (addr # addrs) w =
     (if \<exists>loopAddr \<in> set (getMailLoopHeaders E data). equal_fold loopAddr addr
      then relayRedirects E from data addrs w
      else relayRedirects E from data addrs (snd (relayMessage E from addr (addMailLoopHeader data from) w)))"

definition deliverMessageWithSieve ::
  "'db senv \<Rightarrow> string \<Rightarrow> string list \<Rightarrow> string \<Rightarrow> string list \<Rightarrow> 'db world \<Rightarrow> delivery_error option \<times> 'db world" where
  "deliverMessageWithSieve E from to data sieveActions w =
     (if s_stopping E then (Some ErrStopping, w)
      else
        (case fold sieveActionStep sieveActions ([], []) of
           (targetFolder, redirectAddrs) \<Rightarrow>
             (let w = relayRedirects E from data redirectAddrs w in
              if tooManyHops data then (Some ErrTooManyHops, w)
              else
                (case deliverEach (servePlain E from data targetFolder) (map (\<lambda>r. (r, [])) to) [] 0 [] w of
                   ((delivered, failed), w) \<Rightarrow> settleDelivery E from data delivered failed w))))"

definition deliverMessage ::
  "'db senv \<Rightarrow> string \<Rightarrow> string list \<Rightarrow> string \<Rightarrow> 'db world \<Rightarrow> delivery_error option \<times> 'db world" where
  "deliverMessage E from to data w = deliverMessageWithSieve E from to data [] w"

end
