(* ===== verification/Mail_Store_Facts.thy ===== *)
theory Mail_Store_Facts
  imports Mail_Store
begin

text \<open>
  What every write of delivery keeps: identifiers are never issued twice, rows,
  queue entries and blobs that exist stay, and the quota counts what is stored.
\<close>

named_theorems grow \<open>operations after which everything stored before is still there\<close>

section \<open>Well-formed stores\<close>

definition ids_ok :: "'db world \<Rightarrow> bool" where
  \<comment> \<open>every queue entry and message file has an identifier issued before\<close>
  "ids_ok w =
     ((\<forall>b i. fmlookup (w_queue w) (b, i) \<noteq> None \<longrightarrow> b < w_nextID w) \<and>
      (\<forall>b. fmlookup (w_files w) b \<noteq> None \<longrightarrow> b < w_nextID w))"

definition uids_ok :: "'db world \<Rightarrow> bool" where
  \<comment> \<open>every row of a mailbox has a UID below the next one\<close>
  "uids_ok w =
     (\<forall>box uid. fmlookup (w_rows w) (box, uid) \<noteq> None \<longrightarrow>
        (\<exists>n. fmlookup (w_uidnext w) box = Some n \<and> uid < n))"

definition store_ok :: "'db world \<Rightarrow> bool" where
  "store_ok w = (ids_ok w \<and> uids_ok w)"

text \<open>What the accounts keep of each other: everything but the quota used.\<close>

definition same_accounts :: "'db world \<Rightarrow> 'db world \<Rightarrow> bool" where
  "same_accounts w w' =
     (\<forall>k. map_option (\<lambda>a. a\<lparr>ac_QuotaUsed := 0\<rparr>) (fmlookup (w_accounts w') k) =
          map_option (\<lambda>a. a\<lparr>ac_QuotaUsed := 0\<rparr>) (fmlookup (w_accounts w) k))"

definition quota_bounded :: "(string, account) fmap \<Rightarrow> (string, account) fmap \<Rightarrow> bool" where
  \<comment> \<open>an account with a limit is not taken over it\<close>
  "quota_bounded m m' =
     (\<forall>k a a'. fmlookup m k = Some a \<longrightarrow> fmlookup m' k = Some a' \<longrightarrow> 0 < ac_QuotaLimit a \<longrightarrow>
        ac_QuotaUsed a' \<le> max (ac_QuotaUsed a) (ac_QuotaLimit a))"

lemma quota_bounded_refl [simp]: "quota_bounded m m"
  by (simp add: quota_bounded_def)

definition same_scripts :: "'db manager \<Rightarrow> 'db manager \<Rightarrow> bool" where
  \<comment> \<open>once the script store is attached, no delivery changes a script\<close>
  "same_scripts m m' =
     (StoreAttached m \<longrightarrow>
        StoreAttached m' \<and> m_scripts m' = m_scripts m \<and> m_activeScripts m' = m_activeScripts m)"

lemma same_scripts_refl [simp]: "same_scripts m m"
  by (simp add: same_scripts_def)

lemma same_scripts_trans: "same_scripts m m' \<Longrightarrow> same_scripts m' m'' \<Longrightarrow> same_scripts m m''"
  by (simp add: same_scripts_def)

definition extends :: "'db world \<Rightarrow> 'db world \<Rightarrow> bool" where
  "extends w w' =
     (w_nextID w \<le> w_nextID w' \<and>
      (\<forall>b i. b < w_nextID w \<longrightarrow> fmlookup (w_queue w') (b, i) = fmlookup (w_queue w) (b, i)) \<and>
      (\<forall>b. b < w_nextID w \<longrightarrow> fmlookup (w_files w') b = fmlookup (w_files w) b) \<and>
      (\<forall>k. fmlookup (w_blobs w) k \<noteq> None \<longrightarrow> fmlookup (w_blobs w') k \<noteq> None) \<and>
      (\<forall>k m. fmlookup (w_rows w) k = Some m \<longrightarrow> fmlookup (w_rows w') k = Some m) \<and>
      w_domains w' = w_domains w \<and> w_aliases w' = w_aliases w \<and> same_accounts w w' \<and>
      quota_bounded (w_accounts w) (w_accounts w') \<and> same_scripts (w_manager w) (w_manager w'))"

definition grows :: "'db world \<Rightarrow> 'db world \<Rightarrow> bool" where
  "grows w w' = (store_ok w \<longrightarrow> store_ok w' \<and> extends w w')"

lemma extends_refl [simp]: "extends w w"
  by (simp add: extends_def same_accounts_def)

lemma quota_bounded_trans:
  assumes "same_accounts w w'" "quota_bounded (w_accounts w) (w_accounts w')"
    "quota_bounded (w_accounts w') (w_accounts w'')"
  shows "quota_bounded (w_accounts w) (w_accounts w'')"
proof -
  have "ac_QuotaUsed a'' \<le> max (ac_QuotaUsed a) (ac_QuotaLimit a)"
    if a: "fmlookup (w_accounts w) k = Some a" "fmlookup (w_accounts w'') k = Some a''" "0 < ac_QuotaLimit a" for k a a''
  proof -
    obtain a' where a': "fmlookup (w_accounts w') k = Some a'" "a'\<lparr>ac_QuotaUsed := 0\<rparr> = a\<lparr>ac_QuotaUsed := 0\<rparr>"
      using assms(1) a(1) unfolding same_accounts_def by (metis map_option_eq_Some)
    have "ac_QuotaLimit (a'\<lparr>ac_QuotaUsed := 0\<rparr>) = ac_QuotaLimit (a\<lparr>ac_QuotaUsed := 0\<rparr>)" using a'(2) by simp
    then have limit: "ac_QuotaLimit a' = ac_QuotaLimit a" by simp
    have "ac_QuotaUsed a' \<le> max (ac_QuotaUsed a) (ac_QuotaLimit a)"
      using assms(2) a a'(1) unfolding quota_bounded_def by blast
    moreover have "ac_QuotaUsed a'' \<le> max (ac_QuotaUsed a') (ac_QuotaLimit a')"
      using assms(3) a(2) a'(1) a(3) [folded limit] unfolding quota_bounded_def by blast
    ultimately show ?thesis using limit by simp
  qed
  then show ?thesis unfolding quota_bounded_def by blast
qed

lemma extends_trans:
  assumes "extends w w'" "extends w' w''"
  shows "extends w w''"
proof -
  have "quota_bounded (w_accounts w) (w_accounts w'')"
    using assms quota_bounded_trans [of w w' w''] by (simp add: extends_def)
  moreover have "same_scripts (w_manager w) (w_manager w'')"
    using assms same_scripts_trans by (auto simp: extends_def)
  ultimately show ?thesis
    using assms unfolding extends_def same_accounts_def by (elim conjE) (simp add: order_less_le_trans)
qed

lemma grows_refl [simp, grow]: "grows w w"
  by (simp add: grows_def)

lemma grows_trans: "grows w w' \<Longrightarrow> grows w' w'' \<Longrightarrow> grows w w''"
  unfolding grows_def using extends_trans by blast

lemma growsD: "grows w w' \<Longrightarrow> store_ok w \<Longrightarrow> store_ok w' \<and> extends w w'"
  by (simp add: grows_def)

text \<open>A change of nothing but the counters or the reply deadlines.\<close>

definition same_store :: "'db world \<Rightarrow> 'db world \<Rightarrow> bool" where
  "same_store w w' =
     (w_accounts w' = w_accounts w \<and> w_domains w' = w_domains w \<and> w_aliases w' = w_aliases w \<and>
      w_queue w' = w_queue w \<and> w_files w' = w_files w \<and> w_nextID w' = w_nextID w \<and>
      w_blobs w' = w_blobs w \<and> w_uidnext w' = w_uidnext w \<and> w_rows w' = w_rows w \<and>
      w_manager w' = w_manager w)"

lemma same_store_grows: "same_store w w' \<Longrightarrow> grows w w'"
  by (simp add: same_store_def grows_def extends_def same_accounts_def store_ok_def ids_ok_def uids_ok_def)

lemma tryWrite_same: "same_store w (snd (tryWrite E w))"
  by (simp add: tryWrite_def same_store_def)

lemma tryWrite_snd: "tryWrite E w = (b, w') \<Longrightarrow> same_store w w'"
  using tryWrite_same [of w E] by simp

lemma same_store_store_ok: "same_store w w' \<Longrightarrow> store_ok w' = store_ok w"
  by (simp add: same_store_def store_ok_def ids_ok_def uids_ok_def)

section \<open>Accounts\<close>

definition used :: "account \<Rightarrow> int" where
  \<comment> \<open>a negative counter counts as 0\<close>
  "used a = max 0 (ac_QuotaUsed a)"

lemma used_nonneg: "0 \<le> used a"
  by (simp add: used_def)

lemma quotaAfter_add:
  assumes "quotaAfter a delta = Some x" "0 < delta"
  shows "x = used a + delta" "x \<le> int64_max" "0 < ac_QuotaLimit a \<Longrightarrow> x \<le> ac_QuotaLimit a"
proof -
  have q: "used a \<le> int64_max - delta" "0 < ac_QuotaLimit a \<longrightarrow> wrap64 (used a + delta) \<le> ac_QuotaLimit a"
      "x = wrap64 (used a + delta)"
    using assms by (auto simp: quotaAfter_def used_def Let_def split: if_splits)
  moreover have "in_int64 (used a + delta)"
    using q(1) assms(2) used_nonneg [of a] by (simp add: in_int64_def int64_min_def)
  ultimately show "x = used a + delta" "x \<le> int64_max" "0 < ac_QuotaLimit a \<Longrightarrow> x \<le> ac_QuotaLimit a" by simp_all
qed

lemma quotaAfter_release:
  assumes "ac_QuotaUsed a = u + delta" "0 \<le> u" "0 < delta" "u + delta \<le> int64_max"
  shows "quotaAfter a (- delta) = Some u"
  using assms by (simp add: quotaAfter_def Let_def in_int64_def int64_min_def)

lemma quotaAfter_less:
  assumes "quotaAfter a delta = Some x" "delta \<le> 0" "- int64_max \<le> delta"
  shows "x \<le> used a"
proof (cases "used a \<le> int64_max")
  case True
  then have "in_int64 (used a + delta)"
    using assms(2,3) used_nonneg [of a] by (simp add: in_int64_def int64_min_def int64_max_def)
  then show ?thesis
    using assms by (auto simp: quotaAfter_def used_def Let_def split: if_splits)
next
  case False
  then show ?thesis
    using assms wrap64_in_range [of "used a + delta"]
    by (auto simp: quotaAfter_def used_def Let_def in_int64_def split: if_splits)
qed

lemma quotaAfter_bounded:
  "quotaAfter a delta = Some x \<Longrightarrow> - int64_max \<le> delta \<Longrightarrow> 0 < ac_QuotaLimit a \<Longrightarrow>
     x \<le> max (ac_QuotaUsed a) (ac_QuotaLimit a)"
  using quotaAfter_add(3) [of a delta x] quotaAfter_less [of a delta x]
  by (cases "0 < delta") (auto simp: used_def)

lemma IncrementQuota_grows:
  assumes "- int64_max \<le> delta"
  shows "grows w (snd (IncrementQuota E d l delta w))"
proof -
  obtain b w1 where a: "tryWrite E w = (b, w1)" by fastforce
  note s = tryWrite_snd [OF a]
  have upd: "grows w1 (w1\<lparr>w_accounts := fmupd k (x\<lparr>ac_QuotaUsed := u\<rparr>) (w_accounts w1)\<rparr>)"
    if "fmlookup (w_accounts w1) k = Some x" "quotaAfter x delta = Some u" for k x u
  proof -
    have "quota_bounded (w_accounts w1) (fmupd k (x\<lparr>ac_QuotaUsed := u\<rparr>) (w_accounts w1))"
      using that quotaAfter_bounded [OF that(2) assms] by (auto simp: quota_bounded_def)
    then show ?thesis
      using that by (simp add: grows_def extends_def same_accounts_def store_ok_def ids_ok_def uids_ok_def)
  qed
  show ?thesis
    using a grows_trans [OF same_store_grows [OF s] upd] same_store_grows [OF s]
    by (auto simp: IncrementQuota_def split: bool.splits option.splits)
qed

lemma IncrementQuota_True:
  assumes "IncrementQuota E d l delta w = (True, w')"
  obtains a x where "GetAccount w d l = Some a" "quotaAfter a delta = Some x"
    "GetAccount w' d l = Some (a\<lparr>ac_QuotaUsed := x\<rparr>)"
  using assms by (auto simp: IncrementQuota_def GetAccount_def tryWrite_def split: bool.splits option.splits)

lemma IncrementQuota_False:
  "IncrementQuota E d l delta w = (False, w') \<Longrightarrow> w_accounts w' = w_accounts w"
  by (auto simp: IncrementQuota_def tryWrite_def split: bool.splits option.splits)

section \<open>The queue\<close>

text \<open>While a message is being enqueued its entries are at an identifier that was
  never issued: the world before is extended by any change there.\<close>

definition at_base :: "nat \<Rightarrow> 'db world \<Rightarrow> 'db world \<Rightarrow> bool" where
  "at_base b w w' =
     (w_nextID w' = w_nextID w \<and>
      (\<forall>b' i. b' \<noteq> b \<longrightarrow> fmlookup (w_queue w') (b', i) = fmlookup (w_queue w) (b', i)) \<and>
      (\<forall>b'. b' \<noteq> b \<longrightarrow> fmlookup (w_files w') b' = fmlookup (w_files w) b') \<and>
      w_accounts w' = w_accounts w \<and> w_domains w' = w_domains w \<and> w_aliases w' = w_aliases w \<and>
      w_blobs w' = w_blobs w \<and> w_uidnext w' = w_uidnext w \<and> w_rows w' = w_rows w \<and>
      w_manager w' = w_manager w)"

lemma at_base_refl [simp]: "at_base b w w"
  by (simp add: at_base_def)

lemma at_base_trans: "at_base b w w' \<Longrightarrow> at_base b w' w'' \<Longrightarrow> at_base b w w''"
  by (simp add: at_base_def)

lemma same_store_at_base: "same_store w w' \<Longrightarrow> at_base b w w'"
  by (simp add: same_store_def at_base_def)

lemma EnqueueWithLimit_at_base: "at_base b w (snd (EnqueueWithLimit E (b, i) e w))"
proof -
  obtain ok w1 where a: "tryWrite E w = (ok, w1)" by fastforce
  have "at_base b w1 (w1\<lparr>w_queue := fmupd (b, i) e (w_queue w1)\<rparr>)" by (simp add: at_base_def)
  then show ?thesis
    using a at_base_trans same_store_at_base [OF tryWrite_snd [OF a], of b]
    by (auto simp: EnqueueWithLimit_def split: bool.splits)
qed

lemma Dequeue_at_base: "at_base b w (Dequeue E (b, i) w)"
proof -
  obtain ok w1 where a: "tryWrite E w = (ok, w1)" by fastforce
  have "at_base b w1 (w1\<lparr>w_queue := fmdrop (b, i) (w_queue w1)\<rparr>)" by (simp add: at_base_def)
  then show ?thesis
    using a at_base_trans same_store_at_base [OF tryWrite_snd [OF a], of b]
    by (auto simp: Dequeue_def split: bool.splits)
qed

lemma deleteFile_at_base: "at_base b w (deleteFile E b w)"
proof -
  obtain ok w1 where a: "tryWrite E w = (ok, w1)" by fastforce
  have "at_base b w1 (w1\<lparr>w_files := fmdrop b (w_files w1)\<rparr>)" by (simp add: at_base_def)
  then show ?thesis
    using a at_base_trans same_store_at_base [OF tryWrite_snd [OF a], of b]
    by (auto simp: deleteFile_def split: bool.splits)
qed

lemma writeFile_at_base: "at_base b w (snd (writeFile E b data w))"
proof -
  obtain ok w1 where a: "tryWrite E w = (ok, w1)" by fastforce
  let ?w1 = "w1\<lparr>w_files := fmupd b data (w_files w1)\<rparr>"
  obtain ok' w2 where c: "tryWrite E ?w1 = (ok', w2)" by fastforce
  have "at_base b w1 ?w1" by (simp add: at_base_def)
  then have "at_base b w1 w2" using at_base_trans same_store_at_base [OF tryWrite_snd [OF c], of b] by blast
  then show ?thesis
    using a c at_base_trans same_store_at_base [OF tryWrite_snd [OF a], of b]
    by (auto simp: writeFile_def split: bool.splits)
qed

lemma rollback_at_base: "at_base b w (rollback E b i w)"
proof -
  have "at_base b w (fold (\<lambda>j. Dequeue E (b, j)) js w)" for js
    by (induction js arbitrary: w) (auto intro: at_base_trans [OF Dequeue_at_base])
  then show ?thesis by (simp add: rollback_def)
qed

lemma enqueueEntries_at_base: "at_base b w (snd (enqueueEntries E b entry i to w))"
proof (induction to arbitrary: i w)
  case (Cons r to)
  obtain ok w1 where e: "EnqueueWithLimit E (b, i) (entry i r) w = (ok, w1)" by fastforce
  have w1: "at_base b w w1" using EnqueueWithLimit_at_base [of b w E i "entry i r"] e by simp
  show ?case
  proof (cases ok)
    case True
    then show ?thesis using e at_base_trans [OF w1 Cons.IH] by simp
  next
    case False
    then show ?thesis
      using e at_base_trans [OF w1 at_base_trans [OF rollback_at_base deleteFile_at_base]] by simp
  qed
qed simp

lemma enqueueAll_grows [grow]: "grows w (snd (enqueueAll E entry to message w))"
proof -
  define w0 where "w0 = w\<lparr>w_nextID := w_nextID w + 1\<rparr>"
  have base: "at_base (w_nextID w) w0 (snd (enqueueAll E entry to message w))"
  proof -
    obtain ok w1 where f: "writeFile E (w_nextID w) message w0 = (ok, w1)" by fastforce
    have w1: "at_base (w_nextID w) w0 w1" using writeFile_at_base [of "w_nextID w" w0 E message] f by simp
    have "snd (enqueueAll E entry to message w) =
        (if ok then snd (enqueueEntries E (w_nextID w) (entry (w_nextID w)) 0 to w1) else w1)"
      using f by (cases ok) (simp_all add: enqueueAll_def w0_def Let_def)
    then show ?thesis using w1 by (auto intro: at_base_trans [OF w1 enqueueEntries_at_base])
  qed
  have "store_ok w' \<and> extends w w'" if b: "at_base (w_nextID w) w0 w'" and ok: "store_ok w" for w'
  proof -
    have q: "fmlookup (w_queue w') (b, i) = fmlookup (w_queue w) (b, i)" if "b \<noteq> w_nextID w" for b i
      using b that by (simp add: at_base_def w0_def)
    have f: "fmlookup (w_files w') b = fmlookup (w_files w) b" if "b \<noteq> w_nextID w" for b
      using b that by (simp add: at_base_def w0_def)
    have n: "w_nextID w' = Suc (w_nextID w)" using b by (simp add: at_base_def w0_def)
    have "ids_ok w'"
      using ok q f unfolding ids_ok_def n store_ok_def by (metis less_SucI lessI)
    moreover have "uids_ok w'" "extends w w'"
      using b ok q f n by (simp_all add: at_base_def w0_def store_ok_def uids_ok_def extends_def same_accounts_def)
    ultimately show ?thesis by (simp add: store_ok_def)
  qed
  then show ?thesis using base by (simp add: grows_def)
qed

lemma Enqueue_grows [grow]: "grows w (snd (Enqueue E from to message w))"
proof -
  obtain ok w1 where a: "tryWrite E w = (ok, w1)" by fastforce
  show ?thesis
    using a grows_trans [OF same_store_grows [OF tryWrite_snd [OF a]] enqueueAll_grows]
      same_store_grows [OF tryWrite_snd [OF a]]
    by (auto simp: Enqueue_def split: bool.splits)
qed

lemma EnqueueWithDSN_grows [grow]: "grows w (snd (EnqueueWithDSN E from to notify message w))"
  by (simp add: EnqueueWithDSN_def enqueueAll_grows)

text \<open>A message queued between two worlds: a new entry for one recipient whose file
  holds the message.\<close>

definition queued :: "'db world \<Rightarrow> 'db world \<Rightarrow> string \<Rightarrow> string \<Rightarrow> string \<Rightarrow> bool" where
  "queued w w' from to msg =
     (\<exists>b i e. w_nextID w \<le> b \<and> fmlookup (w_queue w') (b, i) = Some e \<and> qe_From e = from \<and>
        qe_To e = [to] \<and> fmlookup (w_files w') (qe_MessagePath e) = Some msg)"

lemma queued_later:
  assumes "queued w w1 from to msg" "store_ok w1" "extends w1 w'"
  shows "queued w w' from to msg"
proof -
  obtain b i e where e: "w_nextID w \<le> b" "fmlookup (w_queue w1) (b, i) = Some e" "qe_From e = from"
      "qe_To e = [to]" "fmlookup (w_files w1) (qe_MessagePath e) = Some msg"
    using assms(1) unfolding queued_def by blast
  have "b < w_nextID w1" "qe_MessagePath e < w_nextID w1"
    using assms(2) e(2,5) unfolding store_ok_def ids_ok_def by (metis option.distinct(1))+
  then have "fmlookup (w_queue w') (b, i) = Some e" "fmlookup (w_files w') (qe_MessagePath e) = Some msg"
    using assms(3) e(2,5) unfolding extends_def by auto
  then show ?thesis using e unfolding queued_def by blast
qed

lemma queued_earlier: "queued w1 w' from to msg \<Longrightarrow> extends w w1 \<Longrightarrow> queued w w' from to msg"
  unfolding queued_def extends_def by (elim conjE exE, intro exI conjI) (rule order_trans, assumption+)

lemma EnqueueWithLimit_True:
  assumes "EnqueueWithLimit E k e w = (True, w')"
  shows "w_queue w' = fmupd k e (w_queue w)" "w_files w' = w_files w"
  using assms by (auto simp: EnqueueWithLimit_def tryWrite_def split: bool.splits if_splits)

lemma enqueueEntries_True:
  "enqueueEntries E b entry i to w = (True, w') \<Longrightarrow>
     (\<forall>j < length to. fmlookup (w_queue w') (b, i + j) = Some (entry (i + j) (to ! j))) \<and>
     (\<forall>j < i. fmlookup (w_queue w') (b, j) = fmlookup (w_queue w) (b, j)) \<and> w_files w' = w_files w"
proof (induction to arbitrary: i w)
  case (Cons r to)
  obtain w1 where e: "EnqueueWithLimit E (b, i) (entry i r) w = (True, w1)"
      and rest: "enqueueEntries E b entry (i + 1) to w1 = (True, w')"
    using Cons.prems by (auto split: prod.splits bool.splits)
  note IH = Cons.IH [OF rest]
  note w1 = EnqueueWithLimit_True [OF e]
  have "fmlookup (w_queue w') (b, i + j) = Some (entry (i + j) ((r # to) ! j))" if "j < Suc (length to)" for j
  proof (cases j)
    case 0
    then show ?thesis using IH w1 by simp
  next
    case (Suc k)
    then show ?thesis using IH that by auto
  qed
  then show ?case using IH w1 by simp
qed simp

lemma enqueueAll_True:
  assumes "enqueueAll E entry to message w = (True, w')" "t \<in> set to"
    and "\<And>b i r. qe_To (entry b i r) = [r] \<and> qe_From (entry b i r) = from \<and> qe_MessagePath (entry b i r) = b"
  shows "queued w w' from t message"
proof -
  define b where "b = w_nextID w"
  obtain w1 where f: "writeFile E b message (w\<lparr>w_nextID := b + 1\<rparr>) = (True, w1)"
      and run: "enqueueEntries E b (entry b) 0 to w1 = (True, w')"
    using assms(1) by (auto simp: enqueueAll_def b_def Let_def split: prod.splits bool.splits)
  have w1: "fmlookup (w_files w1) b = Some message"
    using f by (auto simp: writeFile_def tryWrite_def split: bool.splits)
  obtain j where j: "j < length to" "to ! j = t" using assms(2) by (auto simp: in_set_conv_nth)
  have "fmlookup (w_queue w') (b, j) = Some (entry b j t)" "fmlookup (w_files w') b = Some message"
    using enqueueEntries_True [OF run] j w1 by auto
  then show ?thesis
    using assms(3) unfolding queued_def by (metis b_def order_refl)
qed

lemma Enqueue_queued:
  assumes "Enqueue E from to message w = (True, w')" "t \<in> set to"
  shows "queued w w' from t message"
proof -
  obtain w1 where a: "tryWrite E w = (True, w1)"
      and run: "enqueueAll E (\<lambda>base i recipient.
        \<lparr>qe_From = from, qe_To = [recipient], qe_MessagePath = base, qe_Notify = 0\<rparr>) to message w1 = (True, w')"
    using assms(1) by (auto simp: Enqueue_def split: prod.splits bool.splits if_splits)
  have "queued w1 w' from t message" by (rule enqueueAll_True [OF run assms(2)]) simp
  moreover have "w_nextID w1 = w_nextID w" using tryWrite_snd [OF a] by (simp add: same_store_def)
  ultimately show ?thesis by (simp add: queued_def)
qed

lemma EnqueueWithDSN_queued:
  assumes "EnqueueWithDSN E from to notify message w = (True, w')" "t \<in> set to"
  shows "queued w w' from t message"
proof -
  have "enqueueAll E (\<lambda>base i recipient. \<lparr>qe_From = from, qe_To = [recipient], qe_MessagePath = base,
      qe_Notify = (if i < length notify \<and> notify ! i \<noteq> [] then ParseDSNNotify (notify ! i) else 0)\<rparr>)
      to message w = (True, w')"
    using assms(1) by (simp add: EnqueueWithDSN_def split: if_splits)
  then show ?thesis by (rule enqueueAll_True [OF _ assms(2)]) simp
qed

section \<open>Mailboxes and blobs\<close>

lemma CreateMailbox_grows [grow]: "grows w (CreateMailbox E u m w)"
proof -
  obtain ok w1 where a: "tryWrite E w = (ok, w1)" by fastforce
  have "grows w1 (w1\<lparr>w_uidnext := fmupd (u, m) 1 (w_uidnext w1)\<rparr>)" if "fmlookup (w_uidnext w1) (u, m) = None"
    using that unfolding grows_def store_ok_def ids_ok_def uids_ok_def extends_def same_accounts_def by force
  then show ?thesis
    using a grows_trans [OF same_store_grows [OF tryWrite_snd [OF a]]] same_store_grows [OF tryWrite_snd [OF a]]
    by (auto simp: CreateMailbox_def split: bool.splits option.splits)
qed

lemma GetNextUID_grows [grow]: "grows w (snd (GetNextUID E u m w))"
proof -
  obtain ok w1 where a: "tryWrite E w = (ok, w1)" by fastforce
  define stored where "stored = (case fmlookup (w_uidnext w1) (u, m) of None \<Rightarrow> 0 | Some n \<Rightarrow> n)"
  define uid where "uid = (if stored = 0 then 1 else stored)"
  have "fmlookup (w_uidnext w1) (u, m) = Some n \<Longrightarrow> n \<le> uid" for n
    by (simp add: uid_def stored_def)
  then have "grows w1 (w1\<lparr>w_uidnext := fmupd (u, m) (uid + 1) (w_uidnext w1)\<rparr>)"
    unfolding grows_def store_ok_def ids_ok_def uids_ok_def extends_def same_accounts_def
    by (auto simp: le_imp_less_Suc dest: order_less_le_trans) (metis le_imp_less_Suc less_imp_le_nat order_less_le_trans)
  then show ?thesis
    using a grows_trans [OF same_store_grows [OF tryWrite_snd [OF a]]] same_store_grows [OF tryWrite_snd [OF a]]
    by (auto simp: GetNextUID_def Let_def stored_def [symmetric] uid_def [symmetric] split: bool.splits)
qed

lemma GetNextUID_fresh:
  assumes "GetNextUID E u m w = (Some uid, w')" "store_ok w"
  shows "fmlookup (w_uidnext w') (u, m) = Some (uid + 1)" "fmlookup (w_rows w') ((u, m), uid) = None"
proof -
  obtain w1 where a: "tryWrite E w = (True, w1)"
      and w': "w' = w1\<lparr>w_uidnext := fmupd (u, m) (uid + 1) (w_uidnext w1)\<rparr>"
      and uid: "\<And>n. fmlookup (w_uidnext w1) (u, m) = Some n \<Longrightarrow> n \<le> uid"
    using assms(1) by (auto simp: GetNextUID_def Let_def split: prod.splits bool.splits option.splits if_splits)
  show "fmlookup (w_uidnext w') (u, m) = Some (uid + 1)" by (simp add: w')
  have "uids_ok w1" using assms(2) same_store_store_ok [OF tryWrite_snd [OF a]] by (simp add: store_ok_def)
  then show "fmlookup (w_rows w') ((u, m), uid) = None"
    unfolding uids_ok_def w' using uid by (fastforce simp: linorder_not_less [symmetric])
qed

lemma StoreMessageMetadata_grows:
  assumes "fmlookup (w_uidnext w) (u, m) = Some n" "uid < n" "fmlookup (w_rows w) ((u, m), uid) = None"
  shows "grows w (snd (StoreMessageMetadata E u m uid meta w))"
proof -
  obtain ok w1 where a: "tryWrite E w = (ok, w1)" by fastforce
  note s = tryWrite_snd [OF a]
  have n: "fmlookup (w_uidnext w1) (u, m) = Some n" and r: "fmlookup (w_rows w1) ((u, m), uid) = None"
    using assms s by (simp_all add: same_store_def)
  have "grows w1 (w1\<lparr>w_rows := fmupd ((u, m), uid) md (w_rows w1)\<rparr>)" for md
    using n r assms(2) unfolding grows_def store_ok_def ids_ok_def uids_ok_def extends_def same_accounts_def
    by (auto split: if_splits)
  then show ?thesis
    using a n assms(2) grows_trans [OF same_store_grows [OF s]] same_store_grows [OF s]
    by (auto simp: StoreMessageMetadata_def Let_def split: bool.splits)
qed

lemma StoreMessageMetadata_True:
  "StoreMessageMetadata E u m uid meta w = (True, w') \<Longrightarrow>
     fmlookup (w_rows w') ((u, m), uid) = Some (meta\<lparr>md_Flags := normalizeFlags (md_Flags meta)\<rparr>) \<and>
     w_blobs w' = w_blobs w"
  by (auto simp: StoreMessageMetadata_def tryWrite_def Let_def split: bool.splits option.splits if_splits)

lemma blobs_grow:
  assumes "same_store w w1"
  shows "grows w (w1\<lparr>w_blobs := fmupd k data (w_blobs w1)\<rparr>)"
  using assms
  by (simp add: same_store_def grows_def extends_def same_accounts_def store_ok_def ids_ok_def uids_ok_def)

lemma StoreMessage_grows [grow]: "grows w (snd (StoreMessage E u data w))"
proof -
  obtain ok w1 where a: "tryWrite E w = (ok, w1)" by fastforce
  note s = tryWrite_snd [OF a]
  show ?thesis
    using a blobs_grow [OF s] same_store_grows [OF s]
    by (auto simp: StoreMessage_def Let_def split: bool.splits option.splits)
qed

lemma StoreMessage_Some:
  assumes "StoreMessage E u data w = (Some i, w')"
  shows "i = e_sha256 E data" "fmlookup (w_blobs w') (u, i) \<noteq> None" "validatePathComponent u"
    "w_rows w' = w_rows w"
  using assms
  by (auto simp: StoreMessage_def tryWrite_def Let_def split: bool.splits option.splits if_splits)

text \<open>Everything but one blob is kept.\<close>

definition grows_but :: "string \<times> string \<Rightarrow> 'db world \<Rightarrow> 'db world \<Rightarrow> bool" where
  "grows_but k w w' = grows w (w'\<lparr>w_blobs := fmupd k [] (w_blobs w')\<rparr>)"

lemma store_ok_blobs [simp]: "store_ok (w\<lparr>w_blobs := x\<rparr>) = store_ok w"
  by (simp add: store_ok_def ids_ok_def uids_ok_def)

lemma extends_blob:
  "extends w (w'\<lparr>w_blobs := fmupd k [] (w_blobs w')\<rparr>) \<longleftrightarrow>
     extends w (w'\<lparr>w_blobs := w_blobs w\<rparr>) \<and>
     (\<forall>k'. k' \<noteq> k \<longrightarrow> fmlookup (w_blobs w) k' \<noteq> None \<longrightarrow> fmlookup (w_blobs w') k' \<noteq> None)"
  by (auto simp: extends_def same_accounts_def)

lemma extends_blobs:
  "extends w w' \<longleftrightarrow>
     extends w (w'\<lparr>w_blobs := w_blobs w\<rparr>) \<and>
     (\<forall>k. fmlookup (w_blobs w) k \<noteq> None \<longrightarrow> fmlookup (w_blobs w') k \<noteq> None)"
  by (auto simp: extends_def same_accounts_def)

lemma grows_but_grows: "grows_but k w w' \<Longrightarrow> fmlookup (w_blobs w) k = None \<Longrightarrow> grows w w'"
  unfolding grows_but_def grows_def store_ok_blobs extends_blob extends_blobs [of w w'] by metis

lemma grows_grows_but: "grows w w' \<Longrightarrow> grows_but k w w'"
  unfolding grows_but_def grows_def store_ok_blobs extends_blob extends_blobs [of w w'] by blast

lemma grows_but_trans: "grows w w1 \<Longrightarrow> grows_but k w1 w' \<Longrightarrow> grows_but k w w'"
  unfolding grows_but_def by (rule grows_trans)

lemma grows_but_trans2:
  assumes "grows_but k w w1" "grows w1 w'"
  shows "grows_but k w w'"
proof -
  let ?a = "w1\<lparr>w_blobs := fmupd k [] (w_blobs w1)\<rparr>" and ?b = "w'\<lparr>w_blobs := fmupd k [] (w_blobs w')\<rparr>"
  have "extends ?a ?b" if "extends w1 w'"
    using that by (simp add: extends_def same_accounts_def)
  then have "grows ?a ?b" using assms(2) by (simp add: grows_def)
  then show ?thesis using assms(1) grows_trans unfolding grows_but_def by blast
qed

lemma DeleteMessageUnchecked_grows: "grows_but (u, i) w (DeleteMessageUnchecked E u i w)"
proof -
  obtain ok w1 where a: "tryWrite E w = (ok, w1)" by fastforce
  note s = tryWrite_snd [OF a]
  have "grows_but (u, i) w (w1\<lparr>w_blobs := fmdrop (u, i) (w_blobs w1)\<rparr>)"
    using s
    by (simp add: grows_but_def same_store_def grows_def extends_def same_accounts_def store_ok_def ids_ok_def uids_ok_def)
  then show ?thesis
    using a grows_grows_but [OF same_store_grows [OF s]]
    by (auto simp: DeleteMessageUnchecked_def grows_grows_but split: bool.splits)
qed

lemma DeleteMessageUnchecked_invalid:
  "\<not> isValidMessageID i \<Longrightarrow> DeleteMessageUnchecked E u i w = w"
  by (simp add: DeleteMessageUnchecked_def)

section \<open>Enqueueing without failing writes\<close>

lemma rollback_exact:
  "\<forall>n. \<not> e_fails E n \<Longrightarrow>
     fmlookup (w_queue (rollback E b i w)) k = (if fst k = b \<and> snd k < i then None else fmlookup (w_queue w) k) \<and>
     w_files (rollback E b i w) = w_files w"
proof (induction i)
  case (Suc i)
  then show ?case by (cases k) (auto simp: rollback_def Dequeue_def tryWrite_def less_Suc_eq)
qed (simp add: rollback_def)

lemma fm_len_fresh: "fmlookup m k = None \<Longrightarrow> fm_len (fmupd k v m) = Suc (fm_len m)"
  by (simp add: fm_len_def fcard_finsert_disjoint fmlookup_dom_iff)

lemma enqueueEntries_exact:
  assumes "\<forall>n. \<not> e_fails E n"
  shows "enqueueEntries E b entry i to w = (ok, w') \<Longrightarrow> \<forall>j. fmlookup (w_queue w) (b, j) \<noteq> None \<longrightarrow> j < i \<Longrightarrow>
     (ok \<longleftrightarrow> to = [] \<or> fm_len (w_queue w) + length to \<le> e_maxQueueSize E) \<and>
     (if ok then w_files w' = w_files w \<and>
        (\<forall>k. fmlookup (w_queue w') k = (if fst k = b \<and> i \<le> snd k \<and> snd k < i + length to
           then Some (entry (snd k) (to ! (snd k - i))) else fmlookup (w_queue w) k))
      else w_files w' = fmdrop b (w_files w) \<and>
        (\<forall>k. fmlookup (w_queue w') k = (if fst k = b then None else fmlookup (w_queue w) k)))"
proof (induction to arbitrary: i w)
  case (Cons t to)
  let ?w1 = "w\<lparr>w_calls := Suc (w_calls w)\<rparr>"
  let ?w2 = "?w1\<lparr>w_queue := fmupd (b, i) (entry i t) (w_queue w)\<rparr>"
  have fresh: "fmlookup (w_queue w) (b, i) = None" using Cons.prems(2) by blast
  show ?case
  proof (cases "fm_len (w_queue w) \<ge> e_maxQueueSize E")
    case True
    then have "ok = False" "w' = deleteFile E b (rollback E b i ?w1)"
      using Cons.prems(1) assms by (simp_all add: EnqueueWithLimit_def tryWrite_def)
    moreover have "fmlookup (w_queue (deleteFile E b x)) k = fmlookup (w_queue x) k"
        "w_files (deleteFile E b x) = fmdrop b (w_files x)" for x :: "'b world" and k
      using assms by (simp_all add: deleteFile_def tryWrite_def)
    ultimately show ?thesis
      using True rollback_exact [OF assms, of b i ?w1] Cons.prems(2) by (auto split: prod.splits)
  next
    case False
    have run: "enqueueEntries E b entry (i + 1) to ?w2 = (ok, w')"
      using Cons.prems(1) assms False by (simp add: EnqueueWithLimit_def tryWrite_def)
    have len: "fm_len (w_queue ?w2) = Suc (fm_len (w_queue w))" using fm_len_fresh [OF fresh] by simp
    have "\<forall>j. fmlookup (w_queue ?w2) (b, j) \<noteq> None \<longrightarrow> j < i + 1"
      using Cons.prems(2) by (auto simp: less_Suc_eq)
    note ih = Cons.IH [OF run this]
    show ?thesis
    proof (cases ok)
      case True
      then show ?thesis using ih len False by (auto simp: nth_Cons' Suc_le_eq le_less)
    next
      case False
      then show ?thesis using ih len \<open>\<not> fm_len (w_queue w) \<ge> e_maxQueueSize E\<close> by auto
    qed
  qed
qed auto

definition all_queued ::
  "'db world \<Rightarrow> 'db world \<Rightarrow> (nat \<Rightarrow> nat \<Rightarrow> string \<Rightarrow> queueEntry) \<Rightarrow> string list \<Rightarrow> string \<Rightarrow> bool" where
  \<comment> \<open>one new entry per recipient, for one new file, and nothing else\<close>
  "all_queued w w' entry to message =
     (let b = w_nextID w in
      w_files w' = fmupd b message (w_files w) \<and>
      (\<forall>k. fmlookup (w_queue w') k = (if fst k = b
         then (if snd k < length to then Some (entry b (snd k) (to ! snd k)) else None)
         else fmlookup (w_queue w) k)))"

lemma all_queued_calls [simp]: "all_queued (w\<lparr>w_calls := n\<rparr>) w' = all_queued w w'"
  by (intro ext) (simp add: all_queued_def)

lemma enqueueAll_exact:
  assumes ok: "\<forall>n. \<not> e_fails E n" "store_ok w" and to: "to \<noteq> []"
    and run: "enqueueAll E entry to message w = (b, w')"
  shows "(b \<longleftrightarrow> fm_len (w_queue w) + length to \<le> e_maxQueueSize E) \<and>
    (if b then all_queued w w' entry to message else w_queue w' = w_queue w \<and> w_files w' = w_files w)"
proof -
  let ?b = "w_nextID w"
  let ?w1 = "w\<lparr>w_nextID := ?b + 1, w_files := fmupd ?b message (w_files w), w_calls := Suc (Suc (w_calls w))\<rparr>"
  have "enqueueEntries E ?b (entry ?b) 0 to ?w1 = (b, w')"
    using run ok by (simp add: enqueueAll_def writeFile_def tryWrite_def Let_def)
  moreover have fresh: "fmlookup (w_queue w) (?b, j) = None" "fmlookup (w_files w) ?b = None" for j
    using ok(2) unfolding store_ok_def ids_ok_def by blast+
  ultimately have x: "(b \<longleftrightarrow> to = [] \<or> fm_len (w_queue w) + length to \<le> e_maxQueueSize E) \<and>
     (if b then w_files w' = fmupd ?b message (w_files w) \<and>
        (\<forall>k. fmlookup (w_queue w') k = (if fst k = ?b \<and> snd k < length to
           then Some (entry ?b (snd k) (to ! snd k)) else fmlookup (w_queue w) k))
      else w_files w' = fmdrop ?b (fmupd ?b message (w_files w)) \<and>
        (\<forall>k. fmlookup (w_queue w') k = (if fst k = ?b then None else fmlookup (w_queue w) k)))"
    using enqueueEntries_exact [OF ok(1), of ?b "entry ?b" 0 to ?w1 b w'] by simp
  show ?thesis
  proof (cases b)
    case True
    then show ?thesis using x to fresh(1) by (auto simp: all_queued_def Let_def)
  next
    case False
    have "fmlookup (w_queue w') k = fmlookup (w_queue w) k" for k
      using x False fresh(1) [of "snd k"] by (cases "fst k = ?b"; cases k) auto
    then have "w_queue w' = w_queue w" by (rule fmap_ext)
    moreover have "w_files w' = w_files w" using x False fresh(2) by (intro fmap_ext) auto
    ultimately show ?thesis using x False to by simp
  qed
qed

lemma Enqueue_exact:
  assumes "\<forall>n. \<not> e_fails E n" "store_ok w" "to \<noteq> []" "Enqueue E from to message w = (b, w')"
  shows "(b \<longleftrightarrow> fm_len (w_queue w) + length to \<le> e_maxQueueSize E) \<and>
    (if b then all_queued w w'
       (\<lambda>base i r. \<lparr>qe_From = from, qe_To = [r], qe_MessagePath = base, qe_Notify = 0\<rparr>) to message
     else w_queue w' = w_queue w \<and> w_files w' = w_files w)"
proof -
  let ?w = "w\<lparr>w_calls := Suc (w_calls w)\<rparr>"
  have "store_ok ?w" using assms(2) by (simp add: store_ok_def ids_ok_def uids_ok_def)
  from enqueueAll_exact [OF assms(1) this assms(3), of
      "\<lambda>base i r. \<lparr>qe_From = from, qe_To = [r], qe_MessagePath = base, qe_Notify = 0\<rparr>" message b w']
  show ?thesis using assms by (cases b) (simp_all add: Enqueue_def tryWrite_def)
qed

end
