(* ===== verification/Delivery_Demo.thy ===== *)
theory Delivery_Demo
  imports Sieve_Delivery Sieve_Manager_Facts Mail_Store_Facts
begin

text \<open>A small server for the witnesses of the delivery theories: one domain with one
  account and one alias, an in-memory script store, and a host on which no write fails.\<close>

definition demo_host :: "(string \<times> string) list senv" where
  "demo_host = \<lparr>e_fails = (\<lambda>_. False), e_sha256 = (\<lambda>_. replicate 64 (CHR ''a'')), e_hasQueue = True,
     e_hasStorage = True, e_maxQueueSize = 3, s_lib = mem_lib, s_bolt = None, s_expired = (\<lambda>_. False),
     s_header = (\<lambda>_. None), s_addressName = (\<lambda>_. []), s_filters = (\<lambda>_. None),
     s_dsn = (\<lambda>f data diag. Some (rf_rcpt f @ diag)), s_folderFault = (\<lambda>_. False),
     s_autoReply = (\<lambda>_ _ _ _. []), s_now = (\<lambda>_. 0), s_stopping = False\<rparr>"

definition demo_world :: "(string \<times> string) list world" where
  "demo_world = \<lparr>w_accounts = fmap_of_list [(AccountKey ''x.org'' ''bob'',
       \<lparr>ac_IsActive = True, ac_ForwardTo = [], ac_ForwardKeepCopy = False, ac_QuotaUsed = 5, ac_QuotaLimit = 90\<rparr>)],
     w_domains = fmap_of_list [(''x.org'', \<lparr>dm_IsActive = True, dm_CatchAllTarget = []\<rparr>)],
     w_aliases = fmap_of_list [(''x.org:info'', \<lparr>al_Target = ''Bob@x.org'', al_IsActive = True\<rparr>)],
     w_queue = fmempty, w_files = fmempty, w_nextID = 0, w_blobs = fmempty,
     w_uidnext = fmempty, w_rows = fmempty, w_manager = NewManager\<lparr>m_store := Some []\<rparr>,
     w_vacationReplies = fmempty, w_calls = 0, w_reads = 0\<rparr>"

lemma pair_of_fst: "fst p = a \<Longrightarrow> p = (a, snd p)"
  by auto

lemma demo_world_ok: "store_ok demo_world" "StoreAttached (w_manager demo_world)"
  by (simp_all add: demo_world_def store_ok_def ids_ok_def uids_ok_def StoreAttached_def)

lemma demo_host_ok: "e_hasQueue demo_host" "\<not> e_fails demo_host n"
  by (simp_all add: demo_host_def)

end
