(* ===== verification/Route_Facts.thy ===== *)
theory Route_Facts
  imports Delivery_Demo
begin

text \<open>
  What \<open>routeRecipient\<close> computes: the end of the chain of aliases that starts at
  the normalised address. The chain is a partial function of the address, so one
  that ends visits no address twice and the loop check never fires on it.
\<close>

section \<open>Chains of aliases\<close>

definition localDomain :: "'db world \<Rightarrow> string \<Rightarrow> bool" where
  "localDomain w d = (case GetDomain w d of None \<Rightarrow> False | Some dd \<Rightarrow> dm_IsActive dd)"

definition aliasHop :: "'db world \<Rightarrow> string \<times> string \<Rightarrow> (string \<times> string) option" where
  \<comment> \<open>the address an alias sends an address to\<close>
  "aliasHop w x =
     (let target = normalizeRcpt (fst (aliasTarget w (fst x) (snd x))) in
      if localDomain w (snd x) \<and> fst (aliasTarget w (fst x) (snd x)) \<noteq> [] \<and> fst target \<noteq> [] \<and> snd target \<noteq> []
      then Some target else None)"

fun hops :: "'db world \<Rightarrow> nat \<Rightarrow> string \<times> string \<Rightarrow> (string \<times> string) option" where
  "hops w 0 x = Some x"
| "hops w (Suc n) x = (case aliasHop w x of None \<Rightarrow> None | Some y \<Rightarrow> hops w n y)"

definition endRoute :: "'db world \<Rightarrow> string \<times> string \<Rightarrow> route" where
  "endRoute w x =
     (if localDomain w (snd x) then LocalBox (snd (aliasTarget w (fst x) (snd x))) (snd x)
      else External (fst x @ ''@'' @ snd x))"

definition endsAt :: "'db world \<Rightarrow> nat \<Rightarrow> string \<times> string \<Rightarrow> string \<times> string \<Rightarrow> bool" where
  \<comment> \<open>the chain from \<open>x\<close> ends at \<open>y\<close>, with \<open>n\<close> hops left for aliases and one more to
    leave the local domains\<close>
  "endsAt w n x y =
     (\<exists>k. hops w k x = Some y \<and> aliasHop w y = None \<and> (k \<le> n \<or> k = Suc n \<and> \<not> localDomain w (snd y)))"

lemma hops_add: "hops w (m + n) x = (case hops w m x of None \<Rightarrow> None | Some y \<Rightarrow> hops w n y)"
  by (induction m arbitrary: x) (auto split: option.splits)

lemma hops_end:
  assumes "hops w m x = Some y" "aliasHop w y = None" "m < n"
  shows "hops w n x = None"
proof -
  obtain k where k: "n = m + Suc k" using assms(3) less_imp_Suc_add by auto
  show ?thesis unfolding k hops_add assms(1) using assms(2) by simp
qed

lemma hops_no_cycle:
  assumes "hops w n x = Some y" "aliasHop w y = None" "0 < k" "k \<le> n"
  shows "hops w k x \<noteq> Some x"
proof
  assume "hops w k x = Some x"
  then have "hops w (n - k) x = Some y" using hops_add [of w k "n - k" x] assms by simp
  then show False using hops_end [OF _ assms(2), of "n - k" x n] assms by simp
qed

section \<open>Addresses\<close>

lemma last_index_after: "last_index_byte s c = Some i \<Longrightarrow> c \<notin> set (drop (Suc i) s)"
proof (induction s arbitrary: i)
  case (Cons a s)
  show ?case
  proof (cases "last_index_byte s c")
    case None
    then have "c \<notin> set s" by (induction s) (auto split: option.splits if_splits)
    then show ?thesis using Cons None by (auto split: if_splits)
  qed (use Cons in auto)
qed simp

lemma lower_byte_at:
  assumes "lower_byte c = CHR ''@''"
  shows "c = CHR ''@''"
proof (rule ccontr)
  assume "c \<noteq> CHR ''@''"
  then have c: "65 \<le> byte c" "byte c \<le> 90" "char_of (byte c + 32) = CHR ''@''"
    using assms by (auto simp: lower_byte_def split: if_splits)
  from c(3) have "byte (char_of (byte c + 32)) = byte (CHR ''@'')" by simp
  then show False using c(1,2) by simp
qed

lemma domain_no_at: "CHR ''@'' \<notin> set (snd (normalizeRcpt a))"
proof -
  have "CHR ''@'' \<notin> set (snd (parseEmail s))" for s
    using last_index_after by (auto simp: parseEmail_def split: option.splits)
  then have "CHR ''@'' \<notin> set (to_lower (snd (parseEmail (trim_space a))))"
    using lower_byte_at by (force simp: to_lower_def)
  then show ?thesis
    by (auto simp: normalizeRcpt_def trim_right_def split: prod.splits dest: set_dropWhileD)
qed

definition addr :: "string \<times> string \<Rightarrow> string" where
  "addr x = fst x @ ''@'' @ snd x"

lemma addr_inj:
  assumes "addr x = addr y" "CHR ''@'' \<notin> set (snd x)" "CHR ''@'' \<notin> set (snd y)"
  shows "x = y"
proof -
  have take: "takeWhile (\<lambda>c. c \<noteq> CHR ''@'') (rev (addr x)) = rev (snd x)" if "CHR ''@'' \<notin> set (snd x)" for x
    using that by (auto simp: addr_def takeWhile_append)
  have "snd x = snd y" using take [OF assms(2)] take [OF assms(3)] assms(1) by simp
  then show ?thesis using assms(1) by (cases x, cases y) (simp add: addr_def)
qed

lemma hop_no_at: "aliasHop w x = Some y \<Longrightarrow> CHR ''@'' \<notin> set (snd y)"
  using domain_no_at by (auto simp: aliasHop_def Let_def split: if_splits)

lemma hops_no_at: "hops w n x = Some y \<Longrightarrow> CHR ''@'' \<notin> set (snd x) \<Longrightarrow> CHR ''@'' \<notin> set (snd y)"
  by (induction n arbitrary: x) (auto split: option.splits dest: hop_no_at)

section \<open>The loop follows the chain\<close>

lemma routeFrom_eq:
  "routeFrom w hop seen u d =
     (if \<not> localDomain w d then External (addr (u, d))
      else if addr (u, d) \<in> set seen \<or> hop > maxAliasHops then AliasLoop (addr (u, d))
      else (case aliasHop w (u, d) of
              None \<Rightarrow> endRoute w (u, d)
            | Some y \<Rightarrow> routeFrom w (hop + 1) (addr (u, d) # seen) (fst y) (snd y)))"
  unfolding routeFrom.simps [of w hop seen u d] Let_def
  by (auto simp: localDomain_def aliasHop_def endRoute_def addr_def Let_def split: option.splits prod.splits)

lemma routeFrom_ends:
  "hops w k x = Some y \<Longrightarrow> aliasHop w y = None \<Longrightarrow>
     hop + k \<le> maxAliasHops \<or> hop + k = Suc maxAliasHops \<and> \<not> localDomain w (snd y) \<Longrightarrow>
     CHR ''@'' \<notin> set (snd x) \<Longrightarrow> \<forall>j z. j \<le> k \<longrightarrow> hops w j x = Some z \<longrightarrow> addr z \<notin> set seen \<Longrightarrow>
     routeFrom w hop seen (fst x) (snd x) = endRoute w y"
proof (induction k arbitrary: x hop seen)
  case 0
  then show ?case by (auto simp: routeFrom_eq [of w hop seen] endRoute_def addr_def)
next
  case (Suc k)
  obtain x1 where x1: "aliasHop w x = Some x1" "hops w k x1 = Some y"
    using Suc.prems(1) by (auto split: option.splits)
  have loc: "localDomain w (snd x)" using x1(1) by (auto simp: aliasHop_def Let_def split: if_splits)
  have "addr x \<notin> set seen" using Suc.prems(5) by fastforce
  moreover have "hop \<le> maxAliasHops" using Suc.prems(3) by auto
  moreover have "addr z \<notin> set (addr x # seen)" if z: "j \<le> k" "hops w j x1 = Some z" for j z
  proof -
    have xz: "hops w (Suc j) x = Some z" using x1(1) z(2) by simp
    have "z \<noteq> x" using hops_no_cycle [OF Suc.prems(1,2), of "Suc j"] xz z(1) by auto
    then have "addr z \<noteq> addr x" using addr_inj [of z x] hops_no_at [OF xz Suc.prems(4)] Suc.prems(4) by blast
    moreover have "addr z \<notin> set seen" using Suc.prems(5) xz z(1) by (meson Suc_le_mono)
    ultimately show ?thesis by simp
  qed
  ultimately show ?case
    using Suc.IH [OF x1(2) Suc.prems(2) _ hop_no_at [OF x1(1)], of "hop + 1" "addr x # seen"] Suc.prems(3) loc x1(1)
    by (auto simp: routeFrom_eq [of w hop seen])
qed

lemma routeFrom_loops:
  "hop + m = Suc maxAliasHops \<Longrightarrow> (\<nexists>a. routeFrom w hop seen u d = AliasLoop a) \<Longrightarrow>
     \<exists>k y. hops w k (u, d) = Some y \<and> aliasHop w y = None \<and> (k < m \<or> k = m \<and> \<not> localDomain w (snd y))"
proof (induction m arbitrary: hop seen u d)
  case 0
  then have "\<not> localDomain w d" by (auto simp: routeFrom_eq [of w "Suc maxAliasHops"] split: if_splits)
  then show ?case by (intro exI [of _ 0]) (simp add: aliasHop_def)
next
  case (Suc m)
  show ?case
  proof (cases "localDomain w d \<and> aliasHop w (u, d) \<noteq> None")
    case True
    then obtain y where y: "aliasHop w (u, d) = Some y" by auto
    have "\<nexists>a. routeFrom w (hop + 1) (addr (u, d) # seen) (fst y) (snd y) = AliasLoop a"
      using Suc.prems(2) True y by (auto simp: routeFrom_eq [of w hop seen] split: if_splits)
    then obtain k z where "hops w k y = Some z" "aliasHop w z = None" "k < m \<or> k = m \<and> \<not> localDomain w (snd z)"
      using Suc.IH [of "hop + 1" "addr (u, d) # seen" "fst y" "snd y"] Suc.prems(1) by auto
    then show ?thesis using y by (intro exI [of _ "Suc k"] exI [of _ z]) auto
  next
    case False
    moreover have "\<not> localDomain w d \<Longrightarrow> aliasHop w (u, d) = None" by (simp add: aliasHop_def)
    ultimately have "aliasHop w (u, d) = None" by blast
    then show ?thesis by (intro exI [of _ 0]) simp
  qed
qed

text \<open>
  C6. Aliases resolve to the end of their chain. If the chain of active aliases
  that starts at a recipient ends, within ten hops or with an eleventh that leaves
  the local domains, \<^verbatim>\<open>routeRecipient\<close> gives exactly that end: the mailbox of a local
  domain (with a plus tag removed where no such account exists), or the external
  address. It reports an alias loop exactly when the chain does not end that soon.
  So a chain of eleven hops that leaves the local domains is followed, although the
  comments on \<^verbatim>\<open>maxAliasHops\<close> and \<^verbatim>\<open>routeRecipient\<close> say that a chain of more than ten
  hops is refused.
\<close>

theorem routeRecipient_exact:
  "(\<forall>y. endsAt w maxAliasHops (normalizeRcpt r) y \<longrightarrow> routeRecipient w r = endRoute w y) \<and>
   ((\<exists>a. routeRecipient w r = AliasLoop a) \<longleftrightarrow> (\<nexists>y. endsAt w maxAliasHops (normalizeRcpt r) y))"
proof -
  have at: "CHR ''@'' \<notin> set (snd (normalizeRcpt r))" by (rule domain_no_at)
  have route: "routeRecipient w r = routeFrom w 0 [] (fst (normalizeRcpt r)) (snd (normalizeRcpt r))"
    by (simp add: routeRecipient_def case_prod_beta)
  have ends: "routeRecipient w r = endRoute w y" if fin: "endsAt w maxAliasHops (normalizeRcpt r) y" for y
  proof -
    obtain k where k: "hops w k (normalizeRcpt r) = Some y" "aliasHop w y = None"
        "0 + k \<le> maxAliasHops \<or> 0 + k = Suc maxAliasHops \<and> \<not> localDomain w (snd y)"
      using fin unfolding endsAt_def by auto
    show ?thesis unfolding route by (rule routeFrom_ends [OF k at]) simp
  qed
  have "\<exists>y. endsAt w maxAliasHops (normalizeRcpt r) y" if none: "\<nexists>a. routeRecipient w r = AliasLoop a"
  proof -
    obtain k y where "hops w k (normalizeRcpt r) = Some y" "aliasHop w y = None"
        "k < Suc maxAliasHops \<or> k = Suc maxAliasHops \<and> \<not> localDomain w (snd y)"
      using routeFrom_loops [OF add_0 none [unfolded route]] unfolding prod.collapse by blast
    then show ?thesis unfolding endsAt_def less_Suc_eq_le by blast
  qed
  moreover have "endRoute w y \<noteq> AliasLoop a" for y a by (simp add: endRoute_def)
  ultimately show ?thesis using ends by metis
qed

theorem routeRecipient_exact_witness:
  "routeRecipient demo_world ''Info@x.org.'' = LocalBox ''bob'' ''x.org''"
proof -
  have "hops demo_world 1 (normalizeRcpt ''Info@x.org.'') = Some (''bob'', ''x.org'') \<and>
      aliasHop demo_world (''bob'', ''x.org'') = None" by code_simp
  then have "endsAt demo_world maxAliasHops (normalizeRcpt ''Info@x.org.'') (''bob'', ''x.org'')"
    unfolding endsAt_def maxAliasHops_def by (metis one_le_numeral)
  moreover have "endRoute demo_world (''bob'', ''x.org'') = LocalBox ''bob'' ''x.org''" by code_simp
  ultimately show ?thesis using routeRecipient_exact [of demo_world "''Info@x.org.''"] by metis
qed

end
