(* ===== verification/Delivery_Facts.thy ===== *)
theory Delivery_Facts
  imports Delivery_Demo
begin

text \<open>
  What delivery guarantees for one mailbox: a copy that counts as delivered is in
  its folder with its flags (\<open>filed\<close>) or in the queue for every address the account
  forwards to (\<open>forwarded\<close>), nothing stored before is touched, and the quota of the
  owner counts exactly the new bytes.
\<close>

section \<open>Where a message can be found\<close>

definition filed :: "'e host_scheme \<Rightarrow> 'db world \<Rightarrow> 'db world \<Rightarrow> string \<Rightarrow> string \<Rightarrow> string list \<Rightarrow> string \<Rightarrow> bool" where
  \<comment> \<open>the message is stored, and a new row of the folder refers to it and has the flags\<close>
  "filed E w w' email folder flags data =
     (fmlookup (w_blobs w') (email, e_sha256 E data) \<noteq> None \<and>
      (e_hasStorage E \<longrightarrow>
        (\<exists>uid. fmlookup (w_rows w) ((email, folder), uid) = None \<and>
           fmlookup (w_rows w') ((email, folder), uid) =
             Some \<lparr>md_MessageID = e_sha256 E data, md_Flags = normalizeFlags ([BSLASH # ''Recent''] @ flags),
                   md_Size = int (length data)\<rparr>)))"

definition forwarded :: "'db world \<Rightarrow> 'db world \<Rightarrow> account \<Rightarrow> string \<Rightarrow> string \<Rightarrow> bool" where
  \<comment> \<open>the account keeps no copy of what it forwards, and every address it forwards to has
    the message in the queue, with the loop mark\<close>
  "forwarded w w' a email data =
     (\<not> ac_ForwardKeepCopy a \<and>
      (let fs = filter (\<lambda>f. f \<noteq> []) (map trim_space (split_byte (CHR '','') (ac_ForwardTo a))) in
       fs \<noteq> [] \<and> (\<forall>f \<in> set fs. queued w w' email f (addMailLoopHeader data email))))"

lemma filed_later: "filed E w w1 email folder flags i \<Longrightarrow> extends w1 w' \<Longrightarrow> filed E w w' email folder flags i"
  unfolding filed_def extends_def by metis

lemma filed_earlier: "filed E w1 w' email folder flags i \<Longrightarrow> extends w w1 \<Longrightarrow> filed E w w' email folder flags i"
  unfolding filed_def extends_def by (metis option.exhaust option.distinct(1))

lemma forwarded_later: "forwarded w w1 a email data \<Longrightarrow> store_ok w1 \<Longrightarrow> extends w1 w' \<Longrightarrow> forwarded w w' a email data"
  unfolding forwarded_def Let_def using queued_later by blast

lemma forwarded_earlier: "forwarded w1 w' a email data \<Longrightarrow> extends w w1 \<Longrightarrow> forwarded w w' a email data"
  unfolding forwarded_def Let_def using queued_earlier by blast

section \<open>Storing\<close>

lemma metaFail_result: "fst (metaFail E u d i reserved w) = Some ErrMetadata"
  by (simp add: metaFail_def Let_def)

lemma metaFail_grows:
  "reserved \<le> int64_max \<Longrightarrow> grows_but (u @ ''@'' @ d, i) w (snd (metaFail E u d i reserved w))"
  unfolding metaFail_def Let_def
  by (auto intro: grows_but_trans2 [OF DeleteMessageUnchecked_grows IncrementQuota_grows] grows_grows_but)

lemma metaFail_keeps:
  "reserved \<le> int64_max \<Longrightarrow> \<not> (reserved > 0 \<and> isValidMessageID i) \<Longrightarrow> grows w (snd (metaFail E u d i reserved w))"
  by (auto simp: metaFail_def Let_def DeleteMessageUnchecked_invalid intro: IncrementQuota_grows)

lemma storeMetadata_cases:
  assumes "storeMetadata E u d folder data i flags reserved w = (err, w')" "store_ok w"
  obtains (stored) uid w1 where "err = None" "grows w w1" "fmlookup (w_rows w1) ((u @ ''@'' @ d, folder), uid) = None"
      "grows w1 w'" "fmlookup (w_rows w') ((u @ ''@'' @ d, folder), uid) =
         Some \<lparr>md_MessageID = i, md_Flags = normalizeFlags ([BSLASH # ''Recent''] @ flags), md_Size = int (length data)\<rparr>"
    | (failed) w1 where "grows w w1" "metaFail E u d i reserved w1 = (err, w')"
proof -
  let ?email = "u @ ''@'' @ d"
  let ?w1 = "if folder \<noteq> ''INBOX'' then CreateMailbox E ?email folder w else w"
  have g1: "grows w ?w1" by (simp add: CreateMailbox_grows)
  obtain r w2 where uid: "GetNextUID E ?email folder ?w1 = (r, w2)" by fastforce
  have g2: "grows w w2" using grows_trans [OF g1 GetNextUID_grows [of ?w1 E ?email folder]] uid by simp
  have ok1: "store_ok ?w1" using growsD [OF g1 assms(2)] by simp
  show thesis
  proof (cases r)
    case None
    then show thesis
      using failed [OF g2] assms(1) unfolding storeMetadata_def Let_def uid by simp
  next
    case (Some n)
    define meta where "meta = \<lparr>md_MessageID = i, md_Flags = [BSLASH # ''Recent''] @ flags, md_Size = int (length data)\<rparr>"
    obtain b w3 where row: "StoreMessageMetadata E ?email folder n meta w2 = (b, w3)" by fastforce
    note fresh = GetNextUID_fresh [OF uid [unfolded Some] ok1]
    have g3: "grows w2 w3"
      using StoreMessageMetadata_grows [OF fresh(1) _ fresh(2), of E meta] row by simp
    have res: "(err, w') = (if b then (None, w3) else metaFail E u d i reserved w3)"
      using assms(1) row unfolding storeMetadata_def Let_def uid Some meta_def by (cases b) simp_all
    show thesis
    proof (cases b)
      case True
      then show thesis
        using stored [OF _ g2] fresh(2) g3 StoreMessageMetadata_True [of E ?email folder n meta w2 w3] row res
        by (simp add: meta_def)
    next
      case False
      then show thesis using failed [OF grows_trans [OF g2 g3]] res by simp
    qed
  qed
qed

lemma storeLocal_cases:
  assumes "storeLocal E u d folder data flags w = (err, w')"
  obtains (refused) "err \<noteq> None" "grows w w'"
    | (stored) w1 where "grows w w1" "err = None" "w1 = w'" "\<not> e_hasStorage E"
        "fmlookup (w_blobs w1) (u @ ''@'' @ d, e_sha256 E data) \<noteq> None"
    | (rest) w1 reserved where "grows w w1" "e_hasStorage E" "reserved \<le> int64_max"
        "fmlookup (w_blobs w1) (u @ ''@'' @ d, e_sha256 E data) \<noteq> None"
        "reserved > 0 \<and> isValidMessageID (e_sha256 E data) \<longrightarrow> fmlookup (w_blobs w) (u @ ''@'' @ d, e_sha256 E data) = None"
        "storeMetadata E u d folder data (e_sha256 E data) flags reserved w1 = (err, w')"
proof -
  let ?email = "u @ ''@'' @ d" and ?i = "e_sha256 E data"
  let ?reserved = "if MessageExists w ?email ?i then 0 else int (length data)"
  obtain b w1 where q: "(if ?reserved > 0 then IncrementQuota E d u ?reserved w else (True, w)) = (b, w1)" by fastforce
  obtain r w2 where m: "StoreMessage E ?email data w1 = (r, w2)" by fastforce
  have small: "?reserved \<le> int64_max" if b
  proof (cases "?reserved > 0")
    case True
    then have "IncrementQuota E d u ?reserved w = (True, w1)" using q that by simp
    then obtain a x where "quotaAfter a ?reserved = Some x" by (rule IncrementQuota_True)
    then show ?thesis using quotaAfter_add(1,2) [OF _ True] used_nonneg [of a] by fastforce
  qed (simp add: int64_max_def)
  have g1: "grows w w1"
    using q IncrementQuota_grows [of ?reserved w E d u] by (cases "?reserved > 0") (auto simp: int64_max_def)
  have g2: "grows w w2" using grows_trans [OF g1 StoreMessage_grows [of w1 E ?email data]] m by simp
  show thesis
  proof (cases "\<exists>a. GetAccount w d u = Some a \<and> ac_IsActive a")
    case False
    then show thesis using refused assms by (auto simp: storeLocal_def Let_def split: option.splits if_splits)
  next
    case True
    then obtain a where a: "GetAccount w d u = Some a" "ac_IsActive a" by blast
    have run: "(case (b, w1) of (False, w) \<Rightarrow> (Some ErrMailboxFull, w)
        | (True, w) \<Rightarrow> (case StoreMessage E ?email data w of
              (None, w) \<Rightarrow> (Some ErrStore, if ?reserved > 0 then snd (IncrementQuota E d u (- ?reserved) w) else w)
            | (Some i, w) \<Rightarrow> if e_hasStorage E then storeMetadata E u d folder data i flags ?reserved w else (None, w))) = (err, w')"
      using assms unfolding storeLocal_def Let_def q a(1)
      by (simp only: a(2) not_True_eq_False if_False option.simps)
    have released: "b \<Longrightarrow> grows w (snd (IncrementQuota E d u (- ?reserved) w2))"
      by (rule grows_trans [OF g2 IncrementQuota_grows]) (use small in linarith)
    consider "\<not> b" | "b" "r = None" | "b" "r = Some ?i" "fmlookup (w_blobs w2) (?email, ?i) \<noteq> None"
      using StoreMessage_Some [of E ?email data w1 _ w2] m by (cases r) auto
    then show thesis
    proof cases
      case 1
      then show thesis using refused run g1 by auto
    next
      case 2
      then show thesis using refused run m g2 released by (auto split: if_splits)
    next
      case 3
      have "?reserved > 0 \<and> isValidMessageID ?i \<longrightarrow> fmlookup (w_blobs w) (?email, ?i) = None"
        using StoreMessage_Some(3) [of E ?email data w1 ?i w2] m 3 by (auto simp: MessageExists_def split: option.splits)
      then show thesis using stored [OF g2] rest [OF g2, of ?reserved] small run m 3 by (cases "e_hasStorage E") auto
    qed
  qed
qed

lemma storeLocal_grows [grow]: "grows w (snd (storeLocal E u d folder data flags w))"
proof -
  obtain err w' where s: "storeLocal E u d folder data flags w = (err, w')" by fastforce
  from s have "grows w w'"
  proof (cases rule: storeLocal_cases)
    case (rest w1 reserved)
    have "grows w w'" if ok: "store_ok w"
    proof -
      have ok1: "store_ok w1" using growsD [OF rest(1) ok] by simp
      show ?thesis
        using rest(6) ok1
      proof (cases rule: storeMetadata_cases)
        case (stored uid w2)
        then show ?thesis using grows_trans [OF rest(1) grows_trans] by blast
      next
        case (failed w2)
        note g = grows_trans [OF rest(1) failed(1)]
        show ?thesis
        proof (cases "reserved > 0 \<and> isValidMessageID (e_sha256 E data)")
          case True
          then show ?thesis
            using grows_but_grows [OF grows_but_trans [OF g metaFail_grows [OF rest(3), of u d "e_sha256 E data" w2 E]]]
              failed(2) rest(5) by simp
        next
          case False
          then show ?thesis using grows_trans [OF g metaFail_keeps [OF rest(3) False, of w2 E u d]] failed(2) by simp
        qed
      qed
    qed
    then show ?thesis by (auto simp: grows_def)
  qed simp_all
  then show ?thesis by (simp add: s)
qed

lemma storeLocal_filed:
  assumes "storeLocal E u d folder data flags w = (None, w')" "store_ok w"
  shows "filed E w w' (u @ ''@'' @ d) folder flags data"
  using assms(1)
proof (cases rule: storeLocal_cases)
  case (stored w1)
  then show ?thesis by (simp add: filed_def)
next
  case (rest w1 reserved)
  have ok1: "store_ok w1" and e1: "extends w w1" using growsD [OF rest(1) assms(2)] by simp_all
  show ?thesis
    using rest(6) ok1
  proof (cases rule: storeMetadata_cases)
    case (stored uid w2)
    have e2: "extends w1 w2" and ok2: "store_ok w2" using growsD [OF stored(2) ok1] by simp_all
    have "extends w2 w'" using growsD [OF stored(4) ok2] by simp
    then have "extends w1 w'" using extends_trans [OF e2] by blast
    then have "fmlookup (w_blobs w') (u @ ''@'' @ d, e_sha256 E data) \<noteq> None"
      using rest(4) unfolding extends_def by metis
    moreover have "fmlookup (w_rows w) ((u @ ''@'' @ d, folder), uid) = None"
      using stored(3) extends_trans [OF e1 e2] unfolding extends_def by (metis not_None_eq)
    ultimately show ?thesis unfolding filed_def using stored(5) by blast
  next
    case (failed w2)
    then show ?thesis using metaFail_result [of E u d "e_sha256 E data" reserved w2] by simp
  qed
qed simp

section \<open>Accounts and routes\<close>

definition ownBox :: "'db world \<Rightarrow> string \<Rightarrow> string \<Rightarrow> (string \<times> string) option" where
  \<comment> \<open>user and domain of an active account\<close>
  "ownBox w user0 domain0 =
     (let user = to_lower user0; domain = trim_right (to_lower domain0) {CHR ''.''} in
      if map_option ac_IsActive (GetAccount w domain user) = Some True then Some (user, domain) else None)"

definition finalBox :: "'db world \<Rightarrow> string \<Rightarrow> string \<Rightarrow> (string \<times> string) option" where
  \<comment> \<open>the mailbox, or the one the domain's catch-all names\<close>
  "finalBox w user domain =
     (if ownBox w user domain \<noteq> None then ownBox w user domain
      else case GetDomain w (trim_right (to_lower domain) {CHR ''.''}) of
             None \<Rightarrow> None
           | Some d \<Rightarrow> (case normalizeRcpt (dm_CatchAllTarget d) of (u, c) \<Rightarrow>
               if dm_CatchAllTarget d \<noteq> [] \<and> u \<noteq> [] \<and> c \<noteq> [] then ownBox w u c else None))"

lemma account_same:
  assumes "extends w w'" and f: "\<And>a x. f (a\<lparr>ac_QuotaUsed := x\<rparr>) = f a"
  shows "map_option f (GetAccount w' d u) = map_option f (GetAccount w d u)"
proof -
  have "map_option (\<lambda>a. a\<lparr>ac_QuotaUsed := 0\<rparr>) (GetAccount w' d u) =
      map_option (\<lambda>a. a\<lparr>ac_QuotaUsed := 0\<rparr>) (GetAccount w d u)"
    using assms by (simp add: extends_def same_accounts_def GetAccount_def)
  then have "map_option f (map_option (\<lambda>a. a\<lparr>ac_QuotaUsed := 0\<rparr>) (GetAccount w' d u)) =
      map_option f (map_option (\<lambda>a. a\<lparr>ac_QuotaUsed := 0\<rparr>) (GetAccount w d u))" by simp
  then show ?thesis by (simp add: option.map_comp comp_def f)
qed

lemma account_active: "extends w w' \<Longrightarrow> map_option ac_IsActive (GetAccount w' d u) = map_option ac_IsActive (GetAccount w d u)"
  by (rule account_same) simp_all

lemma account_forward:
  assumes "extends w w'" "GetAccount w' d u = Some a'"
  shows "\<exists>a. GetAccount w d u = Some a \<and> ac_ForwardTo a = ac_ForwardTo a' \<and> ac_ForwardKeepCopy a = ac_ForwardKeepCopy a'"
  using account_same [OF assms(1), of "\<lambda>a. (ac_ForwardTo a, ac_ForwardKeepCopy a)" d u] assms(2)
  by (cases "GetAccount w d u") simp_all

lemma ownBox_extends: "extends w w' \<Longrightarrow> ownBox w' = ownBox w"
  by (intro ext) (simp only: ownBox_def account_active)

lemma extends_domains: "extends w w' \<Longrightarrow> w_domains w' = w_domains w"
  by (simp add: extends_def)

lemma extends_aliases: "extends w w' \<Longrightarrow> w_aliases w' = w_aliases w"
  by (simp add: extends_def)

lemma finalBox_extends: "extends w w' \<Longrightarrow> finalBox w' u d = finalBox w u d"
  by (simp only: finalBox_def GetDomain_def ownBox_extends extends_domains)

lemma routeFrom_extends: "extends w w' \<Longrightarrow> routeFrom w' hop seen u d = routeFrom w hop seen u d"
proof (induction w hop seen u d rule: routeFrom.induct)
  case (1 w hop seen u d)
  have none: "(GetAccount w' e v = None) = (GetAccount w e v = None)" for e v
    using account_active [OF 1(2), of e v] by (cases "GetAccount w e v"; cases "GetAccount w' e v") simp_all
  have same_alias: "aliasTarget w' u d = aliasTarget w u d"
    unfolding aliasTarget_def none ResolveAlias_def GetAlias_def extends_aliases [OF 1(2)] by (rule refl)
  have dom: "GetDomain w' d = GetDomain w d" using 1(2) by (simp add: GetDomain_def extends_domains)
  show ?case
    unfolding routeFrom.simps [of w' hop seen u d] routeFrom.simps [of w hop seen u d] same_alias dom Let_def
    using 1 by (auto split: option.splits prod.splits)
qed

lemma route_extends: "extends w w' \<Longrightarrow> routeRecipient w' r = routeRecipient w r"
  by (simp add: routeRecipient_def routeFrom_extends split: prod.splits)

section \<open>Forwarding\<close>

lemma forwardAll_grows [grow]: "grows w (snd (forwardAll E email data fs st w))"
proof (induction E email data fs st w rule: forwardAll.induct)
  case (2 E email data fwd fs n failed w)
  show ?case
    using 2 grows_trans [OF Enqueue_grows [of w E email "[trim_space fwd]" data]]
    by (auto simp: Let_def split: prod.splits bool.splits)
qed simp

lemma forwardAll_queued:
  "forwardAll E email data fs (n, failed) w = ((n', False), w') \<Longrightarrow> store_ok w \<Longrightarrow>
     \<not> failed \<and> (\<forall>f \<in> set fs. trim_space f \<noteq> [] \<longrightarrow> queued w w' email (trim_space f) data) \<and>
     (n < n' \<longrightarrow> (\<exists>f \<in> set fs. trim_space f \<noteq> []))"
proof (induction fs arbitrary: n failed w)
  case (Cons fwd fs)
  obtain b w1 where e: "Enqueue E email [trim_space fwd] data w = (b, w1)" by fastforce
  have g: "store_ok w1" "extends w w1"
    using growsD [OF Enqueue_grows Cons.prems(2), of E email "[trim_space fwd]" data] e by simp_all
  have no: "forwardAll E email data fs (n, True) x \<noteq> ((n', False), w')" if "store_ok x" for x
    using Cons.IH [of n True x] that by blast
  consider (skip) "trim_space fwd = []" "forwardAll E email data fs (n, failed) w = ((n', False), w')"
    | (sent) "trim_space fwd \<noteq> []" "b" "forwardAll E email data fs (n + 1, failed) w1 = ((n', False), w')"
    using Cons.prems e no [OF Cons.prems(2)] no [OF g(1)]
    by (auto simp: Let_def split: if_splits bool.splits)
  then show ?case
  proof cases
    case skip
    then show ?thesis using Cons.IH [OF skip(2) Cons.prems(2)] by auto
  next
    case sent
    have "grows w1 w'" using forwardAll_grows [of w1 E email data fs "(n + 1, failed)"] sent(3) by simp
    then have "queued w w' email (trim_space fwd) data"
      using Enqueue_queued [of E email "[trim_space fwd]" data w w1 "trim_space fwd"] e sent(2) g(1)
        queued_later [of w w1 email "trim_space fwd" data w'] growsD by auto
    then show ?thesis using Cons.IH [OF sent(3) g(1)] queued_earlier [OF _ g(2)] sent(1) by auto
  qed
qed simp

lemma forwardMail_grows [grow]: "grows w (snd (forwardMail E a email data w))"
proof -
  have step: "forwardAll E email d fs st w = (r, w') \<Longrightarrow> grows w w'" for d fs st r w'
    using forwardAll_grows [of w E email d fs st] by simp
  show ?thesis by (auto simp: forwardMail_def Let_def split: prod.splits if_splits intro: step)
qed

lemma forwardMail_forwarded:
  assumes "forwardMail E a email data w = (True, w')" "store_ok w"
  shows "forwarded w w' a email data"
proof -
  let ?fs = "split_byte (CHR '','') (ac_ForwardTo a)" and ?data = "addMailLoopHeader data email"
  obtain n where n: "forwardAll E email ?data ?fs (0, False) w = ((n, False), w')" "0 < n" "\<not> ac_ForwardKeepCopy a"
    using assms(1) by (auto simp: forwardMail_def Let_def split: prod.splits if_splits)
  show ?thesis
    using forwardAll_queued [OF n(1) assms(2)] n(2,3) by (auto simp: forwarded_def Let_def filter_empty_conv)
qed

section \<open>One copy\<close>

definition dropped :: "copyState option \<Rightarrow> bool" where
  \<comment> \<open>an earlier copy was forwarded and leaves nothing behind\<close>
  "dropped st = (case st of None \<Rightarrow> False | Some s \<Rightarrow> cs_dropLocal s)"

abbreviation flags_in :: "copyState option \<Rightarrow> string list" where
  "flags_in st \<equiv> (case st of None \<Rightarrow> [] | Some s \<Rightarrow> cs_flags s)"

lemma deliverToAccount_cases:
  assumes "deliverToAccount E a u d from data st folder w = (err, st', w')"
  obtains (gone) "dropped st" "st' = st" "w' = w" "err = None"
    | (forwarded) "forwardMail E a (u @ ''@'' @ d) data w = (True, w')" "(st' = None) = (st = None)" "err = None"
    | (stored) w1 where "grows w w1" "storeLocal E u d folder (addReturnPath data from) (flags_in st) w1 = (err, w')"
        "(st' = None) = (st = None)" "dropped st' \<longrightarrow> dropped st"
proof -
  obtain c w1 where f: "forwardMail E a (u @ ''@'' @ d) data w = (c, w1)" by fastforce
  have g: "grows w w1" using forwardMail_grows [of w E a "u @ ''@'' @ d" data] f by simp
  have sw: "storeLocal E u d folder (addReturnPath data from) (flags_in st) x = (err, w') \<Longrightarrow> x \<in> {w, w1} \<Longrightarrow>
      (st' = None) = (st = None) \<Longrightarrow> dropped st' \<longrightarrow> dropped st \<Longrightarrow> thesis" for x
    using stored [of w] stored [of w1] g by auto
  show thesis
  proof (cases st)
    case None
    then show thesis
      using assms f forwarded sw [of w] sw [of w1]
      by (cases c) (auto simp: deliverToAccount_def Let_def split: if_splits prod.splits)
  next
    case (Some s)
    then show thesis
      using assms f forwarded gone sw [of w] sw [of w1]
      by (cases c) (auto simp: deliverToAccount_def Let_def dropped_def split: if_splits prod.splits)
  qed
qed

lemma deliverToAccount_grows:
  assumes "deliverToAccount E a u d from data st folder w = (err, st', w')"
  shows "grows w w'"
  using assms
proof (cases rule: deliverToAccount_cases)
  case forwarded
  then show ?thesis using forwardMail_grows [of w E a "u @ ''@'' @ d" data] by simp
next
  case (stored w1)
  then show ?thesis
    using grows_trans [OF _ storeLocal_grows [of w1 E u d folder "addReturnPath data from" "flags_in st"]] by simp
qed simp

lemma deliverToAccount_evidence:
  assumes "deliverToAccount E a u d from data st folder w = (err, st', w')" "store_ok w" "\<not> dropped st"
  shows "dropped st' \<Longrightarrow> forwarded w w' a (u @ ''@'' @ d) data"
    and "err = None \<Longrightarrow> filed E w w' (u @ ''@'' @ d) folder (flags_in st) (addReturnPath data from) \<or>
           forwarded w w' a (u @ ''@'' @ d) data"
proof -
  from assms(1) have "(dropped st' \<longrightarrow> forwarded w w' a (u @ ''@'' @ d) data) \<and>
      (err = None \<longrightarrow> filed E w w' (u @ ''@'' @ d) folder (flags_in st) (addReturnPath data from) \<or>
         forwarded w w' a (u @ ''@'' @ d) data)"
  proof (cases rule: deliverToAccount_cases)
    case gone
    then show ?thesis using assms(3) by simp
  next
    case forwarded
    then show ?thesis using forwardMail_forwarded [OF forwarded(1) assms(2)] by blast
  next
    case (stored w1)
    have ok: "store_ok w1" "extends w w1" using growsD [OF stored(1) assms(2)] by simp_all
    then show ?thesis
      using stored(2,4) storeLocal_filed [of E u d folder "addReturnPath data from" "flags_in st" w1 w']
        filed_earlier assms(3) by auto
  qed
  then show "dropped st' \<Longrightarrow> forwarded w w' a (u @ ''@'' @ d) data"
    "err = None \<Longrightarrow> filed E w w' (u @ ''@'' @ d) folder (flags_in st) (addReturnPath data from) \<or>
       forwarded w w' a (u @ ''@'' @ d) data" by blast+
qed

lemma deliverToAccount_state:
  "deliverToAccount E a u d from data st folder w = (err, st', w') \<Longrightarrow> (st' = None) = (st = None)"
  by (erule deliverToAccount_cases) simp_all

text \<open>The hop reaches the account of the box, or refuses.\<close>

abbreviation folderName :: "string \<Rightarrow> string" where
  "folderName f \<equiv> (if f \<noteq> [] then f else ''INBOX'')"

lemma deliverLocalHop_own:
  assumes "deliverLocalHop E u d from data False st folder w = (err, st', w')"
  shows "(err \<noteq> None \<and> st' = st \<and> w' = w) \<or>
    (\<exists>a user domain. ownBox w u d = Some (user, domain) \<and> GetAccount w domain user = Some a \<and>
       deliverToAccount E a user domain from data st (folderName folder) w = (err, st', w'))"
  using assms unfolding deliverLocalHop.simps [of E u d "from" data False] Let_def
  by (auto simp: ownBox_def Let_def split: option.splits if_splits)

lemma deliverLocalHop_cases:
  assumes "deliverLocalHop E u d from data True st folder w = (err, st', w')"
  shows "(err \<noteq> None \<and> st' = st \<and> w' = w) \<or>
    (\<exists>a user domain. finalBox w u d = Some (user, domain) \<and> GetAccount w domain user = Some a \<and>
       deliverToAccount E a user domain from data st (folderName folder) w = (err, st', w'))"
proof (cases "ownBox w u d")
  case None
  let ?d = "trim_right (to_lower d) {CHR ''.''}"
  consider (refused) "err \<noteq> None" "st' = st" "w' = w"
    | (catchall) dd where "GetDomain w ?d = Some dd" "dm_CatchAllTarget dd \<noteq> []"
       "fst (normalizeRcpt (dm_CatchAllTarget dd)) \<noteq> []" "snd (normalizeRcpt (dm_CatchAllTarget dd)) \<noteq> []"
       "deliverLocalHop E (fst (normalizeRcpt (dm_CatchAllTarget dd))) (snd (normalizeRcpt (dm_CatchAllTarget dd)))
          from data False st folder w = (err, st', w')"
    using assms None unfolding deliverLocalHop.simps [of E u d "from" data True] Let_def
    by (auto simp: ownBox_def Let_def split: option.splits if_splits)
  then show ?thesis
  proof cases
    case catchall
    have "finalBox w u d = ownBox w (fst (normalizeRcpt (dm_CatchAllTarget dd))) (snd (normalizeRcpt (dm_CatchAllTarget dd)))"
      using None catchall(1-4) by (simp add: finalBox_def case_prod_beta)
    then show ?thesis using deliverLocalHop_own [OF catchall(5)] by simp
  qed simp
next
  case (Some e)
  then show ?thesis
    using assms unfolding deliverLocalHop.simps [of E u d "from" data True] Let_def
    by (auto simp: finalBox_def ownBox_def Let_def split: option.splits if_splits)
qed

text \<open>The evidence that a copy was delivered: the mailbox the address ends in has the
  message in the folder, or has forwarded it.\<close>

definition sentOn :: "'db world \<Rightarrow> 'db world \<Rightarrow> string \<Rightarrow> string \<Rightarrow> string \<Rightarrow> bool" where
  "sentOn w w' u d data =
     (\<exists>user domain a. finalBox w u d = Some (user, domain) \<and> GetAccount w domain user = Some a \<and>
        forwarded w w' a (user @ ''@'' @ domain) data)"

definition inFolder ::
  "'e host_scheme \<Rightarrow> 'db world \<Rightarrow> 'db world \<Rightarrow> string \<Rightarrow> string \<Rightarrow> string \<Rightarrow> string \<Rightarrow> string \<Rightarrow> string list \<Rightarrow> bool" where
  "inFolder E w w' u d from data folder flags =
     (sentOn w w' u d data \<or>
      (\<exists>user domain. finalBox w u d = Some (user, domain) \<and>
         filed E w w' (user @ ''@'' @ domain) (folderName folder) flags (addReturnPath data from)))"

lemma sentOn_later: "sentOn w w1 u d data \<Longrightarrow> store_ok w1 \<Longrightarrow> extends w1 w' \<Longrightarrow> sentOn w w' u d data"
  unfolding sentOn_def using forwarded_later by blast

lemma sentOn_earlier:
  assumes "sentOn w1 w' u d data" "extends w w1"
  shows "sentOn w w' u d data"
proof -
  obtain user domain a1 where a1: "finalBox w u d = Some (user, domain)" "GetAccount w1 domain user = Some a1"
      "forwarded w w' a1 (user @ ''@'' @ domain) data"
    using assms finalBox_extends forwarded_earlier unfolding sentOn_def by metis
  obtain a where a: "GetAccount w domain user = Some a" "ac_ForwardTo a = ac_ForwardTo a1"
      "ac_ForwardKeepCopy a = ac_ForwardKeepCopy a1"
    using account_forward [OF assms(2) a1(2)] by blast
  have "forwarded w w' a (user @ ''@'' @ domain) data"
    using a1(3) unfolding forwarded_def a(2,3) .
  then show ?thesis using a1(1) a(1) unfolding sentOn_def by blast
qed

lemma inFolder_later:
  "inFolder E w w1 u d from data folder flags \<Longrightarrow> store_ok w1 \<Longrightarrow> extends w1 w' \<Longrightarrow>
     inFolder E w w' u d from data folder flags"
  unfolding inFolder_def using sentOn_later filed_later by blast

lemma inFolder_earlier:
  assumes "inFolder E w1 w' u d from data folder flags" "extends w w1"
  shows "inFolder E w w' u d from data folder flags"
  using assms(1) sentOn_earlier [OF _ assms(2)] filed_earlier [OF _ assms(2)]
  unfolding inFolder_def finalBox_extends [OF assms(2)] by blast

lemma deliverLocalHop_grows:
  "deliverLocalHop E u d from data True st folder w = (err, st', w') \<Longrightarrow> grows w w'"
  using deliverToAccount_grows by (auto dest!: deliverLocalHop_cases)

lemma deliverLocalHop_state:
  "deliverLocalHop E u d from data True st folder w = (err, st', w') \<Longrightarrow> (st' = None) = (st = None)"
  by (auto dest!: deliverLocalHop_cases deliverToAccount_state)

lemma deliverLocalHop_evidence:
  assumes "deliverLocalHop E u d from data True st folder w = (err, st', w')" "store_ok w" "\<not> dropped st"
  shows "dropped st' \<Longrightarrow> sentOn w w' u d data"
    and "err = None \<Longrightarrow> inFolder E w w' u d from data folder (flags_in st)"
proof -
  consider (refused) "err \<noteq> None" "st' = st"
    | (account) a user domain where "finalBox w u d = Some (user, domain)" "GetAccount w domain user = Some a"
       "deliverToAccount E a user domain from data st (folderName folder) w = (err, st', w')"
    using deliverLocalHop_cases [OF assms(1)] by blast
  then have "(dropped st' \<longrightarrow> sentOn w w' u d data) \<and>
      (err = None \<longrightarrow> inFolder E w w' u d from data folder (flags_in st))"
  proof cases
    case account
    note ev = deliverToAccount_evidence [OF account(3) assms(2,3)]
    show ?thesis unfolding inFolder_def sentOn_def using account(1,2) ev by blast
  qed (use assms(3) in auto)
  then show "dropped st' \<Longrightarrow> sentOn w w' u d data"
    "err = None \<Longrightarrow> inFolder E w w' u d from data folder (flags_in st)" by blast+
qed

lemma deliverLocalFor_grows [grow]: "grows w (snd (deliverLocalFor E u d from data folder w))"
  using deliverLocalHop_grows by (auto simp: deliverLocalFor_def split: prod.splits)

lemma deliverLocalFor_inFolder:
  assumes "deliverLocalFor E u d from data folder w = (None, w')" "store_ok w"
  shows "inFolder E w w' u d from data folder []"
proof -
  obtain st' where "deliverLocalHop E u d from data True None folder w = (None, st', w')"
    using assms(1) by (auto simp: deliverLocalFor_def split: prod.splits)
  from deliverLocalHop_evidence(2) [OF this assms(2)] show ?thesis by (simp add: dropped_def)
qed

section \<open>Quota\<close>

lemma accounts_kept:
  "w_accounts (snd (StoreMessage E u data w)) = w_accounts w"
  "w_accounts (CreateMailbox E u m w) = w_accounts w"
  "w_accounts (snd (GetNextUID E u m w)) = w_accounts w"
  "w_accounts (snd (StoreMessageMetadata E u m uid meta w)) = w_accounts w"
  "w_accounts (DeleteMessageUnchecked E u i w) = w_accounts w"
  by (auto simp: StoreMessage_def CreateMailbox_def GetNextUID_def StoreMessageMetadata_def
        DeleteMessageUnchecked_def tryWrite_def Let_def split: bool.splits option.splits)

text \<open>The last write of a run failed.\<close>

definition lastFailed :: "'e host_scheme \<Rightarrow> 'db world \<Rightarrow> bool" where
  "lastFailed E w = (\<exists>n. w_calls w = Suc n \<and> e_fails E n)"

lemma release_quota:
  assumes "GetAccount w d u = Some a" "ac_QuotaUsed a = k + r" "0 \<le> k" "0 < r" "k + r \<le> int64_max"
  shows "\<exists>a'. GetAccount (snd (IncrementQuota E d u (- r) w)) d u = Some a' \<and>
    (used a' = k \<or> used a' = k + r \<and> lastFailed E (snd (IncrementQuota E d u (- r) w)))"
  using assms quotaAfter_release [OF assms(2-5)]
  by (cases "e_fails E (w_calls w)")
     (auto simp: IncrementQuota_def GetAccount_def tryWrite_def used_def lastFailed_def)

lemma metaFail_account:
  assumes "GetAccount w d u = Some a" "0 < r \<Longrightarrow> ac_QuotaUsed a = k + r \<and> 0 \<le> k \<and> k + r \<le> int64_max"
  shows "\<exists>a'. GetAccount (snd (metaFail E u d i r w)) d u = Some a' \<and>
    (if 0 < r then used a' = k \<or> used a' = k + r \<and> lastFailed E (snd (metaFail E u d i r w)) else a' = a)"
proof (cases "0 < r")
  case True
  have "GetAccount (DeleteMessageUnchecked E (u @ ''@'' @ d) i w) d u = Some a"
    using assms(1) by (simp add: GetAccount_def accounts_kept)
  then show ?thesis
    using release_quota [of _ d u a k r E] assms(2) True by (simp add: metaFail_def Let_def)
qed (simp add: metaFail_def assms(1))

lemma storeMetadata_account:
  assumes "GetAccount w d u = Some a" "0 < r \<Longrightarrow> ac_QuotaUsed a = k + r \<and> 0 \<le> k \<and> k + r \<le> int64_max"
    and "storeMetadata E u d folder data i flags r w = (err, w')"
  shows "\<exists>a'. GetAccount w' d u = Some a' \<and>
    (if err \<noteq> None \<and> 0 < r then used a' = k \<or> used a' = k + r \<and> lastFailed E w' else a' = a)"
proof -
  let ?email = "u @ ''@'' @ d"
  let ?w1 = "if folder \<noteq> ''INBOX'' then CreateMailbox E ?email folder w else w"
  obtain uid w2 where n: "GetNextUID E ?email folder ?w1 = (uid, w2)" by fastforce
  have w2: "w_accounts w2 = w_accounts w"
    using accounts_kept(3) [of E ?email folder ?w1] unfolding n by (simp add: accounts_kept)
  have fail: ?thesis if "metaFail E u d i r x = (err, w')" "w_accounts x = w_accounts w" for x
  proof -
    have "err \<noteq> None" using metaFail_result [of E u d i r x] that(1) by auto
    then show ?thesis
      using metaFail_account [of x d u a r k E i] assms(1,2) that by (cases "0 < r") (auto simp: GetAccount_def)
  qed
  show ?thesis
  proof (cases uid)
    case None
    then show ?thesis using fail [OF _ w2] assms(3) unfolding storeMetadata_def Let_def n by simp
  next
    case (Some m)
    define meta where "meta = \<lparr>md_MessageID = i, md_Flags = [BSLASH # ''Recent''] @ flags, md_Size = int (length data)\<rparr>"
    obtain b w3 where row: "StoreMessageMetadata E ?email folder m meta w2 = (b, w3)" by fastforce
    have w3: "w_accounts w3 = w_accounts w"
      using accounts_kept(4) [of E ?email folder m meta w2] row w2 by simp
    have "(if b then (None, w3) else metaFail E u d i r w3) = (err, w')"
      using assms(3) row unfolding storeMetadata_def Let_def n Some meta_def by (cases b) simp_all
    then show ?thesis using fail [OF _ w3] assms(1) w3 by (cases b) (auto simp: GetAccount_def)
  qed
qed

lemma reserve_quota:
  assumes "(if r > 0 then IncrementQuota E d u r w else (True, w)) = (True, w1)" "GetAccount w d u = Some a" "0 \<le> r"
  obtains a1 where "GetAccount w1 d u = Some a1" "used a1 = used a + r"
    "0 < r \<Longrightarrow> ac_QuotaUsed a1 = used a + r \<and> 0 \<le> used a \<and> used a + r \<le> int64_max"
    "0 < r \<Longrightarrow> 0 < ac_QuotaLimit a \<Longrightarrow> used a1 \<le> ac_QuotaLimit a"
proof (cases "0 < r")
  case True
  then have "IncrementQuota E d u r w = (True, w1)" using assms(1) by simp
  then obtain x where x: "quotaAfter a r = Some x" "GetAccount w1 d u = Some (a\<lparr>ac_QuotaUsed := x\<rparr>)"
    using assms(2) by (auto elim: IncrementQuota_True)
  have "x = used a + r" "x \<le> int64_max" "0 < ac_QuotaLimit a \<Longrightarrow> x \<le> ac_QuotaLimit a"
    using quotaAfter_add [OF x(1) True] by simp_all
  moreover have "used (a\<lparr>ac_QuotaUsed := x\<rparr>) = x"
    using True used_nonneg [of a] calculation(1) by (simp add: used_def)
  ultimately show thesis using that [OF x(2)] used_nonneg [of a] by simp
next
  case False
  then show thesis using that [of a] assms by simp
qed

lemma storeLocal_account:
  assumes "storeLocal E u d folder data flags w = (err, w')" "GetAccount w d u = Some a"
  shows "\<exists>a'. GetAccount w' d u = Some a' \<and>
    (if err = None \<and> \<not> MessageExists w (u @ ''@'' @ d) (e_sha256 E data)
     then used a' = used a + int (length data) \<and> (0 < ac_QuotaLimit a \<and> data \<noteq> [] \<longrightarrow> used a' \<le> ac_QuotaLimit a)
     else used a' = used a \<or> err \<noteq> None \<and> \<not> MessageExists w (u @ ''@'' @ d) (e_sha256 E data) \<and>
       used a' = used a + int (length data) \<and> lastFailed E w')"
proof -
  let ?email = "u @ ''@'' @ d"
  define r where "r = (if MessageExists w ?email (e_sha256 E data) then 0 else int (length data))"
  have r0: "0 \<le> r" by (simp add: r_def)
  obtain b w1 where q: "(if r > 0 then IncrementQuota E d u r w else (True, w)) = (b, w1)" by fastforce
  obtain i w2 where m: "StoreMessage E ?email data w1 = (i, w2)" by fastforce
  have w2: "w_accounts w2 = w_accounts w1" using accounts_kept(1) [of E ?email data w1] m by simp
  show ?thesis
  proof (cases "ac_IsActive a")
    case False
    then show ?thesis using assms by (auto simp: storeLocal_def Let_def)
  next
    case True
    have run: "(case (b, w1) of (False, w) \<Rightarrow> (Some ErrMailboxFull, w)
        | (True, w) \<Rightarrow> (case StoreMessage E ?email data w of
              (None, w) \<Rightarrow> (Some ErrStore, if r > 0 then snd (IncrementQuota E d u (- r) w) else w)
            | (Some i, w) \<Rightarrow> if e_hasStorage E then storeMetadata E u d folder data i flags r w else (None, w))) = (err, w')"
      using assms(1) unfolding storeLocal_def Let_def r_def [symmetric] q assms(2)
      by (simp only: True not_True_eq_False if_False option.simps)
    show ?thesis
    proof (cases b)
      case False
      then have "w_accounts w1 = w_accounts w" using q IncrementQuota_False by (auto split: if_splits)
      then show ?thesis using False run assms(2) by (auto simp: GetAccount_def)
    next
      case True
      obtain a1 where a1: "GetAccount w1 d u = Some a1" "used a1 = used a + r"
          "0 < r \<Longrightarrow> ac_QuotaUsed a1 = used a + r \<and> 0 \<le> used a \<and> used a + r \<le> int64_max"
          "0 < r \<Longrightarrow> 0 < ac_QuotaLimit a \<Longrightarrow> used a1 \<le> ac_QuotaLimit a"
        by (rule reserve_quota [OF q [unfolded eqTrueI [OF True]] assms(2) r0]) (rule that; blast)
      have a2: "GetAccount w2 d u = Some a1" using a1(1) w2 by (simp add: GetAccount_def)
      have r: "r = 0 \<or> r = int (length data) \<and> \<not> MessageExists w ?email (e_sha256 E data)"
        "\<not> MessageExists w ?email (e_sha256 E data) \<Longrightarrow> r = int (length data)" by (auto simp: r_def)
      show ?thesis
      proof (cases i)
        case None
        then have "err \<noteq> None" "w' = (if r > 0 then snd (IncrementQuota E d u (- r) w2) else w2)"
          using run True m by auto
        then show ?thesis
          using release_quota [OF a2, of "used a" r E] a1(2,3) a2 r(1) by (cases "0 < r") auto
      next
        case (Some j)
        then have "(if e_hasStorage E then storeMetadata E u d folder data j flags r w2 else (None, w2)) = (err, w')"
          using run True m by simp
        then have "\<exists>a'. GetAccount w' d u = Some a' \<and> (if err \<noteq> None \<and> 0 < r
            then used a' = used a \<or> used a' = used a + r \<and> lastFailed E w' else a' = a1)"
          using storeMetadata_account [OF a2 a1(3), of E folder data j flags err w'] a2 by (cases "e_hasStorage E") auto
        then show ?thesis using a1(2,4) r r0 by (cases "err = None"; cases "0 < r") auto
      qed
    qed
  qed
qed

section \<open>Properties of the stores under delivery\<close>

text \<open>
  C5. Enqueueing is atomic. When no write fails, \<^verbatim>\<open>Enqueue\<close> takes a message exactly
  when the entries of all its recipients fit under the queue limit. Then the
  message file is new and has one new entry per recipient, with the sender and
  that recipient, and nothing else in the queue changes; otherwise the entries
  already made and the file are taken back and queue and files are as before.
\<close>

theorem Enqueue_atomic:
  assumes "\<forall>n. \<not> e_fails E n" "store_ok w" "to \<noteq> []" "Enqueue E from to message w = (ok, w')"
  shows "(ok \<longleftrightarrow> fm_len (w_queue w) + length to \<le> e_maxQueueSize E) \<and>
    (if ok then all_queued w w'
       (\<lambda>base i r. \<lparr>qe_From = from, qe_To = [r], qe_MessagePath = base, qe_Notify = 0\<rparr>) to message
     else w_queue w' = w_queue w \<and> w_files w' = w_files w)"
  by (rule Enqueue_exact [OF assms])

theorem Enqueue_atomic_witness:
  "\<not> fst (Enqueue demo_host ''a@y.org'' [''1@z.org'', ''2@z.org'', ''3@z.org'', ''4@z.org''] ''hi'' demo_world) \<and>
   w_queue (snd (Enqueue demo_host ''a@y.org'' [''1@z.org'', ''2@z.org'', ''3@z.org'', ''4@z.org''] ''hi'' demo_world)) =
     w_queue demo_world"
proof -
  let ?to = "[''1@z.org'', ''2@z.org'', ''3@z.org'', ''4@z.org'']"
  have full: "fst (Enqueue demo_host ''a@y.org'' ?to ''hi'' demo_world) = False" by code_simp
  from Enqueue_atomic [OF allI [OF demo_host_ok(2)] demo_world_ok(1) list.distinct(2) pair_of_fst [OF full]]
  show ?thesis by (simp only: if_False full simp_thms)
qed

text \<open>
  C4. The quota counts what is stored. A message stored for an account adds its
  length to the counter (a negative one counting as 0) unless its blob is already
  there, and only if the sum stays within the limit. A refused or failed delivery
  leaves the counter as it was, with one exception: the reservation of a new
  message stays when the delivery ends with the write that should release it and
  that write fails.
\<close>

theorem storeLocal_quota:
  assumes "storeLocal E u d folder data flags w = (err, w')" "GetAccount w d u = Some a"
  shows "\<exists>a'. GetAccount w' d u = Some a' \<and>
    (if err = None \<and> \<not> MessageExists w (u @ ''@'' @ d) (e_sha256 E data)
     then used a' = used a + int (length data) \<and> (0 < ac_QuotaLimit a \<and> data \<noteq> [] \<longrightarrow> used a' \<le> ac_QuotaLimit a)
     else used a' = used a \<or> err \<noteq> None \<and> \<not> MessageExists w (u @ ''@'' @ d) (e_sha256 E data) \<and>
       used a' = used a + int (length data) \<and> lastFailed E w')"
  by (rule storeLocal_account [OF assms])

theorem storeLocal_quota_witness:
  "\<exists>a'. GetAccount (snd (storeLocal demo_host ''bob'' ''x.org'' ''INBOX'' ''Subject: hi'' [] demo_world)) ''x.org'' ''bob'' =
     Some a' \<and> used a' = 16"
proof -
  let ?r = "storeLocal demo_host ''bob'' ''x.org'' ''INBOX'' ''Subject: hi'' [] demo_world"
  let ?a = "\<lparr>ac_IsActive = True, ac_ForwardTo = [], ac_ForwardKeepCopy = False, ac_QuotaUsed = 5, ac_QuotaLimit = 90\<rparr>"
  have ok: "fst ?r = None" by code_simp
  have acc: "GetAccount demo_world ''x.org'' ''bob'' = Some ?a" by code_simp
  have new: "\<not> MessageExists demo_world (''bob'' @ ''@'' @ ''x.org'') (e_sha256 demo_host ''Subject: hi'')" by code_simp
  from storeLocal_quota [OF pair_of_fst [OF ok] acc] new show ?thesis by (auto simp: used_def)
qed

end
