(* ===== verification/Sieve_Delivery_Facts.thy ===== *)
theory Sieve_Delivery_Facts
  imports Delivery_Facts
begin

text \<open>
  What becomes of a message: the decision of the owner's script is carried out
  (\<open>obeyed\<close>), a failed redirect keeps the message and a failed folder falls back to
  the INBOX (\<open>copied\<close>), and a message accepted for several recipients is delivered,
  relayed or reported for each of them, from the state at its turn on (\<open>turn\<close>).
\<close>

section \<open>Copies\<close>

lemma deliverCopy_grows: "deliverCopy E u d from data tf f st w = (err, st', w') \<Longrightarrow> grows w w'"
  using deliverLocalHop_grows by (auto simp: deliverCopy_def split: if_splits prod.splits)

lemma deliverCopy_evidence:
  assumes "deliverCopy E u d from data tf f st w = (err, st', w')" "store_ok w" "\<not> cs_dropLocal st"
  shows "cs_dropLocal st' \<Longrightarrow> sentOn w w' u d data"
    and "err = None \<Longrightarrow> inFolder E w w' u d from data f (flagsOf tf f)"
proof -
  let ?st = "Some (st\<lparr>cs_flags := flagsOf tf f\<rparr>)"
  have "(cs_dropLocal st' \<longrightarrow> sentOn w w' u d data) \<and> (err = None \<longrightarrow> inFolder E w w' u d from data f (flagsOf tf f))"
  proof (cases "s_folderFault E f")
    case True
    then show ?thesis using assms by (auto simp: deliverCopy_def)
  next
    case False
    obtain s1 where hop: "deliverLocalHop E u d from data True ?st f w = (err, s1, w')"
        and st': "st' = (case s1 of Some s \<Rightarrow> s | None \<Rightarrow> st)"
      using assms(1) False by (auto simp: deliverCopy_def split: prod.splits)
    obtain s where s: "s1 = Some s" using deliverLocalHop_state [OF hop] by auto
    have "\<not> dropped ?st" using assms(3) by (simp add: dropped_def)
    from deliverLocalHop_evidence [OF hop assms(2) this] show ?thesis using st' s by (simp add: dropped_def)
  qed
  then show "cs_dropLocal st' \<Longrightarrow> sentOn w w' u d data"
    "err = None \<Longrightarrow> inFolder E w w' u d from data f (flagsOf tf f)" by blast+
qed

lemma deliverCopy_gone:
  assumes "deliverCopy E u d from data tf f st w = (err, st', w')" "store_ok w" "extends w0 w"
    "cs_dropLocal st \<longrightarrow> sentOn w0 w u d data"
  shows "cs_dropLocal st' \<Longrightarrow> sentOn w0 w' u d data"
    and "err = None \<Longrightarrow> inFolder E w0 w' u d from data f (flagsOf tf f)"
proof -
  have later: "extends w w'" using growsD [OF deliverCopy_grows [OF assms(1)] assms(2)] by simp
  have "(cs_dropLocal st' \<longrightarrow> sentOn w0 w' u d data) \<and> (err = None \<longrightarrow> inFolder E w0 w' u d from data f (flagsOf tf f))"
  proof (cases "cs_dropLocal st")
    case True
    then have "sentOn w0 w' u d data" using sentOn_later [OF _ assms(2) later] assms(4) by blast
    then show ?thesis by (simp add: inFolder_def)
  next
    case False
    then show ?thesis
      using deliverCopy_evidence [OF assms(1,2)] sentOn_earlier [OF _ assms(3)] inFolder_earlier [OF _ assms(3)] by blast
  qed
  then show "cs_dropLocal st' \<Longrightarrow> sentOn w0 w' u d data"
    "err = None \<Longrightarrow> inFolder E w0 w' u d from data f (flagsOf tf f)" by blast+
qed

lemma deliverTargets_grows:
  "deliverTargets E u d from data tf fs fe n failed st w = (r, st', w') \<Longrightarrow> grows w w'"
proof (induction fs arbitrary: fe n failed st w)
  case (Cons f fs)
  obtain err st1 w1 where c: "deliverCopy E u d from data tf f st w = (err, st1, w1)" by (metis prod_cases3)
  have "grows w1 w'" using Cons.prems Cons.IH [of _ _ _ st1 w1] c by (cases err) simp_all
  then show ?case using grows_trans [OF deliverCopy_grows [OF c]] by blast
qed simp

text \<open>Every target is in its folder or among the failed ones, and one that counts as
  stored is in its folder.\<close>

lemma deliverTargets_evidence:
  "deliverTargets E u d from data tf fs fe n failed st w = ((fe', n', failed'), st', w') \<Longrightarrow> store_ok w \<Longrightarrow> extends w0 w \<Longrightarrow>
     (cs_dropLocal st \<longrightarrow> sentOn w0 w u d data) \<Longrightarrow>
     set failed \<subseteq> set failed' \<and> (cs_dropLocal st' \<longrightarrow> sentOn w0 w' u d data) \<and>
     (\<forall>f \<in> set fs. f \<in> set failed' \<or> inFolder E w0 w' u d from data f (flagsOf tf f)) \<and>
     (n < n' \<longrightarrow> (\<exists>f \<in> set fs. inFolder E w0 w' u d from data f (flagsOf tf f))) \<and>
     (fe' = None \<longrightarrow> fe = None \<and> (failed = [] \<longrightarrow> failed' = []))"
proof (induction fs arbitrary: fe n failed st w)
  case (Cons f fs)
  let ?in = "\<lambda>w' f. inFolder E w0 w' u d from data f (flagsOf tf f)"
  obtain err st1 w1 where c: "deliverCopy E u d from data tf f st w = (err, st1, w1)" by (metis prod_cases3)
  have ok: "store_ok w1" "extends w w1" using growsD [OF deliverCopy_grows [OF c] Cons.prems(2)] by simp_all
  note e = extends_trans [OF Cons.prems(3) ok(2)]
  note copy = deliverCopy_gone [OF c Cons.prems(2,3,4)]
  have drop: "cs_dropLocal st1 \<longrightarrow> sentOn w0 w1 u d data" using copy(1) by blast
  show ?case
  proof (cases err)
    case None
    then have rest: "deliverTargets E u d from data tf fs fe (n + 1) failed st1 w1 = ((fe', n', failed'), st', w')"
      using Cons.prems(1) c by simp
    have "extends w1 w'" using growsD [OF deliverTargets_grows [OF rest] ok(1)] by simp
    then have "?in w' f" using inFolder_later [OF copy(2) [OF None] ok(1)] by blast
    then show ?thesis using Cons.IH [OF rest ok(1) e drop] by simp
  next
    case (Some x)
    then obtain fe1 where fe1: "fe1 \<noteq> None" "deliverTargets E u d from data tf fs fe1 n (failed @ [f]) st1 w1 =
        ((fe', n', failed'), st', w')"
      using Cons.prems(1) c by (cases fe) auto
    show ?thesis using Cons.IH [OF fe1(2) ok(1) e drop] fe1(1) by auto
  qed
qed simp

section \<open>Targets\<close>

definition targetName :: "string \<Rightarrow> string" where
  \<comment> \<open>the INBOX has the empty name\<close>
  "targetName f = (if equal_fold f ''INBOX'' then [] else f)"

lemma addTarget_eq:
  "\<exists>x. addTarget f fl (ts, tf) =
     (if fmlookup tf (targetName f) = None then ts @ [targetName f] else ts, fmupd (targetName f) x tf)"
  unfolding addTarget_def Let_def targetName_def [symmetric] by auto

lemma addTarget_dom:
  assumes "set (fst t) = fmdom' (snd t)"
  shows "set (fst (addTarget f fl t)) = insert (targetName f) (set (fst t))"
    and "set (fst (addTarget f fl t)) = fmdom' (snd (addTarget f fl t))"
proof -
  obtain ts tf where t: "t = (ts, tf)" by fastforce
  obtain x where x: "addTarget f fl (ts, tf) =
     (if fmlookup tf (targetName f) = None then ts @ [targetName f] else ts, fmupd (targetName f) x tf)"
    using addTarget_eq by blast
  show "set (fst (addTarget f fl t)) = insert (targetName f) (set (fst t))"
    using assms fmdom'I [of tf "targetName f"] unfolding t x
    by (cases "fmlookup tf (targetName f)") (simp_all add: insert_absorb)
  then show "set (fst (addTarget f fl t)) = fmdom' (snd (addTarget f fl t))"
    using assms unfolding t x by simp
qed

lemma addTargets_dom:
  "set (fst t) = fmdom' (snd t) \<Longrightarrow>
     set (fst (fold (\<lambda>f. addTarget (g f) (h f)) fs t)) = set (fst t) \<union> (targetName \<circ> g) ` set fs"
proof (induction fs arbitrary: t)
  case (Cons f fs)
  then show ?case using addTarget_dom [of t "g f" "h f"] Cons.IH [of "addTarget (g f) (h f) t"] by auto
qed simp

definition wanted :: "bool \<Rightarrow> string \<Rightarrow> sieveOutcome \<Rightarrow> string set" where
  \<comment> \<open>the folders a copy goes to\<close>
  "wanted keep folder out =
     (if keep then {targetName folder} else {}) \<union>
     (\<lambda>f. targetName (if f = [] then folder else f)) ` set (so_folders out)"

lemma sieveTargets_set: "set (fst (sieveTargets keep folder out)) = wanted keep folder out"
proof -
  let ?t = "if keep then addTarget folder (so_keepFlags out) ([], fmempty) else ([], fmempty)"
  note a = addTarget_dom [of "([], fmempty)" folder "so_keepFlags out"]
  have d: "set (fst ?t) = fmdom' (snd ?t)" using a(2) by (cases keep) simp_all
  have s: "set (fst ?t) = (if keep then {targetName folder} else {})" using a(1) by (cases keep) simp_all
  show ?thesis unfolding sieveTargets_def wanted_def addTargets_dom [OF d] s comp_def by (rule refl)
qed

lemma deliverOutcome_grows:
  assumes "deliverOutcome E u d from data keep folder out w = (err, w')"
  shows "grows w w'"
proof -
  let ?st = "\<lparr>cs_forwardHandled = False, cs_dropLocal = False, cs_flags = []\<rparr>"
  obtain targets tf where t: "sieveTargets keep folder out = (targets, tf)" by fastforce
  obtain fe n failed st w1 where run:
      "deliverTargets E u d from data tf targets None 0 [] ?st w = ((fe, n, failed), st, w1)"
    by (metis prod_cases3)
  obtain e st2 w2 where copy: "deliverCopy E u d from data tf [] st w1 = (e, st2, w2)" by (metis prod_cases3)
  have "w' \<in> {w1, w2}"
    using assms t run copy by (auto simp: deliverOutcome_def split: option.splits if_splits)
  then show ?thesis
    using deliverTargets_grows [OF run] grows_trans [OF deliverTargets_grows [OF run] deliverCopy_grows [OF copy]]
    by blast
qed

definition copied ::
  "'db senv \<Rightarrow> 'db world \<Rightarrow> 'db world \<Rightarrow> string \<Rightarrow> string \<Rightarrow> string \<Rightarrow> string \<Rightarrow> bool \<Rightarrow> string \<Rightarrow> sieveOutcome \<Rightarrow> bool" where
  \<comment> \<open>each wanted folder has its copy, with its flags. For one that failed another folder
    has one, and so has the INBOX unless a copy there fails as well.\<close>
  "copied E w w' u d from data keep folder out =
     (case sieveTargets keep folder out of
        (targets, tf) \<Rightarrow>
          (let present = (\<lambda>f. inFolder E w w' u d from data f (flagsOf tf f)) in
           case deliverTargets E u d from data tf targets None 0 []
                  \<lparr>cs_forwardHandled = False, cs_dropLocal = False, cs_flags = []\<rparr> w of
             ((_, _, failed), st, w1) \<Rightarrow>
               \<forall>f \<in> wanted keep folder out. present f \<or>
                 f \<in> set failed \<and> (\<exists>g \<in> wanted keep folder out. present g) \<and>
                 (present [] \<or> fst (deliverCopy E u d from data tf [] st w1) \<noteq> None)))"

lemma deliverOutcome_copied:
  assumes "deliverOutcome E u d from data keep folder out w = (None, w')" "store_ok w"
  shows "copied E w w' u d from data keep folder out"
proof -
  let ?st = "\<lparr>cs_forwardHandled = False, cs_dropLocal = False, cs_flags = []\<rparr>"
  obtain targets tf where t: "sieveTargets keep folder out = (targets, tf)" by fastforce
  obtain fe n failed st w1 where run:
      "deliverTargets E u d from data tf targets None 0 [] ?st w = ((fe, n, failed), st, w1)"
    by (metis prod_cases3)
  obtain e st2 w2 where copy: "deliverCopy E u d from data tf [] st w1 = (e, st2, w2)" by (metis prod_cases3)
  let ?in = "\<lambda>w' f. inFolder E w w' u d from data f (flagsOf tf f)"
  have ok: "store_ok w1" "extends w w1" using growsD [OF deliverTargets_grows [OF run] assms(2)] by simp_all
  have ev: "cs_dropLocal st \<longrightarrow> sentOn w w1 u d data"
      "\<forall>f \<in> set targets. f \<in> set failed \<or> ?in w1 f" "0 < n \<Longrightarrow> \<exists>f \<in> set targets. ?in w1 f"
      "fe = None \<Longrightarrow> failed = []"
    using deliverTargets_evidence [OF run assms(2) extends_refl] by simp_all
  have out: "(case fe of None \<Rightarrow> (None, w1) | Some err \<Rightarrow> if n = 0 then (Some err, w1)
      else if [] \<in> set targets \<and> [] \<notin> set failed then (None, w1) else (None, w2)) = (None, w')"
    using assms(1) by (cases fe) (auto simp: deliverOutcome_def t run copy split: if_splits)
  then have "w' \<in> {w1, w2}" by (auto split: option.splits if_splits)
  then have "extends w1 w'" using growsD [OF deliverCopy_grows [OF copy] ok(1)] by auto
  then have later: "?in w1 f \<Longrightarrow> ?in w' f" for f using inFolder_later [OF _ ok(1)] by blast
  have inbox: "fe = None \<or> (0 < n \<and> (?in w' [] \<or> e \<noteq> None))"
    using out ev(2) later [of "[]"] deliverCopy_gone(2) [OF copy ok ev(1)]
    by (auto split: option.splits if_splits)
  have "?in w' f \<or> f \<in> set failed \<and> (\<exists>g \<in> set targets. ?in w' g) \<and> (?in w' [] \<or> e \<noteq> None)" if "f \<in> set targets" for f
    using inbox ev(2-4) later that by fastforce
  moreover have "wanted keep folder out = set targets" using sieveTargets_set [of keep folder out] t by simp
  ultimately show ?thesis by (simp add: copied_def t run copy)
qed

lemma copied_later:
  assumes "copied E w w1 u d from data keep folder out" "store_ok w1" "extends w1 w'"
  shows "copied E w w' u d from data keep folder out"
  using assms(1) inFolder_later [OF _ assms(2,3)] unfolding copied_def Let_def split_beta by blast

section \<open>Redirects and replies\<close>

lemma redirectAll_grows [grow]: "grows w (snd (redirectAll E m data rs failed w))"
proof (induction rs arbitrary: failed w)
  case (Cons r rs)
  show ?case
    using Cons grows_trans [OF Enqueue_grows [of w E m _ data] Cons]
    by (auto split: option.splits prod.splits bool.splits) (metis snd_conv)+
qed simp

definition redirected :: "'db senv \<Rightarrow> 'db world \<Rightarrow> 'db world \<Rightarrow> string \<Rightarrow> string \<Rightarrow> string list \<Rightarrow> bool" where
  \<comment> \<open>every redirect of the script is in the queue, with the loop mark\<close>
  "redirected E w w' mailbox data rs =
     (\<forall>raw \<in> set rs. \<exists>addr. redirectOK E raw = Some addr \<and>
        queued w w' mailbox addr (addMailLoopHeader data mailbox))"

lemma redirectAll_queued:
  "redirectAll E m data rs failed w = (False, w') \<Longrightarrow> store_ok w \<Longrightarrow>
     \<not> failed \<and> (\<forall>raw \<in> set rs. \<exists>addr. redirectOK E raw = Some addr \<and> queued w w' m addr data)"
proof (induction rs arbitrary: failed w)
  case (Cons r rs)
  have no: "redirectAll E m data rs True x \<noteq> (False, w')" if "store_ok x" for x
    using Cons.IH [of True x] that by blast
  have later: "store_ok x" if "Enqueue E m [a] data w = (b, x)" for a b x
    using growsD [OF Enqueue_grows Cons.prems(2), of E m "[a]" data] that by simp
  have "\<exists>addr w1. redirectOK E r = Some addr \<and> Enqueue E m [addr] data w = (True, w1) \<and>
      redirectAll E m data rs failed w1 = (False, w')"
    using Cons.prems no [OF Cons.prems(2)] no [OF later]
    by (auto split: option.splits if_splits prod.splits bool.splits)
  then obtain addr w1 where a: "redirectOK E r = Some addr" "Enqueue E m [addr] data w = (True, w1)"
      "redirectAll E m data rs failed w1 = (False, w')" by blast
  have ok: "store_ok w1" "extends w w1" using growsD [OF Enqueue_grows Cons.prems(2), of E m "[addr]" data] a(2) by simp_all
  have "extends w1 w'" using growsD [OF redirectAll_grows ok(1), of E m data rs failed] a(3) by simp
  then have "queued w w' m addr data"
    using queued_later [OF Enqueue_queued [OF a(2)] ok(1)] by simp
  then show ?case using Cons.IH [OF a(3) ok(1)] a(1) queued_earlier [OF _ ok(2)] by auto
qed simp

lemma redirectBySieve_grows [grow]: "grows w (snd (redirectBySieve E m data rs w))"
  by (simp add: redirectBySieve_def redirectAll_grows)

lemma redirectBySieve_redirected:
  assumes "redirectBySieve E m data rs w = (False, w')" "store_ok w"
  shows "redirected E w w' m data rs"
proof (cases "rs = []")
  case False
  let ?rs = "take maxSieveRedirects rs" and ?data = "addMailLoopHeader data m"
  have "redirectAll E m ?data ?rs (length rs > maxSieveRedirects) w = (False, w')"
    using assms(1) False by (simp add: redirectBySieve_def split: if_splits)
  note all = redirectAll_queued [OF this assms(2)]
  then have "?rs = rs" by simp
  then show ?thesis using all by (simp add: redirected_def)
qed (simp add: redirected_def)

lemma readClock_grows: "readClock E w = (t, w') \<Longrightarrow> grows w w'"
  by (auto simp: readClock_def intro!: same_store_grows simp: same_store_def)

lemma claimVacationReply_grows: "grows w (snd (claimVacationReply E key now i w))"
  by (auto simp: claimVacationReply_def readClock_def Let_def same_store_def intro!: same_store_grows)

lemma handleSieveVacationAs_grows: "grows w (handleSieveVacationAs E s r m va w)"
proof -
  have claim: "claimVacationReply E key now i w = (b, w') \<Longrightarrow> grows w w'" for key now i w b w'
    using claimVacationReply_grows [of w E key now i] by simp
  have queue: "grows w w1 \<Longrightarrow> grows w (snd (Enqueue E x y z w1))" for w1 x y z
    using grows_trans [OF _ Enqueue_grows] .
  show ?thesis
    unfolding handleSieveVacationAs_def Let_def
    by (auto split: prod.splits bool.splits if_splits intro!: queue
          dest!: readClock_grows claim intro: grows_trans)
qed

lemma touch_scripts: "same_scripts m (snd (CheckAndRecordVacationFor now now' k i m))"
  by (auto simp: CheckAndRecordVacationFor_def touchVacationLocked_def same_scripts_def StoreAttached_def Let_def
        split: prod.splits)

lemma manager_grows: "same_scripts (w_manager w) m \<Longrightarrow> grows w (w\<lparr>w_manager := m\<rparr>)"
  by (simp add: grows_def extends_def same_accounts_def store_ok_def ids_ok_def uids_ok_def)

lemma sieveVacationReply_grows: "grows w (sieveVacationReply E m r from data va w)"
proof -
  have handle: "grows w w1 \<Longrightarrow> grows w (handleSieveVacationAs E s r m va w1)" for w1 s r m va
    using grows_trans [OF _ handleSieveVacationAs_grows] .
  have touch: "CheckAndRecordVacationFor now now' k i (w_manager w1) = (b, m') \<Longrightarrow> grows w w1 \<Longrightarrow>
      grows w (w1\<lparr>w_manager := m'\<rparr>)" for now now' k i w1 b m'
    using grows_trans [OF _ manager_grows [OF touch_scripts [of "w_manager w1" now now' k i]]] by simp
  show ?thesis
    unfolding sieveVacationReply_def Let_def
    by (auto split: prod.splits if_splits intro!: handle touch dest!: readClock_grows intro: grows_trans)
qed

section \<open>Reports\<close>

definition reported :: "'db senv \<Rightarrow> 'db world \<Rightarrow> 'db world \<Rightarrow> string \<Rightarrow> string \<Rightarrow> rcptFailure \<Rightarrow> bool" where
  \<comment> \<open>the sender gets a failure report, unless there is none or it asked for none\<close>
  "reported E w w' from data f =
     (from = [] \<or> HasNotify (ParseDSNNotify (rf_notify f)) DSNNotifyNever \<or>
      (\<exists>msg. s_dsn E f data (diagOf f) = Some msg \<and> queued w w' [] from msg))"

lemma reported_later: "reported E w w1 from data f \<Longrightarrow> store_ok w1 \<Longrightarrow> extends w1 w' \<Longrightarrow> reported E w w' from data f"
  unfolding reported_def using queued_later by blast

lemma reported_earlier: "reported E w1 w' from data f \<Longrightarrow> extends w w1 \<Longrightarrow> reported E w w' from data f"
  unfolding reported_def using queued_earlier by blast

lemma bounceAll_grows: "bounceAll E from data fs w = (err, w') \<Longrightarrow> grows w w'"
proof (induction fs arbitrary: w)
  case (Cons f fs)
  have step: "grows w x" if "Enqueue E [] [from] msg w = (b, x)" for msg b x
    using Enqueue_grows [of w E "[]" "[from]" msg] that by simp
  show ?case
    using Cons.prems
    by (auto split: if_splits option.splits prod.splits bool.splits
          dest: Cons.IH step intro: grows_trans [OF step Cons.IH])
qed simp

lemma bounceAll_reported:
  "bounceAll E from data fs w = (None, w') \<Longrightarrow> store_ok w \<Longrightarrow> f \<in> set fs \<Longrightarrow> reported E w w' from data f"
proof (induction fs arbitrary: w)
  case (Cons g fs)
  consider (never) "HasNotify (ParseDSNNotify (rf_notify g)) DSNNotifyNever" "bounceAll E from data fs w = (None, w')"
    | (sent) msg w1 where "s_dsn E g data (diagOf g) = Some msg" "Enqueue E [] [from] msg w = (True, w1)"
        "bounceAll E from data fs w1 = (None, w')"
    using Cons.prems(1) by (auto split: if_splits option.splits prod.splits bool.splits)
  then show ?case
  proof cases
    case never
    then show ?thesis using Cons by (auto simp: reported_def)
  next
    case sent
    have ok: "store_ok w1" "extends w w1"
      using growsD [OF Enqueue_grows Cons.prems(2), of E "[]" "[from]" msg] sent(2) by simp_all
    have "extends w1 w'" using growsD [OF bounceAll_grows [OF sent(3)] ok(1)] by simp
    then have "reported E w w' from data g"
      using queued_later [OF Enqueue_queued [OF sent(2)] ok(1)] sent(1) by (auto simp: reported_def)
    then show ?thesis using Cons.IH [OF sent(3) ok(1)] Cons.prems(3) reported_earlier [OF _ ok(2)] by auto
  qed
qed simp

lemma bounceFailedRecipients_grows: "bounceFailedRecipients E from data fs w = (err, w') \<Longrightarrow> grows w w'"
  using bounceAll_grows by (auto simp: bounceFailedRecipients_def split: if_splits)

lemma bounceFailedRecipients_reported:
  "bounceFailedRecipients E from data fs w = (None, w') \<Longrightarrow> store_ok w \<Longrightarrow> f \<in> set fs \<Longrightarrow>
     reported E w w' from data f"
  using bounceAll_reported [of E "from" data fs w w' f] by (auto simp: bounceFailedRecipients_def reported_def split: if_splits)

section \<open>The owner's decision\<close>

lemma attachSieveStore_grows: "grows w (attachSieveStore E w)"
  by (auto simp: attachSieveStore_def same_scripts_def intro!: manager_grows)

definition rejection :: "string \<Rightarrow> string \<Rightarrow> sieveOutcome \<Rightarrow> rcptFailure" where
  "rejection rcpt notify out = \<lparr>rf_rcpt = rcpt, rf_notify = notify, rf_err = ErrFault,
     rf_diag = ''smtp; 550 5.7.1 '' @ rejectReason (so_rejectMsg out)\<rparr>"

lemma redirected_later:
  "redirected E w w1 m data rs \<Longrightarrow> store_ok w1 \<Longrightarrow> extends w1 w' \<Longrightarrow> redirected E w w' m data rs"
  unfolding redirected_def using queued_later by meson

lemma redirected_earlier: "redirected E w1 w' m data rs \<Longrightarrow> extends w w1 \<Longrightarrow> redirected E w w' m data rs"
  unfolding redirected_def using queued_earlier by meson

text \<open>The redirects and the vacation reply that go before the copies.\<close>

definition beforeCopies ::
  "'db senv \<Rightarrow> string \<Rightarrow> string \<Rightarrow> string \<Rightarrow> string \<Rightarrow> string \<Rightarrow> sieveOutcome \<Rightarrow> 'db world \<Rightarrow> bool \<times> 'db world" where
  "beforeCopies E mailbox rcpt from data folder out w =
     (case redirectBySieve E mailbox data (so_redirects out) w of
        (failed, w) \<Rightarrow> (failed, case so_vacation out of
           None \<Rightarrow> w
         | Some va \<Rightarrow>
             if from \<noteq> [] \<and> folder \<noteq> ''Junk'' then sieveVacationReply E mailbox rcpt from data va w else w))"

lemma deliverLocalFiltered_eq:
  "deliverLocalFiltered E u d rcpt from notify data folder w0 =
     (let w = attachSieveStore E w0 in
      case filtered E w (u @ ''@'' @ d) rcpt from data folder of
        None \<Rightarrow> deliverLocalFor E u d from data folder w
      | Some out \<Rightarrow>
          if so_rejected out \<and> \<not> so_keep out \<and> so_folders out = [] \<and> so_redirects out = []
          then bounceFailedRecipients E from data [rejection rcpt notify out] w
          else (case beforeCopies E (u @ ''@'' @ d) rcpt from data folder out w of
                  (failed, w) \<Rightarrow> deliverOutcome E u d from data (so_keep out \<or> failed) folder out w))"
  unfolding deliverLocalFiltered_def beforeCopies_def rejection_def Let_def split_beta fst_conv snd_conv
  by (rule refl)

lemma beforeCopies_step:
  assumes "beforeCopies E m rcpt from data folder out w = (failed, w1)"
  shows "grows w w1" and "store_ok w \<Longrightarrow> \<not> failed \<Longrightarrow> redirected E w w1 m data (so_redirects out)"
proof -
  obtain w2 where r: "redirectBySieve E m data (so_redirects out) w = (failed, w2)" and g2: "grows w2 w1"
    using assms
    by (auto simp: beforeCopies_def sieveVacationReply_grows split: prod.splits option.splits if_splits)
  have g: "grows w w2" using redirectBySieve_grows [of w E m data "so_redirects out"] r by simp
  show "grows w w1" using grows_trans [OF g g2] .
  show "redirected E w w1 m data (so_redirects out)" if "store_ok w" "\<not> failed"
    using redirected_later [OF redirectBySieve_redirected [OF _ that(1)], of E m data _ w2 w1] r that
      growsD [OF g that(1)] growsD [OF g2] by simp
qed

lemma deliverLocalFiltered_grows:
  assumes "deliverLocalFiltered E u d rcpt from notify data folder w = (err, w')"
  shows "grows w w'"
proof -
  have "grows (attachSieveStore E w) w'"
    using assms unfolding deliverLocalFiltered_eq Let_def
    using deliverLocalFor_grows [of "attachSieveStore E w" E u d "from" data folder]
    by (auto split: option.splits if_splits prod.splits dest: bounceFailedRecipients_grows
          intro: grows_trans [OF beforeCopies_step(1) deliverOutcome_grows])
  then show ?thesis using grows_trans [OF attachSieveStore_grows] by blast
qed

definition obeyed ::
  "'db senv \<Rightarrow> 'db world \<Rightarrow> 'db world \<Rightarrow> string \<Rightarrow> string \<Rightarrow> string \<Rightarrow> string \<Rightarrow> string \<Rightarrow> string \<Rightarrow> string \<Rightarrow> bool" where
  \<comment> \<open>what the owner's script or filters decide has happened: a message only rejected is
    reported; else its redirects are in the queue, or one failed and the message counts as
    kept, and its copies are in their folders. Without script and filters it is in the folder.\<close>
  "obeyed E w0 w' user domain rcpt from notify data folder =
     (let mailbox = user @ ''@'' @ domain; w = attachSieveStore E w0 in
      case filtered E w mailbox rcpt from data folder of
        None \<Rightarrow> inFolder E w w' user domain from data folder []
      | Some out \<Rightarrow>
          if so_rejected out \<and> \<not> so_keep out \<and> so_folders out = [] \<and> so_redirects out = []
          then reported E w w' from data (rejection rcpt notify out)
          else (case beforeCopies E mailbox rcpt from data folder out w of
                  (failed, w1) \<Rightarrow>
                    (\<not> failed \<longrightarrow> redirected E w w' mailbox data (so_redirects out)) \<and>
                    copied E w1 w' user domain from data (so_keep out \<or> failed) folder out))"

lemma obeyed_later:
  assumes "obeyed E w w1 u d rcpt from notify data folder" "store_ok w1" "extends w1 w'"
  shows "obeyed E w w' u d rcpt from notify data folder"
  using assms(1) inFolder_later [OF _ assms(2,3)] redirected_later [OF _ assms(2,3)]
    reported_later [OF _ assms(2,3)] copied_later [OF _ assms(2,3)]
  unfolding obeyed_def Let_def by (auto split: option.splits if_splits prod.splits)

lemma deliverLocalFiltered_obeyed:
  assumes run: "deliverLocalFiltered E u d rcpt from notify data folder w0 = (None, w')" and ok0: "store_ok w0"
  shows "obeyed E w0 w' u d rcpt from notify data folder"
proof -
  define w where "w = attachSieveStore E w0"
  have ok: "store_ok w" using growsD [OF attachSieveStore_grows ok0] by (simp add: w_def)
  note run = run [unfolded deliverLocalFiltered_eq Let_def, folded w_def]
  note goal = obeyed_def [of E w0 w' u d rcpt "from" notify data folder, unfolded Let_def, folded w_def]
  show ?thesis
  proof (cases "filtered E w (u @ ''@'' @ d) rcpt from data folder")
    case None
    then show ?thesis using run deliverLocalFor_inFolder [OF _ ok, of E u d "from" data folder w'] by (simp add: goal)
  next
    case (Some out)
    show ?thesis
    proof (cases "so_rejected out \<and> \<not> so_keep out \<and> so_folders out = [] \<and> so_redirects out = []")
      case True
      then show ?thesis
        using run Some bounceFailedRecipients_reported [OF _ ok, of E "from" data "[rejection rcpt notify out]" w']
        by (simp add: goal)
    next
      case False
      obtain failed w1 where b: "beforeCopies E (u @ ''@'' @ d) rcpt from data folder out w = (failed, w1)" by fastforce
      have o: "deliverOutcome E u d from data (so_keep out \<or> failed) folder out w1 = (None, w')"
        using run Some False b by (simp split: if_splits)
      have g: "store_ok w1" using growsD [OF beforeCopies_step(1) [OF b] ok] by simp
      have g2: "extends w1 w'" using growsD [OF deliverOutcome_grows [OF o] g] by simp
      have "redirected E w w' (u @ ''@'' @ d) data (so_redirects out)" if "\<not> failed"
        using redirected_later [OF beforeCopies_step(2) [OF b ok that] g g2] .
      then show ?thesis
        unfolding goal Some option.case if_not_P [OF False] b prod.case using deliverOutcome_copied [OF o g] by blast
    qed
  qed
qed

section \<open>All recipients\<close>

definition looping :: "'db world \<Rightarrow> string \<Rightarrow> bool" where
  "looping w r = (case routeRecipient w r of AliasLoop _ \<Rightarrow> True | _ \<Rightarrow> False)"

abbreviation destKey :: "'db world \<Rightarrow> string \<Rightarrow> string" where
  "destKey w r \<equiv> rcptDedupKey (routeRecipient w r)"

definition sameDest :: "'db world \<Rightarrow> string \<Rightarrow> string \<Rightarrow> bool" where
  "sameDest w r r' = (r' = r \<or> (destKey w r' = destKey w r \<and> \<not> looping w r))"

abbreviation failure :: "string \<Rightarrow> string \<Rightarrow> delivery_error \<Rightarrow> rcptFailure" where
  "failure rcpt notify err \<equiv> \<lparr>rf_rcpt = rcpt, rf_notify = notify, rf_err = err, rf_diag = []\<rparr>"

lemma nonlooping_key: "\<not> looping w r \<Longrightarrow> destKey w r \<noteq> []"
  by (simp add: looping_def rcptDedupKey_def split: route.splits)

lemma looping_key: "looping w r \<Longrightarrow> destKey w r = []"
  by (simp add: looping_def rcptDedupKey_def split: route.splits)

lemma deliverEach_again:
  "\<not> looping w r \<Longrightarrow> destKey w r \<in> set seen \<Longrightarrow>
     deliverEach serve ((r, n) # rs) seen k failed w = deliverEach serve rs seen k failed w"
  by (auto simp: looping_def Let_def split: route.splits)

lemma deliverEach_loop:
  "looping w r \<Longrightarrow>
     deliverEach serve ((r, n) # rs) seen k failed w = deliverEach serve rs seen k (failed @ [failure r n ErrRoute]) w"
  by (auto simp: looping_def Let_def split: route.splits)

lemma deliverEach_one:
  "\<not> looping w r \<Longrightarrow> destKey w r \<notin> set seen \<Longrightarrow> serve r n (routeRecipient w r) w = (err, w1) \<Longrightarrow>
     deliverEach serve ((r, n) # rs) seen k failed w =
       deliverEach serve rs (destKey w r # seen) (if err = None then k + 1 else k)
         (failed @ (case err of None \<Rightarrow> [] | Some e \<Rightarrow> [failure r n e])) w1"
  by (cases err) (auto simp: looping_def Let_def split: route.splits)

lemma deliverEach_induct [case_names Nil again loop one]:
  assumes "\<And>seen w. P [] seen w"
    and "\<And>r n rs seen w. \<not> looping w r \<Longrightarrow> destKey w r \<in> set seen \<Longrightarrow> P rs seen w \<Longrightarrow> P ((r, n) # rs) seen w"
    and "\<And>r n rs seen w. looping w r \<Longrightarrow> P rs seen w \<Longrightarrow> P ((r, n) # rs) seen w"
    and "\<And>r n rs seen w err w1. \<not> looping w r \<Longrightarrow> destKey w r \<notin> set seen \<Longrightarrow>
       serve r n (routeRecipient w r) w = (err, w1) \<Longrightarrow> P rs (destKey w r # seen) w1 \<Longrightarrow> P ((r, n) # rs) seen w"
  shows "P rs seen w"
proof -
  have "\<forall>seen w. P rs seen w"
  proof (induction rs)
    case (Cons x rs)
    obtain r n where x: "x = (r, n)" by fastforce
    have "P ((r, n) # rs) seen w" for seen w
    proof -
      obtain err w1 where one: "serve r n (routeRecipient w r) w = (err, w1)" by fastforce
      have IH: "P rs seen w" "P rs (destKey w r # seen) w1" using Cons by simp_all
      show ?thesis
        using assms(2) [OF _ _ IH(1)] assms(3) [OF _ IH(1)] assms(4) [OF _ _ one IH(2)]
        by (cases "looping w r"; cases "destKey w r \<in> set seen") simp_all
    qed
    then show ?case unfolding x by blast
  qed (use assms(1) in blast)
  then show ?thesis by blast
qed

declare deliverEach.simps(2) [simp del]

lemma deliverEach_world:
  "snd (deliverEach serve rs seen k failed w) = snd (deliverEach serve rs seen 0 [] w)"
proof (induction rs seen w arbitrary: k failed rule: deliverEach_induct [where serve = serve])
  case (again r n rs seen w)
  then show ?case by (simp add: deliverEach_again)
next
  case (loop r n rs seen w)
  show ?case
    unfolding deliverEach_loop [OF loop(1)] loop(2) [of k "failed @ _"] loop(2) [of 0 "[] @ _"] by (rule refl)
next
  case (one r n rs seen w err w1)
  show ?case
    unfolding deliverEach_one [of _ _ _ serve, OF one(1-3)] one(4) [of _ "failed @ _"] one(4) [of _ "[] @ _"] by (rule refl)
qed simp

text \<open>The turn of a recipient: the first with its destination, in the state the ones
  before it leave behind. A looping address is no destination and always has one.\<close>

definition turn ::
  "(string \<Rightarrow> string \<Rightarrow> route \<Rightarrow> 'db world \<Rightarrow> delivery_error option \<times> 'db world) \<Rightarrow> (string \<times> string) list \<Rightarrow>
   string list \<Rightarrow> 'db world \<Rightarrow> string \<Rightarrow> string \<Rightarrow> 'db world \<Rightarrow> bool" where
  "turn serve rs seen w r n w1 =
     (\<exists>rs1 rs2. rs = rs1 @ (r, n) # rs2 \<and> w1 = snd (deliverEach serve rs1 seen 0 [] w) \<and>
        (looping w r \<or> destKey w r \<notin> set seen \<union> (\<lambda>x. destKey w (fst x)) ` set rs1))"

lemma turn_here: "looping w r \<or> destKey w r \<notin> set seen \<Longrightarrow> turn serve ((r, n) # rs) seen w r n w"
  unfolding turn_def by (rule exI [of _ "[]"]) auto

lemma turn_later:
  assumes "turn serve rs seen' w1 r n w2"
    and world: "\<And>rs. snd (deliverEach serve (x # rs) seen 0 [] w) = snd (deliverEach serve rs seen' 0 [] w1)"
    and routes: "routeRecipient w1 = routeRecipient w"
    and key: "looping w (fst x) \<or> destKey w (fst x) \<in> set seen'" and seen: "set seen \<subseteq> set seen'"
  shows "turn serve (x # rs) seen w r n w2"
proof -
  obtain rs1 rs2 where rs: "rs = rs1 @ (r, n) # rs2" "w2 = snd (deliverEach serve rs1 seen' 0 [] w1)"
      "looping w r \<or> destKey w r \<notin> set seen' \<union> (\<lambda>x. destKey w (fst x)) ` set rs1"
    using assms(1) by (auto simp: turn_def looping_def routes)
  have "looping w r \<or> destKey w r \<notin> set seen \<union> (\<lambda>x. destKey w (fst x)) ` set (x # rs1)"
    using rs(3) key seen looping_key [of w "fst x"] nonlooping_key [of w r] by auto
  then show ?thesis unfolding turn_def rs world [of rs1, symmetric] by (intro exI [of _ "x # rs1"] exI [of _ rs2]) simp
qed

text \<open>The contract of a loop body, and what the loop makes of it: \<open>good\<close> is the
  evidence that a recipient was served, from the state at its turn on.\<close>

locale serving =
  fixes serve :: "string \<Rightarrow> string \<Rightarrow> route \<Rightarrow> 'db world \<Rightarrow> delivery_error option \<times> 'db world"
    and good :: "'db world \<Rightarrow> 'db world \<Rightarrow> string \<Rightarrow> string \<Rightarrow> bool"
  assumes serve_grows: "serve r n route w = (err, w') \<Longrightarrow> grows w w'"
    and serve_good: "serve r n (routeRecipient w r) w = (None, w') \<Longrightarrow> store_ok w \<Longrightarrow> good w w' r n"
    and serve_loop: "looping w r \<Longrightarrow> serve r n (routeRecipient w r) w = (Some ErrRoute, w)"
    and good_later: "good w w1 r n \<Longrightarrow> store_ok w1 \<Longrightarrow> extends w1 w' \<Longrightarrow> good w w' r n"
begin

lemma each_grows: "grows w (snd (deliverEach serve rs seen k failed w))"
proof (induction rs seen w arbitrary: k failed rule: deliverEach_induct [where serve = serve])
  case (one r n rs seen w err w1)
  show ?case unfolding deliverEach_one [of _ _ _ serve, OF one(1-3)] by (rule grows_trans [OF serve_grows [OF one(3)] one(4)])
qed (simp_all add: deliverEach_again deliverEach_loop)

lemma each_failed: "set failed \<subseteq> set (snd (fst (deliverEach serve rs seen k failed w)))"
proof (induction rs seen w arbitrary: k failed rule: deliverEach_induct [where serve = serve])
  case (loop r n rs seen w)
  show ?case unfolding deliverEach_loop [OF loop(1)] using loop(2) [of "failed @ _" k] by auto
next
  case (one r n rs seen w err w1)
  show ?case unfolding deliverEach_one [of _ _ _ serve, OF one(1-3)] using one(4) [of "failed @ _"] by auto
qed (simp_all add: deliverEach_again)

lemma turn_again:
  assumes "\<not> looping w r1" "destKey w r1 \<in> set seen" "turn serve rs seen w r n w2"
  shows "turn serve ((r1, n1) # rs) seen w r n w2"
  by (rule turn_later [OF assms(3)]) (use assms in \<open>simp_all only: deliverEach_again fst_conv simp_thms order_refl\<close>)

lemma turn_loop:
  assumes "looping w r1" "turn serve rs seen w r n w2"
  shows "turn serve ((r1, n1) # rs) seen w r n w2"
  by (rule turn_later [OF assms(2)])
     (use assms deliverEach_world [of serve _ seen 0 "[] @ _" w] in
        \<open>simp_all only: deliverEach_loop fst_conv simp_thms order_refl\<close>)

lemma turn_one:
  assumes "\<not> looping w r1" "destKey w r1 \<notin> set seen" "serve r1 n1 (routeRecipient w r1) w = (err, w1)" "extends w w1"
    and "turn serve rs (destKey w r1 # seen) w1 r n w2"
  shows "turn serve ((r1, n1) # rs) seen w r n w2"
proof (rule turn_later [OF assms(5)])
  show "snd (deliverEach serve ((r1, n1) # rs) seen 0 [] w) = snd (deliverEach serve rs (destKey w r1 # seen) 0 [] w1)" for rs
    unfolding deliverEach_one [of _ _ _ serve, OF assms(1-3)] by (rule deliverEach_world)
qed (auto simp: route_extends [OF assms(4)])

text \<open>A recipient with the destination of \<open>r\<close> has its turn, and is served then or fails
  then and is among the failed ones.\<close>

definition settled :: "'db world \<Rightarrow> 'db world \<Rightarrow> rcptFailure list \<Rightarrow> string \<Rightarrow> string \<Rightarrow> bool" where
  "settled w1 w' failed r n =
     (extends w1 w' \<and> (good w1 w' r n \<or>
        (\<exists>err. fst (serve r n (routeRecipient w1 r) w1) = Some err \<and> failure r n err \<in> set failed)))"

lemma each_settled:
  "deliverEach serve rs seen k failed w = ((k', failed'), w') \<Longrightarrow> store_ok w \<Longrightarrow> (r, n) \<in> set rs \<Longrightarrow>
     (\<not> looping w r \<and> destKey w r \<in> set seen) \<or>
     (\<exists>r' n' w1. turn serve rs seen w r' n' w1 \<and> sameDest w r r' \<and> settled w1 w' failed' r' n')"
proof (induction rs seen w arbitrary: k failed rule: deliverEach_induct [where serve = serve])
  case (again r1 n1 rs seen w)
  then show ?case
    using again(3) [OF again(4) [unfolded deliverEach_again [OF again(1,2)]] again(5)] turn_again [OF again(1,2)] by auto
next
  case (loop r1 n1 rs seen w)
  note rest = loop(3) [unfolded deliverEach_loop [OF loop(1)]]
  have "extends w w'" using growsD [OF each_grows loop(4), of rs seen k "failed @ [failure r1 n1 ErrRoute]"] rest by simp
  moreover have "failure r1 n1 ErrRoute \<in> set failed'"
    using each_failed [of "failed @ [failure r1 n1 ErrRoute]" rs seen k w] rest by simp
  ultimately have "settled w w' failed' r1 n1" using serve_loop [OF loop(1)] by (simp add: settled_def)
  then have "(r, n) = (r1, n1) \<Longrightarrow> ?case" using turn_here [of w r1 seen serve n1 rs] loop(1) by (auto simp: sameDest_def)
  moreover have "(r, n) \<in> set rs \<Longrightarrow> ?case" using loop(2) [OF rest loop(4)] turn_loop [OF loop(1)] by blast
  ultimately show ?case using loop(5) by auto
next
  case (one r1 n1 rs seen w err w1)
  note rest = one(5) [unfolded deliverEach_one [of _ _ _ serve, OF one(1-3)]]
  let ?failed = "failed @ (case err of None \<Rightarrow> [] | Some e \<Rightarrow> [failure r1 n1 e])"
  have w1: "store_ok w1" "extends w w1" using growsD [OF serve_grows [OF one(3)] one(6)] by simp_all
  have w': "extends w1 w'" using growsD [OF each_grows w1(1)] rest by (metis snd_conv)
  have "set ?failed \<subseteq> set failed'" using each_failed rest by (metis fst_conv snd_conv)
  then have "settled w w' failed' r1 n1"
    using one(3) good_later [OF serve_good [OF _ one(6)] w1(1) w'] extends_trans [OF w1(2) w']
    by (cases err) (auto simp: settled_def)
  then have first: "sameDest w r r1 \<Longrightarrow> ?case" using turn_here [of w r1 seen serve n1 rs] one(2) by blast
  show ?case
  proof (cases "r = r1")
    case False
    then have "(r, n) \<in> set rs" using one(7) by auto
    then consider "\<not> looping w r" "destKey w r \<in> set seen" | "sameDest w r r1"
      | r' n' w2 where "turn serve rs (destKey w r1 # seen) w1 r' n' w2" "sameDest w r r'" "settled w2 w' failed' r' n'"
      using one(4) [OF rest w1(1)] by (auto simp: sameDest_def looping_def route_extends [OF w1(2)])
    then show ?thesis using first turn_one [OF one(1-3) w1(2)] by cases blast+
  qed (use first in \<open>simp add: sameDest_def\<close>)
qed simp

lemma each_delivered:
  "deliverEach serve rs seen k failed w = ((k', failed'), w') \<Longrightarrow> store_ok w \<Longrightarrow> k < k' \<Longrightarrow>
     \<exists>r n w1. turn serve rs seen w r n w1 \<and> good w1 w' r n"
proof (induction rs seen w arbitrary: k failed rule: deliverEach_induct [where serve = serve])
  case (again r1 n1 rs seen w)
  then show ?case
    using again(3) [OF again(4) [unfolded deliverEach_again [OF again(1,2)]] again(5)] turn_again [OF again(1,2)] by blast
next
  case (loop r1 n1 rs seen w)
  then show ?case
    using loop(2) [OF loop(3) [unfolded deliverEach_loop [OF loop(1)]] loop(4)] turn_loop [OF loop(1)] by blast
next
  case (one r1 n1 rs seen w err w1)
  note rest = one(5) [unfolded deliverEach_one [of _ _ _ serve, OF one(1-3)]]
  have w1: "store_ok w1" "extends w w1" using growsD [OF serve_grows [OF one(3)] one(6)] by simp_all
  have w': "extends w1 w'" using growsD [OF each_grows w1(1)] rest by (metis snd_conv)
  show ?case
  proof (cases err)
    case None
    then have "good w w' r1 n1" using one(3) good_later [OF serve_good [OF _ one(6)] w1(1) w'] by simp
    then show ?thesis using turn_here [of w r1 seen serve n1 rs] one(2) by blast
  next
    case (Some e)
    then show ?thesis using one(4) [OF rest w1(1)] one(7) turn_one [OF one(1-3) w1(2)] by fastforce
  qed
qed simp

end

lemma settleDelivery_reported:
  assumes "settleDelivery E from data k failed w = (None, w')" "store_ok w" "f \<in> set failed"
  shows "reported E w w' from data f"
  using assms bounceFailedRecipients_reported [of E "from" data failed w w' f]
  by (auto simp: settleDelivery_def Let_def split: if_splits prod.splits option.splits)

lemma settleDelivery_delivered: "settleDelivery E from data k failed w = (None, w') \<Longrightarrow> failed \<noteq> [] \<Longrightarrow> 0 < k"
  by (simp add: settleDelivery_def Let_def split: if_splits)

lemma settleDelivery_grows: "settleDelivery E from data k failed w = (err, w') \<Longrightarrow> grows w w'"
  by (auto simp: settleDelivery_def Let_def split: if_splits prod.splits option.splits
        dest: bounceFailedRecipients_grows)

context serving
begin

lemma accepted:
  assumes "deliverEach serve rs [] 0 [] w = ((k, failed), w1)" "settleDelivery E from data k failed w1 = (None, w')"
    and "store_ok w" "(r, n) \<in> set rs"
  shows "\<exists>r' n' w2. turn serve rs [] w r' n' w2 \<and> sameDest w r r' \<and>
    (good w2 w' r' n' \<or>
     (\<exists>err. fst (serve r' n' (routeRecipient w2 r') w2) = Some err \<and> reported E w2 w' from data (failure r' n' err)) \<and>
     (\<exists>r3 n3 w3. turn serve rs [] w r3 n3 w3 \<and> good w3 w' r3 n3))"
proof -
  have w1: "store_ok w1" using growsD [OF each_grows assms(3)] assms(1) by (metis snd_conv)
  have w': "extends w1 w'" using growsD [OF settleDelivery_grows [OF assms(2)] w1] by simp
  obtain r' n' w2 where t: "turn serve rs [] w r' n' w2" "sameDest w r r'" "settled w2 w1 failed r' n'"
    using each_settled [OF assms(1,3,4)] by auto
  then consider "good w2 w1 r' n'" | err where "fst (serve r' n' (routeRecipient w2 r') w2) = Some err"
      "failure r' n' err \<in> set failed"
    unfolding settled_def by blast
  then show ?thesis
  proof cases
    case 1
    then show ?thesis using t(1,2) good_later [OF _ w1 w'] by blast
  next
    case 2
    have e: "extends w2 w1" using t(3) by (simp add: settled_def)
    have "reported E w2 w' from data (failure r' n' err)"
      using reported_earlier [OF settleDelivery_reported [OF assms(2) w1 2(2)] e] .
    moreover have "0 < k" using settleDelivery_delivered [OF assms(2)] 2(2) by force
    then obtain r3 n3 w3 where "turn serve rs [] w r3 n3 w3" "good w3 w1 r3 n3"
      using each_delivered [OF assms(1,3)] by blast
    ultimately show ?thesis using t(1,2) 2(1) good_later [OF _ w1 w'] by blast
  qed
qed

end

section \<open>The two loop bodies\<close>

lemma relayMessageWithDSN_grows:
  "relayMessageWithDSN E from to notify data w = (err, w') \<Longrightarrow> grows w w'"
  using EnqueueWithDSN_grows [of w E "from" "[to]" notify data]
  by (auto simp: relayMessageWithDSN_def split: if_splits prod.splits bool.splits)

lemma relayMessage_grows: "relayMessage E from to data w = (err, w') \<Longrightarrow> grows w w'"
  using Enqueue_grows [of w E "from" "[to]" data]
  by (auto simp: relayMessage_def split: if_splits prod.splits bool.splits)

lemma relayRedirects_grows: "grows w (relayRedirects E from data addrs w)"
proof (induction addrs arbitrary: w)
  case (Cons a addrs)
  have "grows w (snd (relayMessage E from a (addMailLoopHeader data from) w))"
    using relayMessage_grows by (metis prod.collapse)
  then show ?case using Cons grows_trans by auto
qed simp

definition served ::
  "'db senv \<Rightarrow> 'db world \<Rightarrow> 'db world \<Rightarrow> string \<Rightarrow> string \<Rightarrow> string \<Rightarrow> string \<Rightarrow> string \<Rightarrow> bool" where
  \<comment> \<open>relayed to the host of the recipient if there is a queue, or treated as its owner decided\<close>
  "served E w w' from data folder rcpt notify =
     (case routeRecipient w rcpt of
        External external \<Rightarrow> e_hasQueue E \<longrightarrow> queued w w' from external data
      | LocalBox user domain \<Rightarrow> obeyed E w w' user domain rcpt from notify data folder
      | AliasLoop _ \<Rightarrow> False)"

definition placed :: "'db senv \<Rightarrow> 'db world \<Rightarrow> 'db world \<Rightarrow> string \<Rightarrow> string \<Rightarrow> string \<Rightarrow> string \<Rightarrow> bool" where
  \<comment> \<open>relayed to the host of the recipient, or in the folder of its mailbox\<close>
  "placed E w w' from data folder rcpt =
     (case routeRecipient w rcpt of
        External external \<Rightarrow> e_hasQueue E \<and> queued w w' from external data
      | LocalBox user domain \<Rightarrow> inFolder E w w' user domain from data folder []
      | AliasLoop _ \<Rightarrow> False)"

interpretation filtered_loop: serving "serveFiltered E from data folder" "\<lambda>w w'. served E w w' from data folder"
  for E "from" data folder
proof
  show "serveFiltered E from data folder r n route w = (err, w') \<Longrightarrow> grows w w'" for r n route w err w'
    by (auto simp: serveFiltered_def split: route.splits dest: relayMessageWithDSN_grows deliverLocalFiltered_grows)
  show "served E w w' from data folder r n"
    if "serveFiltered E from data folder r n (routeRecipient w r) w = (None, w')" "store_ok w" for r n w w'
    using that EnqueueWithDSN_queued [of E "from" "[_]" "[n]" data w w']
    by (auto simp: serveFiltered_def served_def relayMessageWithDSN_def deliverLocalFiltered_obeyed
          split: route.splits prod.splits bool.splits)
qed (auto simp: served_def serveFiltered_def looping_def split: route.splits intro: queued_later obeyed_later)

interpretation plain_loop: serving "servePlain E from data folder" "\<lambda>w w' r n. placed E w w' from data folder r"
  for E "from" data folder
proof
  show "servePlain E from data folder r n route w = (err, w') \<Longrightarrow> grows w w'" for r n route w err w'
    using deliverLocalFor_grows [of w E _ _ "from" data folder]
    by (auto simp: servePlain_def split: route.splits dest: relayMessage_grows) (metis snd_conv)
  show "placed E w w' from data folder r"
    if "servePlain E from data folder r n (routeRecipient w r) w = (None, w')" "store_ok w" for r n w w'
    using that Enqueue_queued [of E "from" "[_]" data w w']
    by (auto simp: servePlain_def placed_def relayMessage_def deliverLocalFor_inFolder
          split: route.splits prod.splits bool.splits if_splits)
qed (auto simp: placed_def servePlain_def looping_def split: route.splits intro: queued_later inFolder_later)

lemma withNotify_mem: "r \<in> set to \<Longrightarrow> \<exists>n. (r, n) \<in> set (withNotify to notify)"
proof -
  assume "r \<in> set to"
  then obtain i where "i < length to" "r = to ! i" by (auto simp: in_set_conv_nth)
  then have "(r, if i < length notify then notify ! i else []) \<in> set (withNotify to notify)"
    unfolding withNotify_def by (simp add: image_iff) force
  then show ?thesis by blast
qed

section \<open>Properties of delivery\<close>



text \<open>
  C2. Mail submitted without a script is accounted for as well. When
  \<^verbatim>\<open>deliverMessageWithSieve\<close> (which \<^verbatim>\<open>deliverMessage\<close> calls) accepts a message, then
  every recipient, or the first one with the same destination, had its turn, and
  either the message is in the queue for the external address, or in the folder the
  caller's actions name (else the INBOX) of the mailbox, or forwarded from it; or the
  delivery at its turn failed, some other recipient was served, and a failure report
  is in the queue, except that a null sender gets none. Without a queue the turn of
  an external recipient always fails.
\<close>

theorem submitted_mail_is_not_lost:
  assumes "store_ok w" "deliverMessageWithSieve E from to data actions w = (None, w')" "r \<in> set to"
  shows "case fold sieveActionStep actions ([], []) of (folder, addrs) \<Rightarrow>
    (let serve = servePlain E from data folder;
         turn = turn serve (map (\<lambda>r. (r, [])) to) [] (relayRedirects E from data addrs w) in
     \<exists>r' n w1. turn r' n w1 \<and> sameDest w r r' \<and>
       (placed E w1 w' from data folder r' \<or>
        (\<exists>err. fst (serve r' n (routeRecipient w1 r') w1) = Some err \<and> reported E w1 w' from data (failure r' n err)) \<and>
        (\<exists>r2 n2 w2. turn r2 n2 w2 \<and> placed E w2 w' from data folder r2)))"
proof -
  obtain folder addrs where acts: "fold sieveActionStep actions ([], []) = (folder, addrs)" by fastforce
  let ?w0 = "relayRedirects E from data addrs w" and ?rs = "map (\<lambda>r. (r, [])) to"
  have w0: "store_ok ?w0" "extends w ?w0" using growsD [OF relayRedirects_grows assms(1)] by simp_all
  have same: "sameDest ?w0 = sameDest w"
    by (intro ext) (simp add: sameDest_def looping_def route_extends [OF w0(2)])
  obtain k failed w1 where run: "deliverEach (servePlain E from data folder) ?rs [] 0 [] ?w0 = ((k, failed), w1)"
      "settleDelivery E from data k failed w1 = (None, w')"
    using assms(2) acts by (auto simp: deliverMessageWithSieve_def Let_def split: if_splits prod.splits)
  have "(r, []) \<in> set ?rs" using assms(3) by simp
  from plain_loop.accepted [OF run w0(1) this] show ?thesis unfolding acts prod.case Let_def same .
qed

theorem submitted_mail_is_not_lost_witness:
  "let to = [''info@x.org'', ''sue@z.org'']; w' = snd (deliverMessageWithSieve demo_host ''ann@y.org'' to ''Subject: hi'' [] demo_world);
       serve = servePlain demo_host ''ann@y.org'' ''Subject: hi'' [];
       turn = turn serve (map (\<lambda>r. (r, [])) to) [] demo_world
   in \<exists>r' n w1. turn r' n w1 \<and> sameDest demo_world ''sue@z.org'' r' \<and>
        (placed demo_host w1 w' ''ann@y.org'' ''Subject: hi'' [] r' \<or>
         (\<exists>err. fst (serve r' n (routeRecipient w1 r') w1) = Some err \<and>
            reported demo_host w1 w' ''ann@y.org'' ''Subject: hi'' (failure r' n err)) \<and>
         (\<exists>r2 n2 w2. turn r2 n2 w2 \<and> placed demo_host w2 w' ''ann@y.org'' ''Subject: hi'' [] r2))"
proof -
  let ?to = "[''info@x.org'', ''sue@z.org'']"
  have run: "fst (deliverMessageWithSieve demo_host ''ann@y.org'' ?to ''Subject: hi'' [] demo_world) = None"
    by code_simp
  have "''sue@z.org'' \<in> set ?to" by simp
  from submitted_mail_is_not_lost [OF demo_world_ok(1) pair_of_fst [OF run] this]
  show ?thesis unfolding Let_def fold.simps id_apply prod.case relayRedirects.simps .
qed

section \<open>Sequences of deliveries\<close>

type_synonym job = "string \<times> string list \<times> string list \<times> string \<times> string"

definition deliveries :: "'db senv \<Rightarrow> job list \<Rightarrow> 'db world \<Rightarrow> 'db world" where
  \<comment> \<open>messages one after the other, accepted or not\<close>
  "deliveries E = fold (\<lambda>(from, to, notify, data, folder) w. snd (deliverMessageToFolderDSN E from to notify data folder w))"

lemma deliverMessageToFolderDSN_grows: "grows w (snd (deliverMessageToFolderDSN E from to notify data folder w))"
proof -
  obtain k failed w1 where e:
      "deliverEach (serveFiltered E from data folder) (withNotify to notify) [] 0 [] w = ((k, failed), w1)"
    by (metis prod.collapse)
  obtain err w' where s: "settleDelivery E from data k failed w1 = (err, w')" by fastforce
  have "grows w w'"
    using grows_trans [OF _ settleDelivery_grows [OF s]]
      filtered_loop.each_grows [of w E "from" data folder "withNotify to notify" "[]" 0 "[]"] unfolding e by simp
  then show ?thesis using e s by (simp add: deliverMessageToFolderDSN_def)
qed

lemma deliveries_grows: "grows w (deliveries E js w)"
proof (induction js arbitrary: w)
  case (Cons j js)
  obtain from' to notify data folder where j: "j = (from', to, notify, data, folder)" by (metis prod_cases5)
  have "deliveries E (j # js) w = deliveries E js (snd (deliverMessageToFolderDSN E from' to notify data folder w))"
    by (simp add: deliveries_def j)
  then show ?case using grows_trans [OF deliverMessageToFolderDSN_grows Cons] by simp
qed (simp add: deliveries_def)

text \<open>
  C3. Deliveries only add. Over any sequence of deliveries, with any writes failing,
  the stores stay well formed (so an identifier of the queue and the UID of a
  mailbox are never issued twice), every row, blob, queue entry and message file
  there was is still there unchanged, no route of an address changes, and no
  account with a limit is taken over it.
\<close>

theorem deliveries_only_add:
  assumes "store_ok w"
  shows "let w' = deliveries E js w in store_ok w' \<and>
    (\<forall>k m. fmlookup (w_rows w) k = Some m \<longrightarrow> fmlookup (w_rows w') k = Some m) \<and>
    (\<forall>k. fmlookup (w_blobs w) k \<noteq> None \<longrightarrow> fmlookup (w_blobs w') k \<noteq> None) \<and>
    (\<forall>k e. fmlookup (w_queue w) k = Some e \<longrightarrow> fmlookup (w_queue w') k = Some e) \<and>
    (\<forall>b f. fmlookup (w_files w) b = Some f \<longrightarrow> fmlookup (w_files w') b = Some f) \<and>
    (\<forall>r. routeRecipient w' r = routeRecipient w r) \<and> quota_bounded (w_accounts w) (w_accounts w')"
proof -
  define w' where "w' = deliveries E js w"
  have w': "store_ok w'" and e: "extends w w'" using growsD [OF deliveries_grows assms(1)] by (simp_all add: w'_def)
  have old: "fmlookup (w_queue w) (b, i) \<noteq> None \<Longrightarrow> b < w_nextID w" "fmlookup (w_files w) b \<noteq> None \<Longrightarrow> b < w_nextID w" for b i
    using assms(1) unfolding store_ok_def ids_ok_def by blast+
  have "fmlookup (w_queue w') (b, i) = Some x" if "fmlookup (w_queue w) (b, i) = Some x" for b i x
    using e old(1) [of b i] that unfolding extends_def by simp
  moreover have "fmlookup (w_files w') b = Some x" if "fmlookup (w_files w) b = Some x" for b x
    using e old(2) [of b] that unfolding extends_def by simp
  ultimately show ?thesis
    using w' e route_extends [OF e] unfolding extends_def Let_def w'_def [symmetric] by auto
qed

theorem deliveries_only_add_witness:
  "store_ok (deliveries demo_host [(''ann@y.org'', [''bob@x.org''], [], ''Subject: hi'', [])] demo_world)"
  using deliveries_only_add [OF demo_world_ok(1)] unfolding Let_def by blast

section \<open>What a script decided\<close>

definition neutral :: "action \<Rightarrow> bool" where
  \<comment> \<open>actions that leave the implicit keep in force\<close>
  "neutral a = (case a of KeepAction _ \<Rightarrow> True | VacationAction _ \<Rightarrow> True | StopAction \<Rightarrow> True | _ \<Rightarrow> False)"

abbreviation folders_of :: "action list \<Rightarrow> string list" where
  "folders_of as \<equiv> concat (map (\<lambda>a. case a of FileintoAction f _ _ \<Rightarrow> [f] | _ \<Rightarrow> []) as)"

abbreviation redirects_of :: "action list \<Rightarrow> string list" where
  "redirects_of as \<equiv> concat (map (\<lambda>a. case a of RedirectAction r _ \<Rightarrow> [r] | _ \<Rightarrow> []) as)"

lemma outcome_fold:
  "fold outcomeStep as (out, ik) = (out', ik') \<Longrightarrow>
     ik' = (ik \<and> list_all neutral as) \<and>
     so_keep out' = (so_keep out \<or> (\<exists>fs. KeepAction fs \<in> set as)) \<and>
     so_folders out' = so_folders out @ folders_of as \<and>
     so_redirects out' = so_redirects out @ redirects_of as \<and>
     so_rejected out' = (so_rejected out \<or> (\<exists>m. RejectAction m \<in> set as))"
proof (induction as arbitrary: out ik)
  case (Cons a as)
  then show ?case
    by (cases a) (auto simp: outcomeStep_def neutral_def dest!: Cons.IH)
qed simp

lemma dropped_silently:
  "\<not> ((\<exists>fs. KeepAction fs \<in> set as) \<or> list_all neutral as) \<and> folders_of as = [] \<and> redirects_of as = [] \<and>
     \<not> (\<exists>m. RejectAction m \<in> set as) \<longleftrightarrow>
   DiscardAction \<in> set as \<and> set as \<subseteq> {DiscardAction, StopAction} \<union> range VacationAction" (is "?l \<longleftrightarrow> ?r")
proof
  assume l: ?l
  have kind: "a \<in> {DiscardAction, StopAction} \<union> range VacationAction" if "a \<in> set as" for a
    using l that by (cases a) (fastforce simp: concat_eq_Nil_conv split: action.splits)+
  obtain a where "a \<in> set as" "\<not> neutral a" using l by (auto simp: list_all_iff)
  then have "DiscardAction \<in> set as" using kind [of a] by (auto simp: neutral_def)
  then show ?r using kind by blast
next
  assume r: ?r
  have "\<not> neutral DiscardAction" by (simp add: neutral_def)
  then show ?l using r by (auto simp: list_all_iff concat_eq_Nil_conv split: action.splits)
qed

text \<open>
  C7. The outcome of a script is exactly what its actions say. \<^verbatim>\<open>sieveOutcomeOf\<close>
  collects the folders and the redirects in order, notes a rejection, and keeps
  the message exactly if there is a keep or no action cancels the implicit keep.
  So a message is dropped without a trace (not kept, filed, redirected or
  rejected) exactly if the actions contain a discard and none of these.
\<close>

theorem sieveOutcomeOf_exact:
  "let out = sieveOutcomeOf as in
   so_folders out = folders_of as \<and> so_redirects out = redirects_of as \<and>
   (so_rejected out \<longleftrightarrow> (\<exists>m. RejectAction m \<in> set as)) \<and>
   (so_keep out \<longleftrightarrow> (\<exists>fs. KeepAction fs \<in> set as) \<or> list_all neutral as) \<and>
   (\<not> so_keep out \<and> so_folders out = [] \<and> so_redirects out = [] \<and> \<not> so_rejected out \<longleftrightarrow>
      DiscardAction \<in> set as \<and> set as \<subseteq> {DiscardAction, StopAction} \<union> range VacationAction)"
proof -
  obtain out ik where f: "fold outcomeStep as (noOutcome, True) = (out, ik)" by fastforce
  have o: "sieveOutcomeOf as = out\<lparr>so_keep := so_keep out \<or> ik\<rparr>" by (simp add: sieveOutcomeOf_def f)
  note facts = outcome_fold [OF f, simplified noOutcome_def, simplified]
  show ?thesis using facts dropped_silently [of as] unfolding o Let_def by simp
qed

end
