(* ===== verification/Spec2Isabelle.thy ===== *)
theory Spec2Isabelle
  imports Sieve_Parser_Facts Sieve_Glob_Facts Sieve_Interp_Facts ManageSieve_Facts Route_Facts Sieve_Delivery_Facts
begin

text \<open>
  A verification development for uMailServer, a mail server in Go (\<^verbatim>\<open>src/\<close>). It
  follows a message from the moment the SMTP server hands it to delivery, through
  the mail filter of its owner, into a mailbox or the queue, and it covers the life
  of the filter scripts: the ManageSieve protocol that uploads them, the manager
  that stores them, and the parser, compiler and interpreter that give them their
  meaning. Every definition of the model is executable.

  \<^bold>\<open>The parts and how they interact.\<close> \<^verbatim>\<open>deliverMessageToFolderDSN\<close> routes every recipient
  through aliases and domains. An external address goes into the queue. For a local
  mailbox, the owner's active Sieve script (held by the script manager) or else the
  webmail filters (translated to Sieve) decide: keep, file into folders, redirect,
  discard, reject, reply. The copies are stored under the account's quota, with
  account forwarding before. Recipients that failed are reported to the sender. The
  scripts come in through ManageSieve sessions, which authenticate, check and store
  them. All of this is one state per component, passed through the operations:
  \<open>script\<close> and interpreter records, \<open>manager\<close>, \<open>session\<close>, and \<open>world\<close>, which has the
  manager as a field.

  \<^bold>\<open>Theories.\<close>

  \<^item> \<open>Prelude\<close>: results that may fail (an error or a value, \<open>res_bind\<close>, the judgement
    \<open>sat\<close>), Go strings as byte lists with the functions of \<^verbatim>\<open>strings\<close> the code uses,
    UTF-8, 64-bit integers with wrap-around, the locale \<open>invariant_system\<close>.

  \<^item> \<open>Sieve_Parser\<close> (\<^verbatim>\<open>internal/sieve/parser.go\<close>): the text of a script to commands, with
    one function per parse method; reading past the end of the input is the error
    \<open>IndexOutOfRange\<close>. \<open>Sieve_Parser_Facts\<close> proves that parsing ends, that it never
    reads there, that accepted scripts are well formed, and that quoted strings are read back (locale
    \<open>token_parser\<close>).

  \<^item> \<open>Sieve_Glob\<close> (the matcher of \<^verbatim>\<open>interpreter.go\<close> and the comparators of \<^verbatim>\<open>match.go\<close>) with
    \<open>Utf8_Facts\<close> and \<open>Sieve_Glob_Facts\<close>: the budgeted matcher agrees with the declarative
    meaning of a wildcard pattern, and the numeric comparator orders numbers.

  \<^item> \<open>Sieve_Compile\<close> (\<^verbatim>\<open>compile.go\<close>) and \<open>Sieve_Compile_Facts\<close>: argument typing is exactly
    the grammar of a table entry, compiling never indexes out of range or fails a type
    assertion, and what a script uses it requires.

  \<^item> \<open>Sieve_Interp\<close> (\<^verbatim>\<open>interpreter.go\<close>, \<^verbatim>\<open>match.go\<close>) and \<open>Sieve_Interp_Facts\<close>: a run computes
    a declarative meaning (\<open>meaning\<close>), the actions it hands over are consistent and
    bounded, and a compiled script fails only by a limit. The locale \<open>run_invariant\<close>
    carries an invariant through the mutual recursion of commands and tests.

  \<^item> \<open>Sieve_Manager\<close> (\<^verbatim>\<open>manager.go\<close>) and \<open>Sieve_Manager_Facts\<close>: every change is stored or
    undone (\<open>SetActiveScript\<close>, two changes, up to the one that failed), a restart loads what was stored, quotas and the vacation window hold.
    Locales: \<open>user_change\<close>, \<open>quota_change\<close>.

  \<^item> \<open>ManageSieve\<close>, \<open>ManageSieve_Session\<close> (\<^verbatim>\<open>managesieve.go\<close>) and \<open>ManageSieve_Facts\<close>: a
    session is a sequence of manager operations of the user who logged in and of
    nobody else, every command is answered, lockout holds over any
    interleaving of login attempts and its table is bounded, and a script put is the
    script got. Locales: \<open>session_step\<close>, \<open>session_relation\<close>.

  \<^item> \<open>Mail_Store\<close>: what delivery uses of the stores, as one record \<open>world\<close>: accounts,
    domains, aliases, quota (\<^verbatim>\<open>internal/db/db.go\<close>), the queue and its files
    (\<^verbatim>\<open>internal/queue/manager.go\<close>, \<^verbatim>\<open>dsn.go\<close>), message blobs (\<^verbatim>\<open>internal/storage/messagestore.go\<close>),
    mailboxes, UIDs and rows (\<^verbatim>\<open>internal/storage/database.go\<close>). \<open>Mail_Store_Facts\<close> has the
    invariant \<open>store_ok\<close>, the relation \<open>extends\<close> (everything stored is still there) and
    \<open>grows\<close>, which every operation satisfies, and the exact effect of enqueueing.

  \<^item> \<open>Filters\<close> (\<^verbatim>\<open>internal/api/filters_sieve.go\<close>, \<^verbatim>\<open>filters.go\<close>): webmail filters as Sieve text.

  \<^item> \<open>Delivery\<close> (\<^verbatim>\<open>internal/server/server_rcpt_route.go\<close>, \<^verbatim>\<open>server_handlers.go\<close>): routes,
    header fields, forwarding, storing one copy. \<open>Route_Facts\<close>: aliases resolve to the
    end of their chain. \<open>Delivery_Facts\<close>: a copy that counts as delivered is filed
    in its folder or forwarded (\<open>filed\<close>, \<open>forwarded\<close>, \<open>inFolder\<close>), the quota counts what is stored, enqueueing is atomic.

  \<^item> \<open>Sieve_Delivery\<close> (\<^verbatim>\<open>server_sieve_delivery.go\<close>, \<^verbatim>\<open>server_vacation.go\<close>, the delivery loops of
    \<^verbatim>\<open>server_handlers.go\<close>) and \<open>Sieve_Delivery_Facts\<close>: accepted mail is accounted for, by way
    of either loop, from the evidence of each recipient's turn (\<open>served\<close>, \<open>placed\<close>,
    \<open>reported\<close>); both bodies are instances of the locale \<open>serving\<close>. Deliveries only
    add; the outcome of a script is what its actions say. \<open>Delivery_Demo\<close> is the small
    server the witnesses run.

  \<^bold>\<open>Parameters.\<close> What the code takes from Go's library and from other packages is an
  argument: \<open>golib\<close> (regular expressions, address and MIME parsing, quoting), \<open>mlib\<close>
  (JSON, the order of a map loop, bbolt transactions), \<open>config\<close> of a ManageSieve server
  (password check, clock, certificates and TLS handshake, error texts), and \<open>host\<close> with its extension \<open>senv\<close> (which
  writes fail, SHA-256, clock, header parsing, texts of reports and replies). Where a
  property relies on one of them, its laws are named hypotheses and its witness runs
  a concrete instance. The theorems about delivery hold for every choice of failing
  writes; only the atomicity of enqueueing assumes that none fails, because the
  rollback ignores errors as the code does.

  \<^bold>\<open>Bounds and fuel.\<close> The parser's loops run with fuel four times the length of the
  input plus two, which is proved to be enough. Matching has the step budget
  of the code. The session loop ends because every round consumes input or starts TLS,
  once. Alias routing and catch-all delivery are recursive functions with a
  measure; all other loops are structural. Numbers are kept at 64 bits where
  the code computes with them (quota, intervals, script numbers); UIDs are natural
  numbers below 2^32 with the code's own check.

  \<^bold>\<open>Not modelled.\<close> Concurrency: the operations of a session, the manager and one
  delivery are each one step, as their locks make them; the per-user delivery lock
  is the reason one delivery may be taken as a sequence. Left out as side effects
  that no later step reads: logging, tracing, metrics, webhooks, search index, push,
  IMAP notifications, threads and modification sequences. The queue's workers and
  outgoing SMTP, the account's own vacation setting, and login start where this
  development ends. The servers for SMTP, IMAP, POP3, JMAP, CalDAV and CardDAV, the
  HTTP API, mail authentication, spam scoring, search, TLS, backup and the command
  line are not modelled: they are network, file and cryptographic code or protocols
  of their own, and the manifest lists each with its reason.
\<close>

end
